(* ===== verification/Prelude.thy ===== *)
theory Prelude
  imports Main "HOL-Library.Word"
begin

text \<open>
  The prelude of the development: the types every component shares (bytes, characters,
  strings), the sequencing of fallible steps (\<open>Result\<close> as a sum, \<open>?\<close> as \<open>res_bind\<close>), and the
  generic lemmas on lists that the component proofs use. Four collections carry the
  automation: \<open>res_simps\<close> for the sequencing, \<open>text_simps\<close> for the text operations,
  \<open>wire_simps\<close> for what is sent and received, and \<open>run_simps\<close> for evaluating the model on a
  concrete input.
\<close>

named_theorems res_simps "sequencing of fallible steps"
named_theorems text_simps "operations on text"
named_theorems run_simps "definitions, for running the model on a concrete input"
named_theorems wire_simps "bytes on the wire"

section \<open>Bytes, characters, strings\<close>

text \<open>
  A Rust \<open>u8\<close> is an \<open>8 word\<close>, a \<open>u16\<close> a \<open>16 word\<close>, \<open>u64\<close>, \<open>i64\<close> and \<open>usize\<close> (on a 64-bit
  target) are \<open>64 word\<close>. A Rust \<open>char\<close> is a Unicode scalar value, here its number; a \<open>str\<close>
  is the sequence of its characters. \<open>lit\<close> gives the characters of an ASCII literal.
\<close>

type_synonym u8 = "8 word"
type_synonym u16 = "16 word"
type_synonym u64 = "64 word"
type_synonym i64 = "64 word"
type_synonym usize = "64 word"
type_synonym rchar = nat
type_synonym rstr = "rchar list"

abbreviation ch :: "char \<Rightarrow> rchar" where
  "ch c \<equiv> of_char c"

primrec lit :: "string \<Rightarrow> rstr" where
  "lit [] = []"
| "lit (c # cs) = of_char c # lit cs"

lemma length_lit [simp]: "length (lit s) = length s"
  by (induction s) auto

lemma lit_append [simp]: "lit (s @ t) = lit s @ lit t"
  by (induction s) auto

definition scalar :: "rchar \<Rightarrow> bool" where
  "scalar c \<longleftrightarrow> c < 55296 \<or> (57344 \<le> c \<and> c < 1114112)"

abbreviation scalars :: "rstr \<Rightarrow> bool" where
  "scalars s \<equiv> list_all scalar s"

lemma scalar_ascii: "c < 128 \<Longrightarrow> scalar c"
  by (simp add: scalar_def)

lemma scalars_lit [simp]: "scalars (lit s)"
proof (induction s)
  case (Cons c s)
  have "of_char c < (256 :: nat)" by (rule nat_of_char_less_256)
  then have "scalar (of_char c)" unfolding scalar_def by linarith
  with Cons show ?case by simp
qed simp

section \<open>Fallible steps\<close>

text \<open>\<open>res_bind\<close> is Rust's \<open>?\<close>: the error of the first step that fails is the result.\<close>

fun res_bind :: "'e + 'a \<Rightarrow> ('a \<Rightarrow> 'e + 'b) \<Rightarrow> 'e + 'b" where
  "res_bind (Inl e) f = Inl e"
| "res_bind (Inr a) f = f a"

fun map_err :: "('e \<Rightarrow> 'f) \<Rightarrow> 'e + 'a \<Rightarrow> 'f + 'a" where
  "map_err h (Inl e) = Inl (h e)"
| "map_err h (Inr a) = Inr a"

fun res_map :: "('a \<Rightarrow> 'b) \<Rightarrow> 'e + 'a \<Rightarrow> 'e + 'b" where
  "res_map h (Inl e) = Inl e"
| "res_map h (Inr a) = Inr (h a)"

fun ok_or :: "'e \<Rightarrow> 'a option \<Rightarrow> 'e + 'a" where
  "ok_or e None = Inl e"
| "ok_or e (Some a) = Inr a"

fun res_ok :: "'e + 'a \<Rightarrow> 'a option" where
  "res_ok (Inl e) = None"
| "res_ok (Inr a) = Some a"

text \<open>\<open>iter().map(f).collect::<Result<Vec<_>, _>>()\<close>: the first error, or every result.\<close>

fun collect_results :: "('a \<Rightarrow> 'e + 'b) \<Rightarrow> 'a list \<Rightarrow> 'e + 'b list" where
  "collect_results f [] = Inr []"
| "collect_results f (x # xs) =
     res_bind (f x) (\<lambda>y. res_bind (collect_results f xs) (\<lambda>ys. Inr (y # ys)))"

lemma res_bind_eq_Inr [res_simps]:
  "res_bind m f = Inr b \<longleftrightarrow> (\<exists>a. m = Inr a \<and> f a = Inr b)"
  by (cases m) auto

lemma res_bind_eq_Inl [res_simps]:
  "res_bind m f = Inl e \<longleftrightarrow> m = Inl e \<or> (\<exists>a. m = Inr a \<and> f a = Inl e)"
  by (cases m) auto

lemma map_err_eq_Inr [res_simps]: "map_err h m = Inr a \<longleftrightarrow> m = Inr a"
  by (cases m) auto

lemma map_err_eq_Inl [res_simps]: "map_err h m = Inl f \<longleftrightarrow> (\<exists>e. m = Inl e \<and> f = h e)"
  by (cases m) auto

lemma res_map_eq_Inr [res_simps]: "res_map h m = Inr b \<longleftrightarrow> (\<exists>a. m = Inr a \<and> b = h a)"
  by (cases m) auto

lemma res_map_eq_Inl [res_simps]: "res_map h m = Inl e \<longleftrightarrow> m = Inl e"
  by (cases m) auto

lemma ok_or_eq_Inr [res_simps]: "ok_or e m = Inr a \<longleftrightarrow> m = Some a"
  by (cases m) auto

lemma ok_or_eq_Inl [res_simps]: "ok_or e m = Inl f \<longleftrightarrow> m = None \<and> f = e"
  by (cases m) auto

lemma collect_results_map:
  assumes "\<And>x. x \<in> set xs \<Longrightarrow> f (g x) = Inr (h x)"
  shows "collect_results f (map g xs) = Inr (map h xs)"
  using assms by (induction xs) auto

lemma collect_results_length:
  "collect_results f xs = Inr ys \<Longrightarrow> length ys = length xs"
  by (induction xs arbitrary: ys) (auto simp: res_simps)

section \<open>Lists\<close>

lemma dropWhile_all_True: "(\<And>x. x \<in> set xs \<Longrightarrow> P x) \<Longrightarrow> dropWhile P (xs @ ys) = dropWhile P ys"
  by (simp add: dropWhile_append2)

lemma dropWhile_stop: "xs = [] \<or> \<not> P (hd xs) \<Longrightarrow> dropWhile P xs = xs"
  by (cases xs) auto

lemma takeWhile_stop:
  "(\<And>x. x \<in> set xs \<Longrightarrow> P x) \<Longrightarrow> \<not> P y \<Longrightarrow> takeWhile P (xs @ y # ys) = xs"
  by (induction xs) auto

end
