(* ===== verification/Rust_Text.thy ===== *)
theory Rust_Text
  imports Prelude
begin

text \<open>
  The operations of Rust's \<open>str\<close> that the driver calls, on sequences of characters: splitting,
  trimming, prefixes and suffixes, searching, joining. The reference for each is the standard
  library's documentation; the lemmas are the laws the parsers and printers rest on (a join
  is undone by a split, trimming stops at a non-blank, a prefix is stripped exactly once).
\<close>

section \<open>Splitting and joining\<close>

text \<open>\<open>s.split(P)\<close>: the pieces between the characters that satisfy \<open>P\<close>, empty ones included.\<close>

fun cons_head :: "'a \<Rightarrow> 'a list list \<Rightarrow> 'a list list" where
  "cons_head c [] = [[c]]"
| "cons_head c (p # ps) = (c # p) # ps"

fun split_when :: "(rchar \<Rightarrow> bool) \<Rightarrow> rstr \<Rightarrow> rstr list" where
  "split_when P [] = [[]]"
| "split_when P (c # cs) =
     (if P c then [] # split_when P cs else cons_head c (split_when P cs))"

abbreviation split_on :: "rchar \<Rightarrow> rstr \<Rightarrow> rstr list" where
  "split_on d \<equiv> split_when (\<lambda>c. c = d)"

text \<open>\<open>s.split("ab")\<close> for a two-character pattern: leftmost, non-overlapping matches.\<close>

fun split_pair :: "rchar \<Rightarrow> rchar \<Rightarrow> rstr \<Rightarrow> rstr list" where
  "split_pair a b [] = [[]]"
| "split_pair a b [c] = [[c]]"
| "split_pair a b (c # d # cs) =
     (if c = a \<and> d = b then [] # split_pair a b cs
      else cons_head c (split_pair a b (d # cs)))"

text \<open>\<open>parts.join(sep)\<close>.\<close>

fun join :: "rstr \<Rightarrow> rstr list \<Rightarrow> rstr" where
  "join sep [] = []"
| "join sep [p] = p"
| "join sep (p # q # ps) = p @ sep @ join sep (q # ps)"

lemma cons_head_not_Nil [simp]: "cons_head c ps \<noteq> []"
  by (cases ps) auto

lemma split_when_not_Nil [simp]: "split_when P s \<noteq> []"
  by (induction s) auto

lemma split_pair_not_Nil [simp]: "split_pair a b s \<noteq> []"
  by (induction a b s rule: split_pair.induct) auto

lemma join_Cons: "ps \<noteq> [] \<Longrightarrow> join sep (p # ps) = p @ sep @ join sep ps"
  by (cases ps) auto

lemma cons_head_append: "ps \<noteq> [] \<Longrightarrow> cons_head c (ps @ qs) = cons_head c ps @ qs"
  by (cases ps) auto

lemma split_when_no_sep:
  "(\<And>c. c \<in> set s \<Longrightarrow> \<not> P c) \<Longrightarrow> split_when P s = [s]"
  by (induction s) auto

lemma split_when_append_sep:
  "P d \<Longrightarrow> split_when P (s @ d # t) = split_when P s @ split_when P t"
  by (induction s) (auto simp: cons_head_append)

lemma split_when_no_sep_append_sep [text_simps]:
  "\<lbrakk>\<And>c. c \<in> set s \<Longrightarrow> \<not> P c; P d\<rbrakk> \<Longrightarrow> split_when P (s @ d # t) = s # split_when P t"
  by (simp add: split_when_append_sep split_when_no_sep)

lemma split_when_pieces:
  "p \<in> set (split_when P s) \<Longrightarrow> c \<in> set p \<Longrightarrow> \<not> P c"
proof (induction s arbitrary: p)
  case (Cons a s)
  then show ?case by (cases "split_when P s") (fastforce split: if_splits)+
qed simp

lemma split_when_chars:
  "p \<in> set (split_when P s) \<Longrightarrow> set p \<subseteq> set s"
proof (induction s arbitrary: p)
  case (Cons a s)
  then show ?case by (cases "split_when P s") (fastforce split: if_splits)+
qed simp

lemma split_on_join:
  "\<lbrakk>ps \<noteq> []; \<And>p. p \<in> set ps \<Longrightarrow> d \<notin> set p\<rbrakk> \<Longrightarrow> split_on d (join [d] ps) = ps"
proof (induction "[d]" ps rule: join.induct)
  case (2 p)
  then show ?case by (auto intro: split_when_no_sep)
next
  case (3 p q ps)
  then have "d \<notin> set p" by simp
  then have "split_on d (p @ d # join [d] (q # ps)) = p # split_on d (join [d] (q # ps))"
    by (intro split_when_no_sep_append_sep) auto
  with 3 show ?case by simp
qed simp

lemma join_split_on: "join [d] (split_on d s) = s"
proof (induction s)
  case (Cons a s)
  show ?case
  proof (cases "split_on d s")
    case (Cons p ps)
    with Cons.IH show ?thesis by (cases ps) (auto simp: join_Cons)
  qed simp
qed simp

lemma length_split_on: "length (split_on d s) = Suc (length (filter (\<lambda>c. c = d) s))"
proof (induction s)
  case (Cons a s)
  then show ?case by (cases "split_on d s") auto
qed simp

lemma split_pair_no_first:
  "a \<notin> set s \<Longrightarrow> split_pair a b s = [s]"
  by (induction a b s rule: split_pair.induct) auto

lemma split_pair_no_second_append:
  "b \<notin> set s \<Longrightarrow> b \<noteq> a \<Longrightarrow> split_pair a b (s @ a # b # t) = s # split_pair a b t"
proof (induction a b s rule: split_pair.induct)
  case (3 a b c d cs)
  then show ?case by auto
qed auto

lemma split_pair_no_second: "b \<notin> set s \<Longrightarrow> split_pair a b s = [s]"
  by (induction a b s rule: split_pair.induct) auto

lemma split_pair_join:
  "\<lbrakk>ps \<noteq> []; b \<noteq> a; \<And>p. p \<in> set ps \<Longrightarrow> b \<notin> set p\<rbrakk> \<Longrightarrow> split_pair a b (join [a, b] ps) = ps"
proof (induction "[a, b]" ps rule: join.induct)
  case (2 p)
  then show ?case by (auto intro: split_pair_no_second)
next
  case (3 p q ps)
  then show ?case by (simp add: split_pair_no_second_append)
qed simp

lemma set_join: "set (join sep ps) \<subseteq> set sep \<union> \<Union> (set ` set ps)"
  by (induction sep ps rule: join.induct) auto

section \<open>Prefixes, suffixes, searching\<close>

fun strip_prefix :: "rstr \<Rightarrow> rstr \<Rightarrow> rstr option" where
  "strip_prefix [] s = Some s"
| "strip_prefix (p # ps) [] = None"
| "strip_prefix (p # ps) (c # cs) = (if p = c then strip_prefix ps cs else None)"

definition strip_suffix :: "rstr \<Rightarrow> rstr \<Rightarrow> rstr option" where
  "strip_suffix p s = map_option rev (strip_prefix (rev p) (rev s))"

definition starts_with :: "rstr \<Rightarrow> rstr \<Rightarrow> bool" where
  "starts_with p s = (strip_prefix p s \<noteq> None)"

fun contains :: "rstr \<Rightarrow> rstr \<Rightarrow> bool" where
  "contains p [] = (p = [])"
| "contains p (c # cs) = (starts_with p (c # cs) \<or> contains p cs)"

text \<open>\<open>s.rsplit_once(d)\<close>: the text before and after the last \<open>d\<close>.\<close>

fun rsplit_once :: "rchar \<Rightarrow> rstr \<Rightarrow> (rstr \<times> rstr) option" where
  "rsplit_once d [] = None"
| "rsplit_once d (c # cs) =
     (case rsplit_once d cs of
        Some (a, b) \<Rightarrow> Some (c # a, b)
      | None \<Rightarrow> if c = d then Some ([], cs) else None)"

lemma strip_prefix_append [simp]: "strip_prefix p (p @ s) = Some s"
  by (induction p) auto

lemma strip_prefix_Some: "strip_prefix p s = Some t \<longleftrightarrow> s = p @ t"
  by (induction p s rule: strip_prefix.induct) auto

lemma strip_suffix_append [simp]: "strip_suffix p (s @ p) = Some s"
  by (simp add: strip_suffix_def)

lemma strip_suffix_Some: "strip_suffix p s = Some t \<longleftrightarrow> s = t @ p"
proof -
  have "strip_suffix p s = Some t \<longleftrightarrow> strip_prefix (rev p) (rev s) = Some (rev t)"
    by (auto simp: strip_suffix_def)
  also have "\<dots> \<longleftrightarrow> rev s = rev p @ rev t" by (rule strip_prefix_Some)
  also have "\<dots> \<longleftrightarrow> s = t @ p" by (metis rev_append rev_rev_ident)
  finally show ?thesis .
qed

lemma starts_with_append: "starts_with p s \<longleftrightarrow> (\<exists>t. s = p @ t)"
  by (auto simp: starts_with_def strip_prefix_Some)

lemma contains_iff: "contains p s \<longleftrightarrow> (\<exists>a b. s = a @ p @ b)"
proof (induction s)
  case (Cons c s)
  have "(\<exists>a b. c # s = a @ p @ b) \<longleftrightarrow> (\<exists>b. c # s = p @ b) \<or> (\<exists>a b. s = a @ p @ b)"
    by (metis append_Cons append_Nil neq_Nil_conv list.inject)
  with Cons show ?case by (simp add: starts_with_append)
qed auto

lemma rsplit_once_None: "rsplit_once d s = None \<longleftrightarrow> d \<notin> set s"
  by (induction s) (auto split: option.splits)

lemma rsplit_once_append [text_simps]:
  "d \<notin> set t \<Longrightarrow> rsplit_once d (s @ d # t) = Some (s, t)"
  by (induction s) (auto simp: rsplit_once_None [THEN iffD2])

lemma rsplit_once_Some:
  "rsplit_once d s = Some (a, b) \<Longrightarrow> s = a @ d # b \<and> d \<notin> set b"
  by (induction s arbitrary: a) (auto simp: rsplit_once_None split: option.splits if_splits)

section \<open>Blanks\<close>

text \<open>\<open>char::is_whitespace\<close>: the characters with the Unicode property White\_Space.\<close>

definition is_whitespace :: "rchar \<Rightarrow> bool" where
  "is_whitespace c \<longleftrightarrow>
     (9 \<le> c \<and> c \<le> 13) \<or> c = 32 \<or> c = 133 \<or> c = 160 \<or> c = 5760 \<or> (8192 \<le> c \<and> c \<le> 8202)
     \<or> c = 8232 \<or> c = 8233 \<or> c = 8239 \<or> c = 8287 \<or> c = 12288"

definition trim_start :: "rstr \<Rightarrow> rstr" where
  "trim_start s = dropWhile is_whitespace s"

definition trim_end_matches :: "(rchar \<Rightarrow> bool) \<Rightarrow> rstr \<Rightarrow> rstr" where
  "trim_end_matches P s = rev (dropWhile P (rev s))"

definition trim_start_matches :: "(rchar \<Rightarrow> bool) \<Rightarrow> rstr \<Rightarrow> rstr" where
  "trim_start_matches P s = dropWhile P s"

definition trim :: "rstr \<Rightarrow> rstr" where
  "trim s = trim_end_matches is_whitespace (trim_start s)"

definition split_whitespace :: "rstr \<Rightarrow> rstr list" where
  "split_whitespace s = filter (\<lambda>p. p \<noteq> []) (split_when is_whitespace s)"

text \<open>A text with no blank at either end.\<close>

definition trimmed :: "rstr \<Rightarrow> bool" where
  "trimmed s \<longleftrightarrow> s = [] \<or> (\<not> is_whitespace (hd s) \<and> \<not> is_whitespace (last s))"

lemma trim_end_matches_stop:
  "s = [] \<or> \<not> P (last s) \<Longrightarrow> trim_end_matches P s = s"
  by (auto simp: trim_end_matches_def dropWhile_stop hd_rev)

lemma trim_end_matches_snoc [simp]: "P c \<Longrightarrow> trim_end_matches P (s @ [c]) = trim_end_matches P s"
  by (simp add: trim_end_matches_def)

lemma trim_trimmed [text_simps]: "trimmed s \<Longrightarrow> trim s = s"
  unfolding trimmed_def trim_def trim_start_def
  by (auto simp: trim_end_matches_stop dropWhile_stop)

lemma trim_Cons_blank [simp]: "is_whitespace c \<Longrightarrow> trim (c # s) = trim s"
  by (simp add: trim_def trim_start_def)

lemma trim_snoc_blank [simp]: "is_whitespace c \<Longrightarrow> trim (s @ [c]) = trim s"
proof (cases "\<exists>x \<in> set s. \<not> is_whitespace x")
  case True
  assume "is_whitespace c"
  with True show ?thesis
    by (auto simp: trim_def trim_start_def dropWhile_append1)
next
  case False
  assume "is_whitespace c"
  with False have "dropWhile is_whitespace s = []" "dropWhile is_whitespace (s @ [c]) = []"
    by auto
  then show ?thesis by (simp only: trim_def trim_start_def)
qed

lemma trim_end_matches_trimmed: "trim_end_matches P s = [] \<or> \<not> P (last (trim_end_matches P s))"
proof (cases "dropWhile P (rev s)")
  case (Cons a xs)
  then have "\<not> P (hd (dropWhile P (rev s)))" by (metis hd_dropWhile list.distinct(1))
  then show ?thesis by (simp add: trim_end_matches_def last_rev)
qed (simp add: trim_end_matches_def)

lemma trim_end_matches_prefix: "\<exists>t. s = trim_end_matches P s @ t \<and> (\<forall>c \<in> set t. P c)"
proof -
  have "s = rev (dropWhile P (rev s)) @ rev (takeWhile P (rev s))"
    by (metis rev_append rev_rev_ident takeWhile_dropWhile_id)
  then show ?thesis
    unfolding trim_end_matches_def by (metis set_rev set_takeWhileD)
qed

lemma trimmed_trim: "trimmed (trim s)"
proof -
  let ?a = "dropWhile is_whitespace s"
  obtain t where t: "?a = trim s @ t"
    using trim_end_matches_prefix [of ?a is_whitespace] by (auto simp: trim_def trim_start_def)
  have "trim s = [] \<or> \<not> is_whitespace (last (trim s))"
    unfolding trim_def by (rule trim_end_matches_trimmed)
  moreover have "trim s \<noteq> [] \<Longrightarrow> \<not> is_whitespace (hd (trim s))"
    using t hd_dropWhile [of is_whitespace s] by (cases "trim s") auto
  ultimately show ?thesis by (auto simp: trimmed_def)
qed

lemma split_whitespace_blank [text_simps]:
  "is_whitespace c \<Longrightarrow> split_whitespace (c # s) = split_whitespace s"
  by (simp add: split_whitespace_def)

lemma split_whitespace_word [text_simps]:
  "\<lbrakk>w \<noteq> []; \<And>x. x \<in> set w \<Longrightarrow> \<not> is_whitespace x; is_whitespace c\<rbrakk>
   \<Longrightarrow> split_whitespace (w @ c # s) = w # split_whitespace s"
  by (simp add: split_whitespace_def split_when_no_sep_append_sep)

lemma split_whitespace_last [text_simps]:
  "\<lbrakk>w \<noteq> []; \<And>x. x \<in> set w \<Longrightarrow> \<not> is_whitespace x\<rbrakk> \<Longrightarrow> split_whitespace w = [w]"
  by (simp add: split_whitespace_def split_when_no_sep)

lemma split_whitespace_Nil [simp]: "split_whitespace [] = []"
  by (simp add: split_whitespace_def)

lemma split_whitespace_words:
  "w \<in> set (split_whitespace s) \<Longrightarrow> w \<noteq> [] \<and> (\<forall>c \<in> set w. \<not> is_whitespace c)"
  by (auto simp: split_whitespace_def dest: split_when_pieces)

section \<open>ASCII case\<close>

definition to_ascii_lower :: "rchar \<Rightarrow> rchar" where
  "to_ascii_lower c = (if 65 \<le> c \<and> c \<le> 90 then c + 32 else c)"

definition eq_ignore_ascii_case :: "rstr \<Rightarrow> rstr \<Rightarrow> bool" where
  "eq_ignore_ascii_case s t \<longleftrightarrow> map to_ascii_lower s = map to_ascii_lower t"

lemma eq_ignore_ascii_case_refl [simp]: "eq_ignore_ascii_case s s"
  by (simp add: eq_ignore_ascii_case_def)

text \<open>Evaluation on concrete texts.\<close>

lemmas text_run [run_simps] = strip_suffix_def starts_with_def is_whitespace_def trim_start_def
  trim_end_matches_def trim_start_matches_def trim_def split_whitespace_def to_ascii_lower_def
  eq_ignore_ascii_case_def trimmed_def

end
