(* ===== verification/Rust_Int.thy ===== *)
theory Rust_Int
  imports Rust_Text
begin

text \<open>
  Rust's decimal conversions of machine integers: \<open>str::parse\<close> (\<open>from_str_radix\<close> with radix
  10, digit by digit with checked arithmetic, so that an overflow is an error and never a
  wrapped value) and \<open>to_string\<close>. Both are stated once for every width \<open>'a\<close>; the lemmas say
  that they undo each other, which strings parse, and which characters a printed number has.
\<close>

section \<open>Printing\<close>

fun show_nat :: "nat \<Rightarrow> rstr" where
  "show_nat n = (if n < 10 then [48 + n] else show_nat (n div 10) @ [48 + n mod 10])"

declare show_nat.simps [simp del]

definition show_int :: "int \<Rightarrow> rstr" where
  "show_int i = (if i < 0 then ch CHR ''-'' # show_nat (nat (- i)) else show_nat (nat i))"

definition show_uint :: "'a::len word \<Rightarrow> rstr" where
  "show_uint w = show_nat (unat w)"

definition show_sint :: "'a::len word \<Rightarrow> rstr" where
  "show_sint w = show_int (sint w)"

section \<open>Parsing\<close>

datatype int_error = Empty | InvalidDigit | PosOverflow | NegOverflow

definition to_digit :: "rchar \<Rightarrow> int option" where
  "to_digit c = (if 48 \<le> c \<and> c \<le> 57 then Some (int c - 48) else None)"

text \<open>The two loops of \<open>from_str_radix\<close>: \<open>checked_mul\<close>, then the digit, then \<open>checked_add\<close>.\<close>

fun acc_pos :: "int \<Rightarrow> int \<Rightarrow> rstr \<Rightarrow> int_error + int" where
  "acc_pos hi a [] = Inr a"
| "acc_pos hi a (c # cs) =
     (case to_digit c of
        None \<Rightarrow> Inl InvalidDigit
      | Some d \<Rightarrow>
          if a * 10 > hi then Inl PosOverflow
          else if a * 10 + d > hi then Inl PosOverflow
          else acc_pos hi (a * 10 + d) cs)"

fun acc_neg :: "int \<Rightarrow> int \<Rightarrow> rstr \<Rightarrow> int_error + int" where
  "acc_neg lo a [] = Inr a"
| "acc_neg lo a (c # cs) =
     (case to_digit c of
        None \<Rightarrow> Inl InvalidDigit
      | Some d \<Rightarrow>
          if a * 10 < lo then Inl NegOverflow
          else if a * 10 - d < lo then Inl NegOverflow
          else acc_neg lo (a * 10 - d) cs)"

definition from_str_radix :: "bool \<Rightarrow> int \<Rightarrow> int \<Rightarrow> rstr \<Rightarrow> int_error + int" where
  "from_str_radix is_signed lo hi s =
     (case s of
        [] \<Rightarrow> Inl Empty
      | c # cs \<Rightarrow>
          if (c = ch CHR ''+'' \<or> c = ch CHR ''-'') \<and> cs = [] then Inl InvalidDigit
          else if c = ch CHR ''+'' then acc_pos hi 0 cs
          else if c = ch CHR ''-'' \<and> is_signed then acc_neg lo 0 cs
          else acc_pos hi 0 s)"

definition parse_uint :: "rstr \<Rightarrow> int_error + 'a::len word" where
  "parse_uint s = res_map word_of_int (from_str_radix False 0 (2 ^ LENGTH('a) - 1) s)"

definition parse_sint :: "rstr \<Rightarrow> int_error + 'a::len word" where
  "parse_sint s =
     res_map word_of_int
       (from_str_radix True (- (2 ^ (LENGTH('a) - 1))) (2 ^ (LENGTH('a) - 1) - 1) s)"

section \<open>Digits\<close>

definition is_digit :: "rchar \<Rightarrow> bool" where
  "is_digit c \<longleftrightarrow> 48 \<le> c \<and> c \<le> 57"

lemma to_digit_Some: "to_digit c = Some d \<longleftrightarrow> is_digit c \<and> d = int c - 48"
  by (auto simp: to_digit_def is_digit_def)

lemma to_digit_None: "to_digit c = None \<longleftrightarrow> \<not> is_digit c"
  by (auto simp: to_digit_def is_digit_def)

lemma to_digit_range: "to_digit c = Some d \<Longrightarrow> 0 \<le> d \<and> d \<le> 9"
  by (auto simp: to_digit_def split: if_splits)

lemma is_digit_blank: "is_digit c \<Longrightarrow> \<not> is_whitespace c"
  by (auto simp: is_digit_def is_whitespace_def)

text \<open>The number a string of digits denotes, and its relation to the two loops.\<close>

fun digits_value :: "int \<Rightarrow> rstr \<Rightarrow> int" where
  "digits_value a [] = a"
| "digits_value a (c # cs) = digits_value (a * 10 + (int c - 48)) cs"

lemma digits_value_mono: "0 \<le> a \<Longrightarrow> list_all is_digit s \<Longrightarrow> a \<le> digits_value a s"
proof (induction s arbitrary: a)
  case (Cons c s)
  then have "a * 10 + (int c - 48) \<le> digits_value (a * 10 + (int c - 48)) s"
    by (intro Cons.IH) (auto simp: is_digit_def)
  with Cons.prems show ?case by (auto simp: is_digit_def)
qed simp

lemma digits_value_append: "digits_value a (s @ t) = digits_value (digits_value a s) t"
  by (induction s arbitrary: a) auto

lemma acc_pos_eq_Inr:
  "0 \<le> a \<Longrightarrow> a \<le> hi \<Longrightarrow>
   acc_pos hi a s = Inr v \<longleftrightarrow> list_all is_digit s \<and> digits_value a s = v \<and> v \<le> hi"
proof (induction s arbitrary: a)
  case (Cons c s)
  show ?case
  proof (cases "is_digit c")
    case True
    define b where "b = a * 10 + (int c - 48)"
    have b: "0 \<le> b" "a * 10 \<le> b" using True Cons.prems by (auto simp: b_def is_digit_def)
    show ?thesis
    proof (cases "b \<le> hi")
      case True': True
      with b Cons.IH [of b] True show ?thesis
        by (auto simp: to_digit_Some [THEN iffD2] b_def)
    next
      case False
      then have "list_all is_digit s \<Longrightarrow> hi < digits_value b s"
        using digits_value_mono [OF b(1), of s] by simp
      with False True show ?thesis by (auto simp: to_digit_Some [THEN iffD2] b_def)
    qed
  next
    case False
    then show ?thesis by (simp add: to_digit_None [THEN iffD2])
  qed
qed auto

lemma acc_neg_acc_pos:
  "acc_neg lo a s = Inr v \<longleftrightarrow> acc_pos (- lo) (- a) s = Inr (- v)"
proof (induction s arbitrary: a)
  case (Cons c s)
  show ?case
  proof (cases "to_digit c")
    case (Some d)
    have "acc_neg lo (a * 10 - d) s = Inr v \<longleftrightarrow> acc_pos (- lo) (- (a * 10 - d)) s = Inr (- v)"
      by (rule Cons.IH)
    also have "- (a * 10 - d) = - a * 10 + d" by simp
    finally show ?thesis using Some by auto
  qed simp
qed auto

lemma acc_neg_eq_Inr:
  "0 \<le> - lo \<Longrightarrow>
   acc_neg lo 0 s = Inr v \<longleftrightarrow> list_all is_digit s \<and> digits_value 0 s = - v \<and> lo \<le> v"
  by (auto simp: acc_neg_acc_pos acc_pos_eq_Inr)

section \<open>Printed numbers\<close>

lemma show_nat_not_Nil [simp]: "show_nat n \<noteq> []"
  by (subst show_nat.simps) simp

lemma show_nat_digits: "list_all is_digit (show_nat n)"
proof (induction n rule: show_nat.induct)
  case (1 n)
  have "is_digit (48 + n mod 10)" "n < 10 \<Longrightarrow> is_digit (48 + n)" by (auto simp: is_digit_def)
  with 1 show ?case by (subst show_nat.simps) auto
qed

lemma show_nat_digit: "c \<in> set (show_nat n) \<Longrightarrow> is_digit c"
  using show_nat_digits [of n] by (simp add: list_all_iff)

lemma digits_value_show_nat: "digits_value 0 (show_nat n) = int n"
proof (induction n rule: show_nat.induct)
  case (1 n)
  show ?case
  proof (cases "n < 10")
    case True
    then show ?thesis by (subst show_nat.simps) simp
  next
    case False
    with "1.IH" have "digits_value 0 (show_nat (n div 10)) = int (n div 10)" by simp
    moreover have "int (n div 10) * 10 + int (n mod 10) = int n" by presburger
    ultimately show ?thesis using False
      by (subst show_nat.simps) (simp add: digits_value_append)
  qed
qed

lemma show_nat_head: "is_digit (hd (show_nat n))"
  by (rule show_nat_digit [of _ n]) simp

lemma show_nat_inj: "show_nat m = show_nat n \<longleftrightarrow> m = n"
  by (metis digits_value_show_nat of_nat_eq_iff)

lemma show_int_chars: "c \<in> set (show_int i) \<Longrightarrow> c = ch CHR ''-'' \<or> is_digit c"
  by (auto simp: show_int_def dest: show_nat_digit split: if_splits)

lemma show_int_not_Nil [simp]: "show_int i \<noteq> []"
  by (simp add: show_int_def)

lemma show_int_no_blank: "c \<in> set (show_int i) \<Longrightarrow> \<not> is_whitespace c"
  by (auto dest!: show_int_chars is_digit_blank simp: is_whitespace_def)

lemma scalar_digit: "is_digit c \<Longrightarrow> scalar c"
  by (simp add: is_digit_def scalar_def)

lemma scalars_show_nat [simp]: "scalars (show_nat n)"
  using show_nat_digits [of n] by (auto simp: list_all_iff scalar_digit)

lemma scalars_show_int [simp]: "scalars (show_int i)"
  by (auto simp: show_int_def scalar_def)

section \<open>Which strings parse\<close>

lemma from_str_radix_digits:
  assumes "s \<noteq> []" "list_all is_digit s" "0 \<le> hi"
  shows "from_str_radix sg lo hi s = acc_pos hi 0 s"
proof -
  obtain c cs where s: "s = c # cs" using assms(1) by (cases s) auto
  then have "is_digit c" using assms(2) by simp
  then show ?thesis by (simp add: s from_str_radix_def is_digit_def)
qed

lemma from_str_radix_show_nat:
  "int n \<le> hi \<Longrightarrow> from_str_radix sg lo hi (show_nat n) = Inr (int n)"
  by (subst from_str_radix_digits)
    (auto simp: show_nat_digits acc_pos_eq_Inr digits_value_show_nat)

lemma from_str_radix_show_int:
  assumes "lo \<le> i" "i \<le> hi" "lo \<le> 0" "0 \<le> hi"
  shows "from_str_radix True lo hi (show_int i) = Inr i"
proof (cases "i < 0")
  case True
  with assms show ?thesis
    by (simp add: from_str_radix_def show_int_def acc_neg_eq_Inr show_nat_digits
        digits_value_show_nat)
next
  case False
  with assms show ?thesis by (simp add: show_int_def from_str_radix_show_nat)
qed

lemma parse_uint_show_uint [simp]: "parse_uint (show_uint w) = Inr (w :: 'a::len word)"
proof -
  have "int (unat w) \<le> 2 ^ LENGTH('a) - 1"
    using uint_lt2p [of w] by (simp add: uint_nat [symmetric] zle_diff1_eq)
  then show ?thesis by (simp add: parse_uint_def show_uint_def from_str_radix_show_nat)
qed

lemma parse_sint_show_sint [simp]: "parse_sint (show_sint w) = Inr (w :: 'a::len word)"
proof -
  have "- (2 ^ (LENGTH('a) - 1)) \<le> sint w" "sint w \<le> 2 ^ (LENGTH('a) - 1) - 1"
    using sint_ge [of w] sint_lt [of w] by (auto simp: zle_diff1_eq)
  then show ?thesis
    by (simp add: parse_sint_def show_sint_def from_str_radix_show_int)
qed

text \<open>The language of unsigned and signed numbers, and their bounds.\<close>

lemma from_str_radix_unsigned_Inr:
  assumes "0 \<le> hi"
  shows "from_str_radix False 0 hi s = Inr v \<longleftrightarrow>
    (\<exists>ds. ds \<noteq> [] \<and> list_all is_digit ds \<and> (s = ds \<or> s = ch CHR ''+'' # ds)
       \<and> v = digits_value 0 ds \<and> v \<le> hi)"
proof (cases s)
  case (Cons c cs)
  show ?thesis
  proof (cases "c = ch CHR ''+''")
    case True
    with Cons assms show ?thesis
      by (auto simp: from_str_radix_def acc_pos_eq_Inr is_digit_def)
  next
    case False
    show ?thesis
    proof (cases "c = ch CHR ''-'' \<and> cs = []")
      case True
      with Cons show ?thesis by (auto simp: from_str_radix_def is_digit_def)
    next
      case False': False
      then have "from_str_radix False 0 hi s = Inr v \<longleftrightarrow> acc_pos hi 0 (c # cs) = Inr v"
        using Cons False by (auto simp: from_str_radix_def)
      also have "\<dots> \<longleftrightarrow> list_all is_digit (c # cs) \<and> digits_value 0 (c # cs) = v \<and> v \<le> hi"
        by (rule acc_pos_eq_Inr) (simp_all add: assms)
      finally show ?thesis using Cons False by (auto simp del: digits_value.simps)
    qed
  qed
qed (simp add: from_str_radix_def)

lemma parse_uint_Inr:
  "parse_uint s = Inr (w :: 'a::len word) \<longleftrightarrow>
    (\<exists>ds. ds \<noteq> [] \<and> list_all is_digit ds \<and> (s = ds \<or> s = ch CHR ''+'' # ds)
       \<and> digits_value 0 ds = uint w)"
proof -
  have "parse_uint s = Inr w \<longleftrightarrow>
    (\<exists>v. from_str_radix False 0 (2 ^ LENGTH('a) - 1) s = Inr v \<and> w = word_of_int v)"
    by (auto simp: parse_uint_def res_simps)
  also have "\<dots> \<longleftrightarrow> (\<exists>ds. ds \<noteq> [] \<and> list_all is_digit ds \<and> (s = ds \<or> s = ch CHR ''+'' # ds)
       \<and> digits_value 0 ds \<le> 2 ^ LENGTH('a) - 1 \<and> w = word_of_int (digits_value 0 ds))"
    by (auto simp: from_str_radix_unsigned_Inr)
  also have "\<dots> \<longleftrightarrow> (\<exists>ds. ds \<noteq> [] \<and> list_all is_digit ds \<and> (s = ds \<or> s = ch CHR ''+'' # ds)
       \<and> digits_value 0 ds = uint w)"
  proof (intro ex_cong1 conj_cong refl)
    fix ds assume "list_all is_digit ds"
    then have "0 \<le> digits_value 0 ds" by (intro digits_value_mono) auto
    then show "(digits_value 0 ds \<le> 2 ^ LENGTH('a) - 1 \<and> w = word_of_int (digits_value 0 ds))
      \<longleftrightarrow> digits_value 0 ds = uint w"
      using uint_lt2p [of w]
      by (auto simp: uint_word_of_int_eq take_bit_int_eq_self zle_diff1_eq)
  qed
  finally show ?thesis .
qed

lemma show_nat_step [run_simps]:
  "show_nat n = (if n < 10 then [48 + n] else show_nat (n div 10) @ [48 + n mod 10])"
  by (rule show_nat.simps)

lemmas int_run [run_simps] = show_int_def show_uint_def show_sint_def to_digit_def
  from_str_radix_def parse_uint_def parse_sint_def

end
