(* ===== verification/Driver_Error.thy ===== *)
theory Driver_Error
  imports Rust_Float
begin

text \<open>
  The driver's error values (\<open>src/error.rs\<close>) and the errors of sqlx they become.

  A message is the list of the pieces its \<open>format!\<close> puts together: the literal text, a value
  shown with \<open>{}\<close> (\<open>Disp\<close>, \<open>Num\<close>, \<open>DispIo\<close>, \<open>DispUtf8\<close> for the error of
  \<open>String::from_utf8\<close> on the given bytes) or with \<open>{:?}\<close> (\<open>Dbg\<close>, \<open>DbgList\<close>, \<open>DbgChar\<close>). The
  piece keeps the value; how \<open>{:?}\<close> quotes it is not modelled.
\<close>

text \<open>\<open>std::io::Error\<close>, known to the driver as an opaque value with a description.\<close>

datatype io_error = IoError rstr

datatype piece =
    Lit string
  | Disp rstr
  | Num nat
  | DispIo io_error
  | DispUtf8 "u8 list"
  | Dbg rstr
  | DbgList "rstr list"
  | DbgChar rchar

type_synonym message = "piece list"

section \<open>A server-reported error\<close>

record monet_database_error =
  db_message :: rstr

definition monet_database_error_new :: "rstr \<Rightarrow> monet_database_error" where
  "monet_database_error_new m = \<lparr>db_message = m\<rparr>"

definition display_database_error :: "monet_database_error \<Rightarrow> rstr" where
  "display_database_error e = db_message e"

text \<open>The part of sqlx's \<open>ErrorKind\<close> the driver uses, and the \<open>DatabaseError\<close> methods.\<close>

datatype error_kind = ErrorKind_Other

definition database_error_message :: "monet_database_error \<Rightarrow> rstr" where
  "database_error_message e = db_message e"

definition database_error_kind :: "monet_database_error \<Rightarrow> error_kind" where
  "database_error_kind e = ErrorKind_Other"

text \<open>The upcasts to \<open>dyn Error\<close>, by reference, by mutable reference and boxed, give the error.\<close>

datatype dyn_error = DynError monet_database_error

definition database_error_as_error :: "monet_database_error \<Rightarrow> dyn_error" where
  "database_error_as_error e = DynError e"

definition database_error_as_error_mut :: "monet_database_error \<Rightarrow> dyn_error" where
  "database_error_as_error_mut e = DynError e"

definition database_error_into_error :: "monet_database_error \<Rightarrow> dyn_error" where
  "database_error_into_error e = DynError e"

section \<open>A driver-internal error\<close>

datatype monet_error =
    Io io_error
  | Handshake message
  | Protocol message

fun display_monet_error :: "monet_error \<Rightarrow> message" where
  "display_monet_error (Io err) = [Lit ''I/O error: '', DispIo err]"
| "display_monet_error (Handshake msg) = Lit ''MAPI handshake failed: '' # msg"
| "display_monet_error (Protocol msg) = Lit ''MAPI protocol error: '' # msg"

fun monet_error_source :: "monet_error \<Rightarrow> io_error option" where
  "monet_error_source (Io err) = Some err"
| "monet_error_source (Handshake _) = None"
| "monet_error_source (Protocol _) = None"

definition monet_error_from_io :: "io_error \<Rightarrow> monet_error" where
  "monet_error_from_io err = Io err"

section \<open>The errors of sqlx\<close>

text \<open>
  \<open>BoxDynError\<close>, by what the driver puts in the box; \<open>BoxForeign\<close> is an error of a library the
  driver decodes with (\<open>rust_decimal\<close>, \<open>chrono\<close>).
\<close>

datatype box_error =
    UnexpectedNull
  | BoxMessage message
  | BoxParseInt int_error
  | BoxParseFloat float_error
  | BoxFromUtf8
  | BoxForeign rstr

text \<open>The constructors of \<open>sqlx_core::Error\<close> the driver builds.\<close>

datatype sqlx_error =
    SqlxIo io_error
  | SqlxProtocol message
  | SqlxDatabase monet_database_error
  | SqlxEncode box_error
  | ColumnIndexOutOfBounds nat nat
  | ColumnNotFound rstr

fun sqlx_from_monet :: "monet_error \<Rightarrow> sqlx_error" where
  "sqlx_from_monet (Io io_err) = SqlxIo io_err"
| "sqlx_from_monet (Handshake msg) = SqlxProtocol (Lit ''handshake failed: '' # msg)"
| "sqlx_from_monet (Protocol msg) = SqlxProtocol msg"

text \<open>\<open>impl<E: DatabaseError> From<E> for Error\<close>.\<close>

definition sqlx_from_database :: "monet_database_error \<Rightarrow> sqlx_error" where
  "sqlx_from_database e = SqlxDatabase e"

text \<open>How an operation that may also panic fails: with an error value, or by a panic.\<close>

datatype 'e fault = Failed 'e | Panicked string

lemma sqlx_from_monet_not_database: "sqlx_from_monet e \<noteq> SqlxDatabase d"
  by (cases e) auto

end
