(* ===== verification/Utf8.thy ===== *)
theory Utf8
  imports Rust_Text
begin

text \<open>
  UTF-8, the byte form of every \<open>str\<close>: \<open>as_bytes\<close> and \<open>String::from_utf8\<close>. The decoder accepts
  exactly the shortest form of each scalar value (no overlong form, no surrogate, nothing
  past U+10FFFF), so decoding and encoding are inverse to each other in both directions.
\<close>

section \<open>Encoding\<close>

definition utf8_char :: "rchar \<Rightarrow> nat list" where
  "utf8_char c =
     (if c < 128 then [c]
      else if c < 2048 then [192 + c div 64, 128 + c mod 64]
      else if c < 65536 then [224 + c div 4096, 128 + c div 64 mod 64, 128 + c mod 64]
      else [240 + c div 262144, 128 + c div 4096 mod 64, 128 + c div 64 mod 64, 128 + c mod 64])"

definition as_bytes :: "rstr \<Rightarrow> u8 list" where
  "as_bytes s = map word_of_nat (concat (map utf8_char s))"

section \<open>Decoding\<close>

definition is_cont :: "nat \<Rightarrow> bool" where
  "is_cont b \<longleftrightarrow> 128 \<le> b \<and> b < 192"

fun utf8_decode :: "nat list \<Rightarrow> rstr option" where
  "utf8_decode [] = Some []"
| "utf8_decode (b # bs) =
     (if b < 128 then map_option (Cons b) (utf8_decode bs)
      else if b < 194 then None
      else if b < 224 then
        (case bs of
           b1 # r \<Rightarrow>
             if is_cont b1
             then map_option (Cons ((b - 192) * 64 + (b1 - 128))) (utf8_decode r)
             else None
         | _ \<Rightarrow> None)
      else if b < 240 then
        (case bs of
           b1 # b2 # r \<Rightarrow>
             let c = (b - 224) * 4096 + (b1 - 128) * 64 + (b2 - 128)
             in if is_cont b1 \<and> is_cont b2 \<and> 2048 \<le> c \<and> scalar c
                then map_option (Cons c) (utf8_decode r) else None
         | _ \<Rightarrow> None)
      else if b < 245 then
        (case bs of
           b1 # b2 # b3 # r \<Rightarrow>
             let c = (b - 240) * 262144 + (b1 - 128) * 4096 + (b2 - 128) * 64 + (b3 - 128)
             in if is_cont b1 \<and> is_cont b2 \<and> is_cont b3 \<and> 65536 \<le> c \<and> scalar c
                then map_option (Cons c) (utf8_decode r) else None
         | _ \<Rightarrow> None)
      else None)"

definition from_utf8 :: "u8 list \<Rightarrow> rstr option" where
  "from_utf8 bs = utf8_decode (map unat bs)"

section \<open>The round trips\<close>

text \<open>Base-64 digits: a number is put together from them, and they are read back off it.\<close>

lemma div_4096: "(c :: nat) div 4096 = c div 64 div 64"
  by (simp flip: div_mult2_eq)

lemma div_262144: "(c :: nat) div 262144 = c div 64 div 64 div 64"
  by (simp flip: div_mult2_eq)

lemma digits64_2: "c div 64 * 64 + c mod 64 = (c :: nat)"
  by simp

lemma digits64_3: "c div 4096 * 4096 + c div 64 mod 64 * 64 + c mod 64 = (c :: nat)"
  unfolding div_4096 using digits64_2 [of c] digits64_2 [of "c div 64"] by linarith

lemma digits64_4:
  "c div 262144 * 262144 + c div 4096 mod 64 * 4096 + c div 64 mod 64 * 64 + c mod 64 = (c :: nat)"
  unfolding div_4096 div_262144
  using digits64_2 [of c] digits64_2 [of "c div 64"] digits64_2 [of "c div 64 div 64"]
  by linarith

lemma read64: "z < 64 \<Longrightarrow> (a * 64 + z) div 64 = a \<and> (a * 64 + z) mod 64 = (z :: nat)"
  by simp

lemma read64_3:
  assumes "y < 64" "z < 64" "c = x * 4096 + y * 64 + (z :: nat)"
  shows "c div 4096 = x \<and> c div 64 mod 64 = y \<and> c mod 64 = z"
proof -
  have "c = (x * 64 + y) * 64 + z" using assms by simp
  then have "c div 64 = x * 64 + y" "c mod 64 = z" using read64 assms(2) by blast+
  with assms(1) show ?thesis by (simp add: div_4096)
qed

lemma read64_4:
  assumes "x < 64" "y < 64" "z < 64" "c = w * 262144 + x * 4096 + y * 64 + (z :: nat)"
  shows "c div 262144 = w \<and> c div 4096 mod 64 = x \<and> c div 64 mod 64 = y \<and> c mod 64 = z"
proof -
  have "c = (w * 64 + x) * 4096 + y * 64 + z" using assms by simp
  then have "c div 4096 = w * 64 + x" "c div 64 mod 64 = y" "c mod 64 = z"
    using read64_3 assms(2,3) by blast+
  with assms(1) show ?thesis by (simp add: div_4096 div_262144)
qed

lemma utf8_char_bytes: "scalar c \<Longrightarrow> b \<in> set (utf8_char c) \<Longrightarrow> b < 256"
  by (auto simp: utf8_char_def scalar_def split: if_splits)

lemma utf8_decode_char:
  assumes "scalar c"
  shows "utf8_decode (utf8_char c @ bs) = map_option (Cons c) (utf8_decode bs)"
proof -
  consider "c < 128" | "128 \<le> c" "c < 2048" | "2048 \<le> c" "c < 65536" | "65536 \<le> c"
    by linarith
  then show ?thesis
  proof cases
    case 1
    then show ?thesis by (simp add: utf8_char_def)
  next
    case 2
    then have "2 \<le> c div 64" "c div 64 < 32" by (simp_all add: div_less_iff_less_mult)
    with 2 digits64_2 [of c] show ?thesis
      by (simp add: utf8_char_def is_cont_def del: div_mult_mod_eq)
  next
    case 3
    then have "c div 4096 < 16" by (simp add: div_less_iff_less_mult)
    with 3 assms digits64_3 [of c] show ?thesis
      by (simp add: utf8_char_def is_cont_def Let_def)
  next
    case 4
    then have "c div 262144 < 5"
      using assms by (auto simp: scalar_def div_less_iff_less_mult)
    with 4 assms digits64_4 [of c] show ?thesis
      by (simp add: utf8_char_def is_cont_def Let_def)
  qed
qed

lemma utf8_decode_encode: "scalars s \<Longrightarrow> utf8_decode (concat (map utf8_char s)) = Some s"
  by (induction s) (auto simp: utf8_decode_char)

lemma map_unat_as_bytes:
  "scalars s \<Longrightarrow> map unat (as_bytes s) = concat (map utf8_char s)"
proof -
  assume "scalars s"
  then have "b < 256" if "b \<in> set (concat (map utf8_char s))" for b
    using that by (auto simp: list_all_iff dest: utf8_char_bytes)
  then show ?thesis
    by (simp only: as_bytes_def map_map o_def) (rule map_idI, simp add: unat_of_nat)
qed

lemma from_utf8_as_bytes [wire_simps]: "scalars s \<Longrightarrow> from_utf8 (as_bytes s) = Some s"
  by (simp add: from_utf8_def map_unat_as_bytes utf8_decode_encode)

lemma utf8_decode_sound:
  "utf8_decode bs = Some s \<Longrightarrow> scalars s \<and> concat (map utf8_char s) = bs"
proof (induction bs arbitrary: s rule: utf8_decode.induct)
  case (2 b bs)
  consider "b < 128" | "194 \<le> b" "b < 224" | "224 \<le> b" "b < 240" | "240 \<le> b" "b < 245"
    using "2.prems" by (fastforce split: if_splits)
  then show ?case
  proof cases
    case 1
    with 2 show ?thesis by (auto simp: utf8_char_def scalar_ascii)
  next
    case two: 2
    with "2.prems" obtain b1 r t where bs: "bs = b1 # r" and cont: "is_cont b1"
      and t: "utf8_decode r = Some t" and s: "s = ((b - 192) * 64 + (b1 - 128)) # t"
      by (auto split: list.splits if_splits)
    have "scalars t \<and> concat (map utf8_char t) = r"
      using "2.IH"(2) two bs cont t by auto
    moreover have "utf8_char ((b - 192) * 64 + (b1 - 128)) = [b, b1]
      \<and> scalar ((b - 192) * 64 + (b1 - 128))"
    proof -
      define x y where "x = b - 192" and "y = b1 - 128"
      have "b = 192 + x" "b1 = 128 + y" "2 \<le> x" "x < 32" "y < 64"
        using two cont by (auto simp: is_cont_def x_def y_def)
      then show ?thesis by (simp add: utf8_char_def scalar_def)
    qed
    ultimately show ?thesis using bs s by simp
  next
    case 3
    define c where "c = (b - 224) * 4096 + (hd bs - 128) * 64 + (hd (tl bs) - 128)"
    from 3 "2.prems" obtain b1 b2 r t where bs: "bs = b1 # b2 # r" and cont: "is_cont b1" "is_cont b2"
      and t: "utf8_decode r = Some t" and c: "2048 \<le> c" "scalar c" and s: "s = c # t"
      by (auto simp: Let_def c_def split: list.splits if_splits)
    have "scalars t \<and> concat (map utf8_char t) = r"
      using "2.IH"(3) 3 bs cont t c by (auto simp: c_def)
    moreover have "utf8_char c = [b, b1, b2]"
    proof -
      define x y z where "x = b - 224" and "y = b1 - 128" and "z = b2 - 128"
      have "b = 224 + x" "b1 = 128 + y" "b2 = 128 + z" "x < 16" "y < 64" "z < 64"
        "c = x * 4096 + y * 64 + z"
        using 3 cont bs by (auto simp: is_cont_def c_def x_def y_def z_def)
      moreover from this have "c div 4096 = x \<and> c div 64 mod 64 = y \<and> c mod 64 = z"
        by (intro read64_3)
      ultimately show ?thesis using c by (simp add: utf8_char_def)
    qed
    ultimately show ?thesis using bs s c by simp
  next
    case 4
    define c where "c = (b - 240) * 262144 + (hd bs - 128) * 4096 + (hd (tl bs) - 128) * 64
      + (hd (tl (tl bs)) - 128)"
    from 4 "2.prems" obtain b1 b2 b3 r t where bs: "bs = b1 # b2 # b3 # r"
      and cont: "is_cont b1" "is_cont b2" "is_cont b3"
      and t: "utf8_decode r = Some t" and c: "65536 \<le> c" "scalar c" and s: "s = c # t"
      by (auto simp: Let_def c_def split: list.splits if_splits)
    have "scalars t \<and> concat (map utf8_char t) = r"
      using "2.IH"(4) 4 bs cont t c by (auto simp: c_def)
    moreover have "utf8_char c = [b, b1, b2, b3]"
    proof -
      define w x y z where "w = b - 240" and "x = b1 - 128" and "y = b2 - 128" and "z = b3 - 128"
      have "b = 240 + w" "b1 = 128 + x" "b2 = 128 + y" "b3 = 128 + z" "x < 64" "y < 64" "z < 64"
        "c = w * 262144 + x * 4096 + y * 64 + z"
        using 4 cont bs by (auto simp: is_cont_def c_def w_def x_def y_def z_def)
      moreover from this have
        "c div 262144 = w \<and> c div 4096 mod 64 = x \<and> c div 64 mod 64 = y \<and> c mod 64 = z"
        by (intro read64_4)
      ultimately show ?thesis using c by (simp add: utf8_char_def)
    qed
    ultimately show ?thesis using bs s c by simp
  qed
qed simp

lemma from_utf8_sound: "from_utf8 bs = Some s \<Longrightarrow> scalars s \<and> as_bytes s = bs"
  using utf8_decode_sound [of "map unat bs" s]
  by (simp add: from_utf8_def as_bytes_def o_def)

lemma as_bytes_append: "as_bytes (s @ t) = as_bytes s @ as_bytes t"
  by (simp add: as_bytes_def)

lemma as_bytes_Nil [simp]: "as_bytes [] = []"
  by (simp add: as_bytes_def)

lemma as_bytes_ascii: "c < 128 \<Longrightarrow> as_bytes (c # s) = word_of_nat c # as_bytes s"
  by (simp add: as_bytes_def utf8_char_def)

end
