(* ===== verification/Response.thy ===== *)
theory Response
  imports Driver_Error Utf8
begin

text \<open>
  The simple query protocol (\<open>src/protocol/response.rs\<close>): encoding a request and parsing a
  response line by line into a table, an update count, a schema change, a transaction state
  or nothing. Each function of the source is one definition, the body of the loop over the lines
  is \<open>parse_line\<close>, whose state is the table and the result found so far.
\<close>

section \<open>Data\<close>

definition encode_query :: "rstr \<Rightarrow> u8 list" where
  "encode_query sql = [115] @ as_bytes sql @ [10, 59]"

record column_meta =
  cm_name :: rstr
  cm_type_name :: rstr
  cm_length :: "usize option"
  cm_typesizes :: "(usize \<times> usize option) option"

definition column_meta_default :: column_meta where
  "column_meta_default =
     \<lparr>cm_name = [], cm_type_name = [], cm_length = None, cm_typesizes = None\<rparr>"

record table_result =
  query_id :: i64
  row_count :: u64
  declared_columns :: usize
  embedded_tuples :: usize
  columns :: "column_meta list"
  rows :: "rstr option list list"

datatype query_response =
    QTable table_result
  | QUpdate u64 "i64 option"
  | QSchema
  | QTransaction bool
  | QOk

datatype response_error =
    ResponseProtocol monet_error
  | ResponseDatabase monet_database_error

definition response_from_monet :: "monet_error \<Rightarrow> response_error" where
  "response_from_monet err = ResponseProtocol err"

fun sqlx_from_response :: "response_error \<Rightarrow> sqlx_error" where
  "sqlx_from_response (ResponseProtocol e) = sqlx_from_monet e"
| "sqlx_from_response (ResponseDatabase e) = sqlx_from_database e"

section \<open>Single lines\<close>

definition parse_field :: "(rstr \<Rightarrow> int_error + 'a) \<Rightarrow> rstr \<Rightarrow> string \<Rightarrow> monet_error + 'a" where
  "parse_field parse s field =
     map_err (\<lambda>_. Protocol [Lit ''invalid '', Lit field, Lit '' in '&1'/'&5' line: '', Dbg s])
       (parse s)"

definition parse_table_header :: "rstr \<Rightarrow> monet_error + table_result" where
  "parse_table_header rest =
     (let parts = split_whitespace rest
      in if length parts < 4
         then Inl (Protocol
           [Lit '''&1'/'&5' line expects at least 4 fields (query_id rowcount columns tuples), got '',
            DbgList parts])
         else
           res_bind (parse_field parse_sint (parts ! 0) ''query_id'') (\<lambda>query_id.
           res_bind (parse_field parse_uint (parts ! 1) ''rowcount'') (\<lambda>row_count.
           res_bind (parse_field parse_uint (parts ! 2) ''columns'') (\<lambda>declared_columns.
           res_bind (parse_field parse_uint (parts ! 3) ''tuples'') (\<lambda>embedded_tuples.
             Inr \<lparr>query_id = query_id, row_count = row_count,
                  declared_columns = declared_columns, embedded_tuples = embedded_tuples,
                  columns = [], rows = []\<rparr>)))))"

definition parse_update_line :: "rstr \<Rightarrow> monet_error + query_response" where
  "parse_update_line rest =
     (let parts = split_whitespace rest
      in res_bind
           (case parts of
              [] \<Rightarrow> Inl (Protocol [Lit '''&2' line missing affected count: '', Dbg rest])
            | s # _ \<Rightarrow>
                map_err (\<lambda>_. Protocol [Lit ''invalid affected count in: '', Dbg rest])
                  (parse_uint s)) (\<lambda>affected.
         res_bind
           (case parts of
              _ # s # _ \<Rightarrow>
                if s = lit ''-1'' then Inr None
                else res_map Some
                  (map_err (\<lambda>_. Protocol [Lit ''invalid identity value: '', Dbg s]) (parse_sint s))
            | _ \<Rightarrow> Inr None) (\<lambda>last_insert_id.
         Inr (QUpdate affected last_insert_id))))"

definition parse_transaction_line :: "rstr \<Rightarrow> monet_error + query_response" where
  "parse_transaction_line line =
     res_bind
       (ok_or (Protocol [Lit '''&4' line too short to contain autocommit flag: '', Dbg line])
         (if 3 < length line then Some (line ! 3) else None)) (\<lambda>flag.
     res_bind
       (if flag = ch CHR ''t'' then Inr True
        else if flag = ch CHR ''f'' then Inr False
        else Inl (Protocol [Lit ''unexpected autocommit flag '', DbgChar flag,
               Lit '' in '&4' line: '', Dbg line])) (\<lambda>auto_commit.
     Inr (QTransaction auto_commit)))"

definition parse_header_values :: "rstr \<Rightarrow> monet_error + rstr \<times> rstr list" where
  "parse_header_values rest =
     res_bind
       (ok_or (Protocol [Lit '''%' line missing '#identity' suffix: '', Dbg rest])
         (rsplit_once (ch CHR ''#'') rest)) (\<lambda>(values, identity).
     Inr (trim identity, map trim (split_on (ch CHR '','') (trim values))))"

definition parse_typesizes_value ::
    "rstr \<Rightarrow> monet_error + (usize \<times> usize option) option" where
  "parse_typesizes_value value =
     (let value = trim value; parts = split_whitespace value;
          invalid = Protocol [Lit ''invalid typesizes value: '', Dbg value]
      in if value = [] then Inr None
         else
           res_bind
             (case parts of
                [] \<Rightarrow> Inl (Protocol [Lit ''empty typesizes value: '', Dbg value])
              | s # _ \<Rightarrow> map_err (\<lambda>_. invalid) (parse_uint s)) (\<lambda>first.
           res_bind
             (case parts of
                _ # s # _ \<Rightarrow> res_map Some (map_err (\<lambda>_. invalid) (parse_uint s))
              | _ \<Rightarrow> Inr None) (\<lambda>second.
           Inr (Some (first, second)))))"

text \<open>\<open>columns.iter_mut().zip(values)\<close>: the shorter of the two decides.\<close>

fun zip_columns :: "(column_meta \<Rightarrow> rstr \<Rightarrow> monet_error + column_meta) \<Rightarrow>
    column_meta list \<Rightarrow> rstr list \<Rightarrow> monet_error + column_meta list" where
  "zip_columns f (col # cols) (value # vals) =
     res_bind (f col value) (\<lambda>col. res_map (Cons col) (zip_columns f cols vals))"
| "zip_columns f cols vals = Inr cols"

definition set_length :: "column_meta \<Rightarrow> rstr \<Rightarrow> monet_error + column_meta" where
  "set_length col value =
     (let value = trim value
      in if value = [] then Inr (col\<lparr>cm_length := None\<rparr>)
         else res_map (\<lambda>n. col\<lparr>cm_length := Some n\<rparr>) (parse_field parse_uint value ''length''))"

definition set_typesizes :: "column_meta \<Rightarrow> rstr \<Rightarrow> monet_error + column_meta" where
  "set_typesizes col value =
     res_map (\<lambda>ts. col\<lparr>cm_typesizes := ts\<rparr>) (parse_typesizes_value value)"

definition apply_header_values ::
    "table_result \<Rightarrow> rstr \<Rightarrow> rstr list \<Rightarrow> monet_error + table_result" where
  "apply_header_values table identity vals =
     (let cols =
        (if length (columns table) < length vals
         then columns table @
           replicate (length vals - length (columns table)) column_meta_default
         else columns table)
      in if identity = lit ''name''
         then res_map (\<lambda>cs. table\<lparr>columns := cs\<rparr>)
           (zip_columns (\<lambda>col v. Inr (col\<lparr>cm_name := v\<rparr>)) cols vals)
         else if identity = lit ''type''
         then res_map (\<lambda>cs. table\<lparr>columns := cs\<rparr>)
           (zip_columns (\<lambda>col v. Inr (col\<lparr>cm_type_name := v\<rparr>)) cols vals)
         else if identity = lit ''typesizes''
         then res_map (\<lambda>cs. table\<lparr>columns := cs\<rparr>) (zip_columns set_typesizes cols vals)
         else if identity = lit ''length''
         then res_map (\<lambda>cs. table\<lparr>columns := cs\<rparr>) (zip_columns set_length cols vals)
         else if identity = lit ''table_name'' then Inr (table\<lparr>columns := cols\<rparr>)
         else Inl (Protocol [Lit ''unknown header identity '', Dbg identity]))"

section \<open>Tuples\<close>

text \<open>The \<open>while let Some(c) = chars.next()\<close> loop of \<open>unescape_field\<close>.\<close>

fun unescape_chars :: "rstr \<Rightarrow> rstr" where
  "unescape_chars [] = []"
| "unescape_chars (c # cs) =
     (if c \<noteq> 92 then c # unescape_chars cs
      else
        (case cs of
           [] \<Rightarrow> [92]
         | e # r \<Rightarrow>
             if e = ch CHR ''n'' then 10 # unescape_chars r
             else if e = ch CHR ''t'' then 9 # unescape_chars r
             else if e = ch CHR ''r'' then 13 # unescape_chars r
             else if e = 92 then 92 # unescape_chars r
             else if e = 39 \<or> e = 34 then e # unescape_chars r
             else 92 # e # unescape_chars r))"

definition unescape_field :: "rstr \<Rightarrow> monet_error + rstr option" where
  "unescape_field field =
     (if field = lit ''NULL'' then Inr None
      else
        (case field of
           c # _ \<Rightarrow>
             if c = 39 \<or> c = 34 then
               (case Option.bind (strip_prefix [c] field) (strip_suffix [c]) of
                  None \<Rightarrow> Inr (Some field)
                | Some quoted \<Rightarrow> Inr (Some (unescape_chars quoted)))
             else Inr (Some field)
         | [] \<Rightarrow> Inr (Some field)))"

definition parse_tuple_fields :: "rstr \<Rightarrow> monet_error + rstr option list" where
  "parse_tuple_fields rest =
     res_bind
       (ok_or (Protocol [Lit ''tuple line missing ']': '', Dbg rest])
         (strip_suffix (lit '']'') rest)) (\<lambda>stripped.
     let inner = trim stripped
     in if inner = [] then Inr []
        else collect_results (\<lambda>field. unescape_field (trim field))
          (split_pair (ch CHR '','') 9 inner))"

section \<open>The whole response\<close>

type_synonym parse_state = "table_result option \<times> query_response option"

definition parse_line :: "parse_state \<Rightarrow> rstr \<Rightarrow> response_error + parse_state" where
  "parse_line st line =
     (let table = fst st; result = snd st in
      if line = [] \<or> line = lit ''=OK'' then Inr (table, result)
      else
        (case strip_prefix (lit ''!'') line of
           Some m \<Rightarrow> Inl (ResponseDatabase (monet_database_error_new m))
         | None \<Rightarrow>
      if starts_with (lit ''#'') line then Inr (table, result)
      else
        (case (case strip_prefix (lit ''&1'') line of
                 Some rest \<Rightarrow> Some rest
               | None \<Rightarrow> strip_prefix (lit ''&5'') line) of
           Some rest \<Rightarrow>
             res_map (\<lambda>t. (Some t, result)) (map_err response_from_monet (parse_table_header rest))
         | None \<Rightarrow>
        (case strip_prefix (lit ''&2'') line of
           Some rest \<Rightarrow>
             res_map (\<lambda>r. (table, Some r)) (map_err response_from_monet (parse_update_line rest))
         | None \<Rightarrow>
      if starts_with (lit ''&3'') line then Inr (table, Some QSchema)
      else if starts_with (lit ''&4'') line
      then res_map (\<lambda>r. (table, Some r)) (map_err response_from_monet (parse_transaction_line line))
      else
        (case strip_prefix (lit ''%'') line of
           Some rest \<Rightarrow>
             map_err response_from_monet
               (res_bind (parse_header_values rest) (\<lambda>(identity, vals).
                res_bind (ok_or (Protocol [Lit '''%' line before '&1': '', Dbg line]) table) (\<lambda>t.
                res_map (\<lambda>t. (Some t, result)) (apply_header_values t identity vals))))
         | None \<Rightarrow>
        (case strip_prefix (lit ''['') line of
           Some rest \<Rightarrow>
             map_err response_from_monet
               (res_bind (parse_tuple_fields rest) (\<lambda>fields.
                res_bind (ok_or (Protocol [Lit '''[' line before '&1': '', Dbg line]) table) (\<lambda>t.
                Inr (Some (t\<lparr>rows := rows t @ [fields]\<rparr>), result))))
         | None \<Rightarrow>
             Inl (response_from_monet
               (Protocol [Lit ''unrecognized response line: '', Dbg line]))))))))"

fun parse_lines :: "parse_state \<Rightarrow> rstr list \<Rightarrow> response_error + parse_state" where
  "parse_lines st [] = Inr st"
| "parse_lines st (line # ls) = res_bind (parse_line st line) (\<lambda>st. parse_lines st ls)"

definition parse_response :: "rstr \<Rightarrow> response_error + query_response" where
  "parse_response text =
     res_bind (parse_lines (None, None) (split_on 10 text)) (\<lambda>(table, result).
     case table of
       Some t \<Rightarrow> Inr (QTable t)
     | None \<Rightarrow> (case result of Some r \<Rightarrow> Inr r | None \<Rightarrow> Inr QOk))"

text \<open>Evaluation on concrete responses.\<close>

lemmas response_run [run_simps] = column_meta_default_def parse_field_def parse_table_header_def
  parse_update_line_def parse_transaction_line_def parse_header_values_def
  parse_typesizes_value_def set_length_def set_typesizes_def apply_header_values_def
  unescape_field_def parse_tuple_fields_def parse_line_def parse_response_def Let_def

end
