(* ===== verification/Server_Text.thy ===== *)
theory Server_Text
  imports Response
begin

text \<open>
  The other side of \<open>response.rs\<close>: how a MonetDB server writes a result table, as the captured
  responses of the driver's tests show it, and the proof that the parser reads it back. The
  renderer quotes every string field and escapes the characters the protocol escapes, so a
  value may hold anything, the separators of the protocol included.
\<close>

section \<open>Rendering\<close>

definition escape_char :: "rchar \<Rightarrow> rstr" where
  "escape_char c =
     (if c = 10 then lit [CHR 0x5C, CHR ''n'']
      else if c = 9 then lit [CHR 0x5C, CHR ''t'']
      else if c = 13 then lit [CHR 0x5C, CHR ''r'']
      else if c = 92 \<or> c = 34 then [92, c]
      else [c])"

definition quote_field :: "rstr \<Rightarrow> rstr" where
  "quote_field s = [34] @ concat (map escape_char s) @ [34]"

fun render_field :: "rstr option \<Rightarrow> rstr" where
  "render_field None = lit ''NULL''"
| "render_field (Some s) = quote_field s"

definition render_row :: "rstr option list \<Rightarrow> rstr" where
  "render_row fs = lit ''[ '' @ join [44, 9] (map render_field fs) @ [9, 93]"

definition render_header :: "rstr \<Rightarrow> rstr list \<Rightarrow> rstr" where
  "render_header identity vals = lit ''% '' @ join [44, 9] vals @ lit '' # '' @ identity"

definition render_summary :: "table_result \<Rightarrow> rstr list \<Rightarrow> rstr" where
  "render_summary t extra =
     lit ''&1'' @ concat (map (Cons 32)
       ([show_sint (query_id t), show_uint (row_count t), show_uint (declared_columns t),
         show_uint (embedded_tuples t)] @ extra))"

fun render_length :: "usize option \<Rightarrow> rstr" where
  "render_length None = []"
| "render_length (Some n) = show_uint n"

fun render_typesizes :: "(usize \<times> usize option) option \<Rightarrow> rstr" where
  "render_typesizes None = []"
| "render_typesizes (Some (a, None)) = show_uint a"
| "render_typesizes (Some (a, Some b)) = show_uint a @ [32] @ show_uint b"

definition render_lines :: "table_result \<Rightarrow> rstr list \<Rightarrow> rstr list" where
  "render_lines t extra =
     [render_summary t extra,
      render_header (lit ''name'') (map cm_name (columns t)),
      render_header (lit ''type'') (map cm_type_name (columns t)),
      render_header (lit ''length'') (map (render_length \<circ> cm_length) (columns t)),
      render_header (lit ''typesizes'') (map (render_typesizes \<circ> cm_typesizes) (columns t))]
     @ map render_row (rows t)"

definition render_table :: "table_result \<Rightarrow> rstr list \<Rightarrow> rstr" where
  "render_table t extra = join [10] (render_lines t extra)"

text \<open>A name a header line can carry: no separator, no line end, no blank at either end.\<close>

definition header_text :: "rstr \<Rightarrow> bool" where
  "header_text s \<longleftrightarrow> trimmed s \<and> 44 \<notin> set s \<and> 10 \<notin> set s"

definition renderable :: "table_result \<Rightarrow> bool" where
  "renderable t \<longleftrightarrow> columns t \<noteq> [] \<and>
     list_all (\<lambda>c. header_text (cm_name c) \<and> header_text (cm_type_name c)) (columns t)"

text \<open>A further field of the summary line: a word.\<close>

definition word_text :: "rstr \<Rightarrow> bool" where
  "word_text w \<longleftrightarrow> w \<noteq> [] \<and> list_all (\<lambda>c. \<not> is_whitespace c) w"

section \<open>Fields\<close>

lemma unescape_escape_char: "unescape_chars (escape_char c @ r) = c # unescape_chars r"
  by (auto simp: escape_char_def)

lemma unescape_escape: "unescape_chars (concat (map escape_char s)) = s"
  by (induction s) (auto simp: unescape_escape_char)

lemma quote_field_Cons: "quote_field s = 34 # concat (map escape_char s) @ [34]"
  by (simp add: quote_field_def)

lemma unescape_quote_field: "unescape_field (quote_field s) = Inr (Some s)"
proof -
  have "strip_suffix [34] (concat (map escape_char s) @ [34]) = Some (concat (map escape_char s))"
    by (rule strip_suffix_append)
  then show ?thesis
    by (simp add: unescape_field_def quote_field_Cons unescape_escape)
qed

lemma unescape_render_field: "unescape_field (render_field f) = Inr f"
proof (cases f)
  case None
  then show ?thesis by (simp add: unescape_field_def)
qed (simp add: unescape_quote_field)

lemma escape_char_chars: "x \<in> set (escape_char c) \<Longrightarrow> x \<noteq> 9 \<and> x \<noteq> 10 \<and> x \<noteq> 13"
  by (auto simp: escape_char_def split: if_splits)

lemma quote_field_chars: "x \<in> set (quote_field s) \<Longrightarrow> x \<noteq> 9 \<and> x \<noteq> 10 \<and> x \<noteq> 13"
  by (auto simp: quote_field_def dest: escape_char_chars)

lemma render_field_chars: "x \<in> set (render_field f) \<Longrightarrow> x \<noteq> 9 \<and> x \<noteq> 10 \<and> x \<noteq> 13"
  by (cases f) (auto dest: quote_field_chars)

lemma render_field_trimmed: "render_field f \<noteq> [] \<and> trimmed (render_field f)"
  by (cases f) (auto simp: quote_field_def trimmed_def is_whitespace_def)

section \<open>Tuples\<close>

lemma trimmed_join:
  "\<lbrakk>\<And>p. p \<in> set ps \<Longrightarrow> p \<noteq> [] \<and> trimmed p\<rbrakk> \<Longrightarrow> trimmed (join sep ps)"
proof -
  assume ps: "\<And>p. p \<in> set ps \<Longrightarrow> p \<noteq> [] \<and> trimmed p"
  have hd: "ps \<noteq> [] \<Longrightarrow> join sep ps \<noteq> [] \<and> hd (join sep ps) = hd (hd ps)"
    using ps by (cases "(sep, ps)" rule: join.cases) auto
  have "ps \<noteq> [] \<Longrightarrow> last (join sep ps) = last (last ps)"
    using ps
  proof (induction sep ps rule: join.induct)
    case (3 sep p q ps)
    have "join sep (q # ps) \<noteq> []" using 3 by (cases ps) auto
    with 3 show ?case by auto
  qed auto
  with hd show ?thesis
    using ps [of "hd ps"] ps [of "last ps"] by (cases "ps = []") (auto simp: trimmed_def)
qed

lemma parse_tuple_render:
  "parse_tuple_fields (32 # join [44, 9] (map render_field fs) @ [9, 93]) = Inr fs"
proof (cases "fs = []")
  case True
  then show ?thesis
    by (simp add: parse_tuple_fields_def strip_suffix_def is_whitespace_def trim_def
        trim_start_def trim_end_matches_def)
next
  case False
  let ?J = "join [44, 9] (map render_field fs)"
  have "strip_suffix [93] ((32 # ?J @ [9]) @ [93]) = Some (32 # ?J @ [9])"
    by (rule strip_suffix_append)
  moreover have "trim (32 # ?J @ [9]) = ?J"
  proof -
    have "trim (32 # ?J @ [9]) = trim ?J"
      using trim_snoc_blank [of 9 "32 # ?J"] by (simp add: is_whitespace_def)
    moreover have "trimmed ?J"
      by (rule trimmed_join) (auto simp: render_field_trimmed)
    ultimately show ?thesis by (simp add: trim_trimmed)
  qed
  moreover have "?J \<noteq> []"
    using False render_field_trimmed by (cases fs rule: remdups_adj.cases) (auto simp: join_Cons)
  moreover have "split_pair 44 9 ?J = map render_field fs"
    using False by (intro split_pair_join) (auto dest: render_field_chars)
  moreover have "collect_results (\<lambda>field. unescape_field (trim field)) (map render_field fs)
      = Inr (map (\<lambda>f. f) fs)"
    by (intro collect_results_map)
      (simp add: render_field_trimmed trim_trimmed unescape_render_field)
  ultimately show ?thesis by (simp add: parse_tuple_fields_def)
qed

section \<open>Headers\<close>

lemma split_when_snoc:
  "\<not> P c \<Longrightarrow> split_when P (s @ [c]) = butlast (split_when P s) @ [last (split_when P s) @ [c]]"
proof (induction s)
  case (Cons a s)
  then show ?case by (cases "split_when P s") auto
qed simp

lemma map_trim_split_Cons:
  "\<not> P c \<Longrightarrow> is_whitespace c \<Longrightarrow> map trim (split_when P (c # s)) = map trim (split_when P s)"
  by (cases "split_when P s") auto

lemma map_trim_split_snoc:
  "\<not> P c \<Longrightarrow> is_whitespace c \<Longrightarrow> map trim (split_when P (s @ [c])) = map trim (split_when P s)"
  by (cases "split_when P s" rule: rev_cases) (auto simp: split_when_snoc)

lemma map_trim_split_trim:
  assumes "\<And>c. P c \<Longrightarrow> \<not> is_whitespace c"
  shows "map trim (split_when P (trim s)) = map trim (split_when P s)"
proof -
  have start: "map trim (split_when P (trim_start s)) = map trim (split_when P s)" for s
  proof (induction s)
    case (Cons a s)
    then show ?case using assms map_trim_split_Cons [of P a s]
      by (auto simp: trim_start_def)
  qed (simp add: trim_start_def)
  have "map trim (split_when P (trim_end_matches is_whitespace s)) = map trim (split_when P s)" for s
  proof (induction s rule: rev_induct)
    case (snoc a s)
    show ?case
    proof (cases "is_whitespace a")
      case True
      then have "\<not> P a" using assms by auto
      with True snoc show ?thesis by (simp add: map_trim_split_snoc)
    qed (simp add: trim_end_matches_stop)
  qed (simp add: trim_end_matches_def)
  with start show ?thesis by (simp add: trim_def)
qed

lemma join_44_9: "join [44, 9] (v # vs) = join [44] (v # map (Cons 9) vs)"
proof (induction vs arbitrary: v)
  case (Cons a vs)
  then show ?case by (cases vs) auto
qed simp

lemma map_trim_split_join:
  assumes "vals \<noteq> []" "\<And>v. v \<in> set vals \<Longrightarrow> trimmed v \<and> 44 \<notin> set v"
  shows "map trim (split_on 44 (join [44, 9] vals)) = vals"
proof -
  obtain v vs where vals: "vals = v # vs" using assms(1) by (cases vals) auto
  have "split_on 44 (join [44] (v # map (Cons 9) vs)) = v # map (Cons 9) vs"
    using assms vals by (intro split_on_join) auto
  moreover have "map trim (map (Cons 9) vs) = vs"
    using assms vals by (auto simp: o_def is_whitespace_def trim_trimmed intro!: map_idI)
  ultimately show ?thesis using assms vals by (simp add: join_44_9 trim_trimmed)
qed

lemma parse_header_render:
  assumes "vals \<noteq> []" "\<And>v. v \<in> set vals \<Longrightarrow> trimmed v \<and> 44 \<notin> set v"
    and "35 \<notin> set identity" "trimmed identity"
  shows "parse_header_values (32 # join [44, 9] vals @ lit '' # '' @ identity)
    = Inr (identity, vals)"
proof -
  let ?J = "32 # join [44, 9] vals @ [32]"
  have "rsplit_once 35 (?J @ 35 # 32 # identity) = Some (?J, 32 # identity)"
    using assms by (intro rsplit_once_append) auto
  moreover have "map trim (split_on 44 (trim ?J)) = vals"
  proof -
    have "map trim (split_on 44 (trim ?J)) = map trim (split_on 44 (join [44, 9] vals @ [32]))"
      using map_trim_split_Cons [of "\<lambda>c. c = 44" 32 "join [44, 9] vals @ [32]"]
      by (subst map_trim_split_trim) (auto simp: is_whitespace_def)
    also have "\<dots> = map trim (split_on 44 (join [44, 9] vals))"
      by (intro map_trim_split_snoc) (auto simp: is_whitespace_def)
    finally show ?thesis using map_trim_split_join assms(1,2) by simp
  qed
  ultimately show ?thesis
    using assms(4) by (simp add: parse_header_values_def is_whitespace_def trim_trimmed)
qed

section \<open>Lines\<close>

lemma parse_line_blank: "parse_line st [] = Inr st"
  by (simp add: parse_line_def Let_def)

lemma parse_line_header:
  "parse_line (table, result) (37 # rest) =
     map_err response_from_monet
       (res_bind (parse_header_values rest) (\<lambda>(identity, vals).
        res_bind (ok_or (Protocol [Lit '''%' line before '&1': '', Dbg (37 # rest)]) table) (\<lambda>t.
        res_map (\<lambda>t. (Some t, result)) (apply_header_values t identity vals))))"
  by (simp add: parse_line_def Let_def starts_with_def)

lemma parse_line_tuple:
  "parse_line (table, result) (91 # rest) =
     map_err response_from_monet
       (res_bind (parse_tuple_fields rest) (\<lambda>fields.
        res_bind (ok_or (Protocol [Lit '''[' line before '&1': '', Dbg (91 # rest)]) table) (\<lambda>t.
        Inr (Some (t\<lparr>rows := rows t @ [fields]\<rparr>), result))))"
  by (simp add: parse_line_def Let_def starts_with_def)

lemma parse_line_summary:
  "parse_line (table, result) (lit ''&1'' @ rest) =
     res_map (\<lambda>t. (Some t, result)) (map_err response_from_monet (parse_table_header rest))"
  by (simp add: parse_line_def Let_def starts_with_def)

lemma parse_line_bang:
  "parse_line st (33 # m) = Inl (ResponseDatabase (monet_database_error_new m))"
  by (simp add: parse_line_def Let_def)

lemma parse_line_update:
  "parse_line (table, result) (lit ''&2'' @ rest) =
     res_map (\<lambda>r. (table, Some r)) (map_err response_from_monet (parse_update_line rest))"
  by (simp add: parse_line_def Let_def starts_with_def)

lemma parse_line_info: "parse_line st (35 # m) = Inr st"
  by (simp add: parse_line_def Let_def starts_with_def)

lemma parse_lines_append:
  "parse_lines st (ls @ ls') = res_bind (parse_lines st ls) (\<lambda>st. parse_lines st ls')"
proof (induction ls arbitrary: st)
  case (Cons l ls)
  then show ?case by (cases "parse_line st l") auto
qed simp

lemma parse_line_render_header:
  assumes "vals \<noteq> []" "\<And>v. v \<in> set vals \<Longrightarrow> trimmed v \<and> 44 \<notin> set v"
    and "35 \<notin> set identity" "trimmed identity"
  shows "parse_line (Some t, result) (render_header identity vals) =
    map_err response_from_monet
      (res_map (\<lambda>t. (Some t, result)) (apply_header_values t identity vals))"
  using parse_header_render [OF assms]
  by (simp add: render_header_def parse_line_header)

lemma parse_line_render_row:
  "parse_line (Some t, result) (render_row fs) = Inr (Some (t\<lparr>rows := rows t @ [fs]\<rparr>), result)"
  by (simp add: render_row_def parse_line_tuple parse_tuple_render)

lemma parse_lines_rows:
  "parse_lines (Some t, result) (map render_row rs) = Inr (Some (t\<lparr>rows := rows t @ rs\<rparr>), result)"
  by (induction rs arbitrary: t) (simp_all add: parse_line_render_row)

section \<open>The summary line\<close>

lemma split_whitespace_words_render:
  "\<lbrakk>\<And>w. w \<in> set ws \<Longrightarrow> word_text w\<rbrakk>
   \<Longrightarrow> split_whitespace (concat (map (Cons 32) ws)) = ws"
proof (induction ws)
  case (Cons w ws)
  then have w: "w \<noteq> []" "\<And>x. x \<in> set w \<Longrightarrow> \<not> is_whitespace x"
    by (auto simp: word_text_def list_all_iff)
  have blank: "is_whitespace 32" by (simp add: is_whitespace_def)
  have "split_whitespace (w @ concat (map (Cons 32) ws)) = w # ws"
  proof (cases ws)
    case Nil
    with w show ?thesis by (simp add: split_whitespace_last)
  next
    case (Cons v vs)
    have "split_whitespace (v @ concat (map (Cons 32) vs)) = ws"
      using Cons.IH Cons.prems Cons split_whitespace_blank [OF blank] by simp
    with Cons w show ?thesis using split_whitespace_word [OF w blank] by simp
  qed
  with blank show ?case by (simp add: split_whitespace_blank)
qed simp

lemma word_text_show_nat: "word_text (show_nat n)"
  by (auto simp: word_text_def list_all_iff dest: show_nat_digit is_digit_blank)

lemma word_text_show_uint: "word_text (show_uint w)"
  by (simp add: show_uint_def word_text_show_nat)

lemma word_text_show_sint: "word_text (show_sint w)"
  by (auto simp: word_text_def show_sint_def list_all_iff show_int_no_blank)

lemma parse_field_show_uint: "parse_field parse_uint (show_uint w) f = Inr w"
  by (simp add: parse_field_def)

lemma parse_field_show_sint: "parse_field parse_sint (show_sint w) f = Inr w"
  by (simp add: parse_field_def)

lemmas show_fields = parse_field_show_uint parse_field_show_sint word_text_show_uint
  word_text_show_sint

lemma parse_table_header_render:
  assumes "\<And>w. w \<in> set extra \<Longrightarrow> word_text w"
  shows "parse_table_header (concat (map (Cons 32)
      ([show_sint (query_id t), show_uint (row_count t), show_uint (declared_columns t),
         show_uint (embedded_tuples t)] @ extra)))
    = Inr \<lparr>query_id = query_id t, row_count = row_count t,
        declared_columns = declared_columns t, embedded_tuples = embedded_tuples t,
        columns = [], rows = []\<rparr>"
proof -
  let ?ws = "[show_sint (query_id t), show_uint (row_count t), show_uint (declared_columns t),
    show_uint (embedded_tuples t)] @ extra"
  have "split_whitespace (concat (map (Cons 32) ?ws)) = ?ws"
    using assms by (intro split_whitespace_words_render) (auto simp: show_fields)
  then show ?thesis
    unfolding parse_table_header_def Let_def
    by (simp only:) (simp add: show_fields)
qed

section \<open>Applying the headers\<close>

lemma zip_columns_map:
  "\<lbrakk>\<And>x. x \<in> set xs \<Longrightarrow> f (g x) (h x) = Inr (k x)\<rbrakk>
   \<Longrightarrow> zip_columns f (map g xs) (map h xs) = Inr (map k xs)"
  by (induction xs) auto

lemma set_length_render:
  "set_length c (render_length n) = Inr (c\<lparr>cm_length := n\<rparr>)"
proof (cases n)
  case (Some w)
  have "trimmed (show_uint w)" "show_uint w \<noteq> []"
    using word_text_show_uint [of w] by (auto simp: word_text_def trimmed_def list_all_iff)
  with Some show ?thesis by (simp add: set_length_def trim_trimmed show_fields)
qed (simp add: set_length_def trim_trimmed trimmed_def)

lemma word_trimmed: "word_text w \<Longrightarrow> trimmed w"
  by (auto simp: word_text_def trimmed_def list_all_iff)

lemma trimmed_two_words:
  "word_text v \<Longrightarrow> word_text w \<Longrightarrow> trimmed (v @ 32 # w)"
  by (auto simp: word_text_def trimmed_def list_all_iff hd_append)

lemma split_two_words:
  "word_text v \<Longrightarrow> word_text w \<Longrightarrow> split_whitespace (v @ 32 # w) = [v, w]"
  using split_whitespace_words_render [of "[v, w]"]
  by (auto simp: split_whitespace_blank is_whitespace_def)

lemma split_one_word: "word_text w \<Longrightarrow> split_whitespace w = [w]"
  using split_whitespace_words_render [of "[w]"]
  by (simp add: split_whitespace_blank is_whitespace_def)

lemma parse_typesizes_render:
  "parse_typesizes_value (render_typesizes ts) = Inr ts"
proof (cases ts rule: render_typesizes.cases)
  case 1
  then show ?thesis by (simp add: parse_typesizes_value_def trim_trimmed trimmed_def)
next
  case (2 a)
  have w: "word_text (show_uint a)" by (rule word_text_show_uint)
  then have "show_uint a \<noteq> []" by (simp add: word_text_def)
  with 2 w show ?thesis
    by (simp add: parse_typesizes_value_def trim_trimmed word_trimmed split_one_word)
next
  case (3 a b)
  have w: "word_text (show_uint a)" "word_text (show_uint b)" by (rule word_text_show_uint)+
  have "trim (show_uint a @ 32 # show_uint b) = show_uint a @ 32 # show_uint b"
    using w by (intro trim_trimmed trimmed_two_words)
  moreover have "split_whitespace (show_uint a @ 32 # show_uint b) = [show_uint a, show_uint b]"
    using w by (intro split_two_words)
  ultimately show ?thesis using 3 by (simp add: parse_typesizes_value_def)
qed

lemma set_typesizes_render:
  "set_typesizes c (render_typesizes ts) = Inr (c\<lparr>cm_typesizes := ts\<rparr>)"
  by (simp add: set_typesizes_def parse_typesizes_render)

lemma apply_name:
  "columns t = [] \<Longrightarrow> apply_header_values t (lit ''name'') (map cm_name cs) =
     Inr (t\<lparr>columns := map (\<lambda>c. column_meta_default\<lparr>cm_name := cm_name c\<rparr>) cs\<rparr>)"
  using zip_columns_map [of cs "\<lambda>c v. Inr (c\<lparr>cm_name := v\<rparr>)" "\<lambda>_. column_meta_default" cm_name
      "\<lambda>c. column_meta_default\<lparr>cm_name := cm_name c\<rparr>"]
  by (simp add: apply_header_values_def map_replicate_const)

lemma apply_type:
  "columns t = map g cs \<Longrightarrow> apply_header_values t (lit ''type'') (map cm_type_name cs) =
     Inr (t\<lparr>columns := map (\<lambda>c. (g c)\<lparr>cm_type_name := cm_type_name c\<rparr>) cs\<rparr>)"
  using zip_columns_map [of cs "\<lambda>c v. Inr (c\<lparr>cm_type_name := v\<rparr>)" g cm_type_name
      "\<lambda>c. (g c)\<lparr>cm_type_name := cm_type_name c\<rparr>"]
  by (simp add: apply_header_values_def)

lemma apply_length:
  "columns t = map g cs \<Longrightarrow>
   apply_header_values t (lit ''length'') (map (render_length \<circ> cm_length) cs) =
     Inr (t\<lparr>columns := map (\<lambda>c. (g c)\<lparr>cm_length := cm_length c\<rparr>) cs\<rparr>)"
  using zip_columns_map [of cs set_length g "render_length \<circ> cm_length"
      "\<lambda>c. (g c)\<lparr>cm_length := cm_length c\<rparr>"]
  by (simp add: apply_header_values_def set_length_render)

lemma apply_typesizes:
  "columns t = map g cs \<Longrightarrow>
   apply_header_values t (lit ''typesizes'') (map (render_typesizes \<circ> cm_typesizes) cs) =
     Inr (t\<lparr>columns := map (\<lambda>c. (g c)\<lparr>cm_typesizes := cm_typesizes c\<rparr>) cs\<rparr>)"
  using zip_columns_map [of cs set_typesizes g "render_typesizes \<circ> cm_typesizes"
      "\<lambda>c. (g c)\<lparr>cm_typesizes := cm_typesizes c\<rparr>"]
  by (simp add: apply_header_values_def set_typesizes_render)

section \<open>The round trip\<close>

lemma show_uint_not_digit: "\<not> is_digit c \<Longrightarrow> c \<notin> set (show_uint w)"
  by (auto simp: show_uint_def dest: show_nat_digit)

lemma show_sint_not_digit: "\<not> is_digit c \<Longrightarrow> c \<noteq> 45 \<Longrightarrow> c \<notin> set (show_sint w)"
  by (auto simp: show_sint_def dest: show_int_chars)

lemma separators_not_digits: "\<not> is_digit 44" "\<not> is_digit 10"
  by (simp_all add: is_digit_def)

lemma header_text_word: "header_text (show_uint w)"
  by (simp add: header_text_def word_trimmed word_text_show_uint show_uint_not_digit
      separators_not_digits)

lemma header_text_length: "header_text (render_length n)"
proof (cases n)
  case None
  then show ?thesis by (simp add: header_text_def trimmed_def)
qed (simp add: header_text_word)

lemma header_text_typesizes: "header_text (render_typesizes ts)"
proof (cases ts rule: render_typesizes.cases)
  case 1
  then show ?thesis by (simp add: header_text_def trimmed_def)
next
  case (2 a)
  then show ?thesis by (simp add: header_text_word)
next
  case (3 a b)
  have "trimmed (show_uint a @ 32 # show_uint b)"
    by (intro trimmed_two_words word_text_show_uint)
  with 3 show ?thesis by (simp add: header_text_def show_uint_not_digit separators_not_digits)
qed

lemma renderable_headers:
  assumes "renderable t"
  shows "list_all header_text (map cm_name (columns t))"
    and "list_all header_text (map cm_type_name (columns t))"
    and "list_all header_text (map (render_length \<circ> cm_length) (columns t))"
    and "list_all header_text (map (render_typesizes \<circ> cm_typesizes) (columns t))"
  using assms
  by (auto simp: renderable_def list_all_iff header_text_length header_text_typesizes)

lemma header_step:
  assumes "list_all header_text vals" "vals \<noteq> []" "35 \<notin> set identity" "trimmed identity"
    and "apply_header_values t identity vals = Inr t'"
  shows "parse_line (Some t, result) (render_header identity vals) = Inr (Some t', result)"
  using assms
  by (subst parse_line_render_header) (auto simp: list_all_iff header_text_def)

lemma identities:
  "35 \<notin> set (lit ''name'') \<and> trimmed (lit ''name'')"
  "35 \<notin> set (lit ''type'') \<and> trimmed (lit ''type'')"
  "35 \<notin> set (lit ''length'') \<and> trimmed (lit ''length'')"
  "35 \<notin> set (lit ''typesizes'') \<and> trimmed (lit ''typesizes'')"
  by (simp_all add: trimmed_def is_whitespace_def)

lemma summary_step:
  assumes "list_all word_text extra"
  shows "parse_line (None, result) (render_summary t extra) = Inr (Some (t\<lparr>columns := [], rows := []\<rparr>), result)"
  using parse_table_header_render [of extra t] assms
  unfolding render_summary_def parse_line_summary
  by (simp only: list_all_iff) simp

lemma parse_lines_render:
  assumes t: "renderable t" and extra: "list_all word_text extra"
  shows "parse_lines (None, None) (render_lines t extra) = Inr (Some t, None)"
proof -
  let ?cs = "columns t"
  have ne: "?cs \<noteq> []" using t by (simp add: renderable_def)
  note h = renderable_headers [OF t]
  define t1 where "t1 = t\<lparr>columns := map (\<lambda>c. column_meta_default\<lparr>cm_name := cm_name c\<rparr>) ?cs, rows := []\<rparr>"
  define t2 where "t2 = t1\<lparr>columns := map (\<lambda>c. column_meta_default\<lparr>cm_name := cm_name c, cm_type_name := cm_type_name c\<rparr>) ?cs\<rparr>"
  define t3 where "t3 = t2\<lparr>columns := map (\<lambda>c. column_meta_default\<lparr>cm_name := cm_name c, cm_type_name := cm_type_name c, cm_length := cm_length c\<rparr>) ?cs\<rparr>"
  have s1: "parse_line (Some (t\<lparr>columns := [], rows := []\<rparr>), None)
      (render_header (lit ''name'') (map cm_name ?cs)) = Inr (Some t1, None)"
    using ne apply_name [of "t\<lparr>columns := [], rows := []\<rparr>" ?cs]
    by (intro header_step h) (simp_all add: t1_def identities del: lit.simps)
  have s2: "parse_line (Some t1, None) (render_header (lit ''type'') (map cm_type_name ?cs))
      = Inr (Some t2, None)"
    using ne apply_type [of t1 _ ?cs]
    by (intro header_step h) (simp_all add: t1_def t2_def identities del: lit.simps)
  have s3: "parse_line (Some t2, None)
      (render_header (lit ''length'') (map (render_length \<circ> cm_length) ?cs)) = Inr (Some t3, None)"
    using ne apply_length [of t2 _ ?cs]
    by (intro header_step h) (simp_all add: t2_def t3_def identities del: lit.simps)
  have s4: "parse_line (Some t3, None)
      (render_header (lit ''typesizes'') (map (render_typesizes \<circ> cm_typesizes) ?cs))
      = Inr (Some (t\<lparr>rows := []\<rparr>), None)"
  proof -
    define g where "g = (\<lambda>c :: column_meta. column_meta_default\<lparr>cm_name := cm_name c,
      cm_type_name := cm_type_name c, cm_length := cm_length c\<rparr>)"
    have "(g c)\<lparr>cm_typesizes := cm_typesizes c\<rparr> = c" for c :: column_meta
      by (cases c) (simp add: g_def column_meta_default_def)
    moreover have "columns t3 = map g ?cs" by (simp add: t3_def g_def)
    ultimately show ?thesis
      using ne apply_typesizes [of t3 g ?cs]
      by (intro header_step h) (simp_all add: t3_def t2_def t1_def identities del: lit.simps)
  qed
  show ?thesis
    by (simp add: render_lines_def summary_step [OF extra] s1 s2 s3 s4 parse_lines_rows
        del: lit.simps)
qed

end
