(* ===== verification/Response_Laws.thy ===== *)
theory Response_Laws
  imports Server_Text
begin

text \<open>
  What \<open>parse_response\<close> promises: a rendered table is read back, a line with a server error
  ends the parse with that error and nothing else does, the rows of a table are the tuple
  lines after its summary line in their order, and the small responses are read exactly.
\<close>

section \<open>Line structure\<close>

definition is_summary :: "rstr \<Rightarrow> bool" where
  "is_summary l \<longleftrightarrow> starts_with (lit ''&1'') l \<or> starts_with (lit ''&5'') l"

definition is_tuple :: "rstr \<Rightarrow> bool" where
  "is_tuple l \<longleftrightarrow> starts_with (lit ''['') l"

lemma render_lines_no_newline:
  assumes "renderable t" "list_all word_text extra" "l \<in> set (render_lines t extra)"
  shows "10 \<notin> set l"
proof -
  have blank: "is_whitespace 10" by (simp add: is_whitespace_def)
  have "10 \<notin> set (render_summary t extra)"
  proof -
    have "10 \<notin> set w" if "w \<in> set extra" for w
      using assms(2) that blank by (auto simp: word_text_def list_all_iff)
    then show ?thesis
      by (auto simp: render_summary_def show_uint_not_digit show_sint_not_digit
          separators_not_digits)
  qed
  moreover have "10 \<notin> set (render_header i vals)"
    if "list_all header_text vals" "10 \<notin> set i" for i vals
    using that set_join [of "[44, 9]" vals]
    by (auto simp: render_header_def list_all_iff header_text_def)
  moreover have "10 \<notin> set (render_row fs)" for fs
    using set_join [of "[44, 9]" "map render_field fs"]
    by (auto simp: render_row_def dest: render_field_chars)
  ultimately show ?thesis
    using assms(3) renderable_headers [OF assms(1)]
    unfolding render_lines_def by (simp only: Un_iff set_append set_map image_iff) auto
qed

lemma parse_response_lines:
  assumes "ls \<noteq> []" "\<And>l. l \<in> set ls \<Longrightarrow> 10 \<notin> set l"
  shows "parse_response (join [10] ls) =
    res_bind (parse_lines (None, None) ls) (\<lambda>(table, result).
      case table of Some t \<Rightarrow> Inr (QTable t)
      | None \<Rightarrow> (case result of Some r \<Rightarrow> Inr r | None \<Rightarrow> Inr QOk))"
  unfolding parse_response_def using split_on_join [OF assms] by simp

lemma parse_rendered:
  assumes "renderable t" and "list_all word_text extra"
  shows "parse_response (render_table t extra) = Inr (QTable t)"
proof -
  have "parse_response (join [10] (render_lines t extra)) =
    res_bind (parse_lines (None, None) (render_lines t extra)) (\<lambda>(table, result).
      case table of Some t \<Rightarrow> Inr (QTable t)
      | None \<Rightarrow> (case result of Some r \<Rightarrow> Inr r | None \<Rightarrow> Inr QOk))"
    by (rule parse_response_lines)
      (use assms render_lines_no_newline in \<open>auto simp: render_lines_def\<close>)
  with parse_lines_render [OF assms] show ?thesis by (simp add: render_table_def)
qed

text \<open>C5: For every result table whose column and type names a header line
  can carry, the parser reads back exactly the table a server rendered: its identifier, its
  counts, its columns with lengths and type sizes, and every row, where a string field may
  hold any character (separators, line ends, quotes, backslashes) and NULL is kept apart from
  the string NULL; further fields on the summary line change nothing.\<close>

theorem parse_render_table:
  assumes "renderable t" and "list_all word_text extra"
  shows "parse_response (render_table t extra) = Inr (QTable t)"
  by (rule parse_rendered [OF assms])

definition sample_table :: table_result where
  "sample_table =
     \<lparr>query_id = -1, row_count = 7, declared_columns = 2, embedded_tuples = 2,
      columns =
        [\<lparr>cm_name = lit ''id'', cm_type_name = lit ''int'', cm_length = Some 1, cm_typesizes = None\<rparr>,
         \<lparr>cm_name = lit ''a#b c'', cm_type_name = lit ''decimal'', cm_length = None,
          cm_typesizes = Some (20, Some 2)\<rparr>],
      rows = [[Some (lit ''1''), None], [Some (lit ''NULL''), Some (lit [CHR '','', CHR 0x09, CHR 0x0A, CHR 0x22])]]\<rparr>"

lemma sample_table_renderable: "renderable sample_table"
  by (simp add: renderable_def sample_table_def header_text_def trimmed_def is_whitespace_def)

theorem parse_render_table_witness:
  "renderable sample_table \<and> list_all word_text [lit ''6764'', lit ''372''] \<and>
   parse_response (render_table sample_table [lit ''6764'', lit ''372'']) = Inr (QTable sample_table)"
proof -
  have w: "list_all word_text [lit ''6764'', lit ''372'']"
    by (simp add: word_text_def is_whitespace_def)
  show ?thesis
    using parse_render_table [OF sample_table_renderable w] sample_table_renderable w by blast
qed

section \<open>Errors\<close>

text \<open>A line that starts with an exclamation mark ends the parse with the
  database error that carries the rest of that line, wherever it stands after lines that
  parse, also in the middle of a table, and whatever follows it.\<close>

theorem parse_response_error_line:
  assumes "parse_lines (None, None) before = Inr st"
    and "\<And>l. l \<in> set before \<union> set after \<Longrightarrow> 10 \<notin> set l" and "10 \<notin> set m"
  shows "parse_response (join [10] (before @ [lit ''!'' @ m] @ after)) =
    Inl (ResponseDatabase \<lparr>db_message = m\<rparr>)"
proof -
  have "parse_lines (None, None) (before @ [33 # m] @ after)
      = Inl (ResponseDatabase \<lparr>db_message = m\<rparr>)"
    using assms(1)
    by (simp add: parse_lines_append parse_line_bang monet_database_error_new_def)
  moreover have "10 \<notin> set l" if "l \<in> set (before @ [33 # m] @ after)" for l
    using that assms(2,3) by auto
  ultimately show ?thesis
    using parse_response_lines [of "before @ [33 # m] @ after"] by simp
qed

theorem parse_response_error_line_witness:
  "parse_response (join [10] ([lit ''&1 0 1 1 1'', lit ''% a # name''] @ [lit ''!'' @ lit ''42S02!no such table'']
     @ [lit ''~''])) = Inl (ResponseDatabase \<lparr>db_message = lit ''42S02!no such table''\<rparr>)"
proof -
  have "\<exists>st. parse_lines (None, None) [lit ''&1 0 1 1 1'', lit ''% a # name''] = Inr st"
    by (simp add: run_simps)
  then obtain st where st: "parse_lines (None, None) [lit ''&1 0 1 1 1'', lit ''% a # name''] = Inr st" ..
  show ?thesis
    by (rule parse_response_error_line [OF st]) auto
qed

lemma parse_line_database_error:
  "parse_line st line = Inl (ResponseDatabase e) \<Longrightarrow> line = lit ''!'' @ db_message e"
  by (auto simp: parse_line_def Let_def res_simps response_from_monet_def
      monet_database_error_new_def strip_prefix_Some split: option.splits if_splits)

lemma parse_lines_Inl:
  "parse_lines st ls = Inl e \<longleftrightarrow>
     (\<exists>before l after s. ls = before @ l # after \<and> parse_lines st before = Inr s \<and> parse_line s l = Inl e)"
proof
  show "parse_lines st ls = Inl e \<Longrightarrow>
      \<exists>before l after s. ls = before @ l # after \<and> parse_lines st before = Inr s \<and> parse_line s l = Inl e"
  proof (induction ls arbitrary: st)
    case (Cons l ls)
    show ?case
    proof (cases "parse_line st l")
      case (Inl x)
      with Cons.prems have "l # ls = [] @ l # ls" "parse_lines st [] = Inr st" "parse_line st l = Inl e"
        by simp_all
      then show ?thesis by blast
    next
      case (Inr s)
      with Cons.prems have "parse_lines s ls = Inl e" by simp
      from Cons.IH [OF this] obtain before k after s' where
        "ls = before @ k # after" "parse_lines s before = Inr s'" "parse_line s' k = Inl e" by blast
      with Inr have "l # ls = (l # before) @ k # after" "parse_lines st (l # before) = Inr s'"
        "parse_line s' k = Inl e" by simp_all
      then show ?thesis by blast
    qed
  qed simp
qed (auto simp: parse_lines_append)

lemma parse_response_Inl:
  "parse_response text = Inl e \<longleftrightarrow> parse_lines (None, None) (split_on 10 text) = Inl e"
  by (auto simp: parse_response_def res_simps split: option.splits)

text \<open>C37: A response fails exactly at its first line that does not parse,
  with the error of that line, whatever the lines after it are and whatever the lines before it
  have built up; when every line parses there is no error. It is a database error exactly when
  some line is an exclamation mark followed by the message and every line before that one
  parses: the driver never makes up a database error, and a table, a count or malformed lines
  after it do not hide one. A malformed line before it does: then the error is the driver's own.\<close>

theorem parse_response_error_exact:
  "(parse_response text = Inl e \<longleftrightarrow>
     (\<exists>before line after st. split_on 10 text = before @ line # after \<and>
        parse_lines (None, None) before = Inr st \<and> parse_line st line = Inl e)) \<and>
   (parse_response text = Inl (ResponseDatabase d) \<longleftrightarrow>
     (\<exists>before after st. split_on 10 text = before @ (lit ''!'' @ db_message d) # after \<and>
        parse_lines (None, None) before = Inr st))"
proof
  show "parse_response text = Inl e \<longleftrightarrow>
     (\<exists>before line after st. split_on 10 text = before @ line # after \<and>
        parse_lines (None, None) before = Inr st \<and> parse_line st line = Inl e)"
    by (simp only: parse_response_Inl parse_lines_Inl)
  define bang where "bang = lit ''!'' @ db_message d"
  have "parse_line st bang = Inl (ResponseDatabase d)" for st
    by (simp add: bang_def parse_line_bang monet_database_error_new_def)
  moreover have "line = bang" if "parse_line st line = Inl (ResponseDatabase d)" for st line
    unfolding bang_def by (rule parse_line_database_error [OF that])
  ultimately have "parse_response text = Inl (ResponseDatabase d) \<longleftrightarrow>
     (\<exists>before after st. split_on 10 text = before @ bang # after \<and>
        parse_lines (None, None) before = Inr st)"
    unfolding parse_response_Inl parse_lines_Inl by metis
  then show "parse_response text = Inl (ResponseDatabase d) \<longleftrightarrow>
     (\<exists>before after st. split_on 10 text = before @ (lit ''!'' @ db_message d) # after \<and>
        parse_lines (None, None) before = Inr st)"
    by (simp only: bang_def)
qed

section \<open>Rows\<close>

lemma parse_table_header_rows: "parse_table_header rest = Inr t \<Longrightarrow> rows t = [] \<and> columns t = []"
  by (auto simp: parse_table_header_def Let_def res_simps split: if_splits)

lemma apply_header_values_rows: "apply_header_values t i vs = Inr t' \<Longrightarrow> rows t' = rows t"
  by (auto simp: apply_header_values_def Let_def res_simps split: if_splits)

text \<open>How one line that is not a summary line changes the rows of the open table.\<close>

lemma parse_line_rows:
  assumes "parse_line (table, r) l = Inr (table', r')" "\<not> is_summary l"
  shows "if is_tuple l
    then \<exists>t fs. table = Some t \<and> parse_tuple_fields (tl l) = Inr fs
       \<and> table' = Some (t\<lparr>rows := rows t @ [fs]\<rparr>)
    else map_option rows table' = map_option rows table"
proof (cases "is_tuple l")
  case True
  then obtain rest where "l = 91 # rest" by (auto simp: is_tuple_def starts_with_append)
  with assms(1) True show ?thesis by (auto simp: parse_line_tuple res_simps)
next
  case False
  with assms show ?thesis
    by (auto simp: parse_line_def Let_def res_simps is_summary_def is_tuple_def starts_with_def
        apply_header_values_rows split: option.splits if_splits)
qed

lemma parse_lines_rows_in_order:
  "\<lbrakk>parse_lines (Some t, r) ls = Inr (table', r'); \<And>l. l \<in> set ls \<Longrightarrow> \<not> is_summary l\<rbrakk>
   \<Longrightarrow> \<exists>t'. table' = Some t' \<and>
     map Inr (rows t') = map Inr (rows t) @ map (\<lambda>l. parse_tuple_fields (tl l)) (filter is_tuple ls)"
proof (induction ls arbitrary: t r)
  case (Cons l ls)
  then obtain table1 r1 where step: "parse_line (Some t, r) l = Inr (table1, r1)"
    and rest: "parse_lines (table1, r1) ls = Inr (table', r')" by (auto simp: res_simps)
  have "\<not> is_summary l" using Cons.prems by simp
  note one = parse_line_rows [OF step this]
  then obtain t1 where t1: "table1 = Some t1"
    and rows: "map Inr (rows t1) = map Inr (rows t) @
      map (\<lambda>l. parse_tuple_fields (tl l)) (filter is_tuple [l])"
    by (cases "is_tuple l"; cases table1) auto
  have "parse_lines (Some t1, r1) ls = Inr (table', r')" using rest t1 by simp
  from Cons.IH [OF this] Cons.prems(2) rows show ?case by auto
qed auto

lemma parse_line_table_origin:
  "parse_line (table, r) l = Inr (Some t, r') \<Longrightarrow> table = None \<Longrightarrow>
   is_summary l \<and> parse_table_header (drop 2 l) = Inr t"
  by (auto simp: parse_line_def Let_def res_simps is_summary_def starts_with_append strip_prefix_Some
      split: option.splits if_splits)

lemma parse_line_summary_table:
  "parse_line (table, r) l = Inr (table', r') \<Longrightarrow> is_summary l \<Longrightarrow>
   \<exists>t. table' = Some t \<and> parse_table_header (drop 2 l) = Inr t"
  by (auto simp: is_summary_def starts_with_append parse_line_def Let_def res_simps starts_with_def)

lemma parse_lines_table:
  "parse_lines (table, r) ls = Inr (Some t, r') \<Longrightarrow> table = None \<or> (\<exists>l \<in> set ls. is_summary l) \<Longrightarrow>
   \<exists>before l after h. ls = before @ l # after \<and> is_summary l \<and>
     parse_table_header (drop 2 l) = Inr h \<and> (\<forall>l \<in> set after. \<not> is_summary l) \<and>
     map Inr (rows t) = map (\<lambda>l. parse_tuple_fields (tl l)) (filter is_tuple after)"
proof (induction ls arbitrary: table r)
  case (Cons l ls)
  then obtain table1 r1 where step: "parse_line (table, r) l = Inr (table1, r1)"
    and rest: "parse_lines (table1, r1) ls = Inr (Some t, r')" by (auto simp: res_simps)
  show ?case
  proof (cases "table1 = None \<or> (\<exists>l \<in> set ls. is_summary l)")
    case True
    from Cons.IH [OF rest this] obtain before k after h where
      "ls = before @ k # after" and k: "is_summary k" "parse_table_header (drop 2 k) = Inr h"
      "\<forall>l \<in> set after. \<not> is_summary l"
      "map Inr (rows t) = map (\<lambda>l. parse_tuple_fields (tl l)) (filter is_tuple after)"
      by blast
    then have "l # ls = (l # before) @ k # after" by simp
    with k show ?thesis by blast
  next
    case False
    then obtain t1 where t1: "table1 = Some t1" and none: "\<forall>l \<in> set ls. \<not> is_summary l" by auto
    have l: "is_summary l \<and> parse_table_header (drop 2 l) = Inr t1"
    proof (cases "is_summary l")
      case True
      with parse_line_summary_table [OF step] t1 show ?thesis by auto
    next
      case False
      with Cons.prems(2) none have "table = None" by auto
      with step t1 show ?thesis using parse_line_table_origin by blast
    qed
    have "map Inr (rows t) = map Inr (rows t1) @
        map (\<lambda>l. parse_tuple_fields (tl l)) (filter is_tuple ls)"
      using parse_lines_rows_in_order [of t1 r1 ls "Some t" r'] rest t1 none by auto
    moreover have "rows t1 = []" using l parse_table_header_rows by blast
    moreover have "l # ls = [] @ l # ls" by simp
    ultimately show ?thesis using l none by fastforce
  qed
qed simp

lemma parse_line_result:
  "parse_line (table, r) l = Inr (table', r') \<Longrightarrow> r \<noteq> Some (QTable t) \<Longrightarrow> r' \<noteq> Some (QTable t)"
  by (auto simp: parse_line_def Let_def res_simps parse_update_line_def parse_transaction_line_def
      split: option.splits if_splits)

lemma parse_lines_result:
  "parse_lines (table, r) ls = Inr (table', r') \<Longrightarrow> r \<noteq> Some (QTable t) \<Longrightarrow> r' \<noteq> Some (QTable t)"
proof (induction ls arbitrary: table r)
  case (Cons l ls)
  then obtain table1 r1 where "parse_line (table, r) l = Inr (table1, r1)"
    "parse_lines (table1, r1) ls = Inr (table', r')" by (auto simp: res_simps)
  with Cons parse_line_result show ?case by blast
qed simp

text \<open>C29: No row is lost, added or reordered: when a response parses to a table,
  its rows are the parsed tuple lines after the last summary line, one row for each line, in
  the order of the lines.\<close>

theorem parse_response_rows:
  assumes "parse_response text = Inr (QTable t)"
  shows "\<exists>before l after h. split_on 10 text = before @ l # after \<and> is_summary l \<and>
     parse_table_header (drop 2 l) = Inr h \<and> filter is_summary after = [] \<and>
     map Inr (rows t) = map (\<lambda>l. parse_tuple_fields (tl l)) (filter is_tuple after)"
proof -
  obtain r where "parse_lines (None, None) (split_on 10 text) = Inr (Some t, r)"
    using assms parse_lines_result [of None None]
    by (fastforce simp: parse_response_def res_simps split: option.splits)
  from parse_lines_table [OF this] show ?thesis by (auto simp: filter_empty_conv)
qed

theorem parse_response_rows_witness:
  "\<exists>t. parse_response (lit ''&1 0 1 1 1'' @ 10 # lit ''[ 7]'') = Inr (QTable t) \<and>
    (\<exists>before l after h. split_on 10 (lit ''&1 0 1 1 1'' @ 10 # lit ''[ 7]'') = before @ l # after \<and>
     is_summary l \<and> parse_table_header (drop 2 l) = Inr h \<and> filter is_summary after = [] \<and>
     map Inr (rows t) = map (\<lambda>l. parse_tuple_fields (tl l)) (filter is_tuple after))"
proof -
  have "parse_response (lit ''&1 0 1 1 1'' @ 10 # lit ''[ 7]'') = Inr (QTable
    \<lparr>query_id = 0, row_count = 1, declared_columns = 1, embedded_tuples = 1, columns = [],
     rows = [[Some (lit ''7'')]]\<rparr>)"
    by (simp add: run_simps)
  from this parse_response_rows [OF this] show ?thesis by blast
qed

section \<open>Fields and small responses\<close>

lemma unescape_field_total: "\<exists>v. unescape_field f = Inr v \<and> (v = None \<longleftrightarrow> f = lit ''NULL'')"
  by (auto simp: unescape_field_def split: list.splits option.splits)

lemma unescape_field_same:
  "unescape_field f = Inr (Some v) \<Longrightarrow>
     v = f \<or> (\<exists>q u. q \<in> {34, 39} \<and> f = q # u @ [q] \<and> v = unescape_chars u)"
  by (auto simp: unescape_field_def strip_prefix_Some strip_suffix_Some bind_eq_Some_conv
      split: list.splits option.splits if_splits)

lemma unescape_chars_length: "length (unescape_chars s) \<le> length s"
proof (induction s rule: length_induct)
  case (1 s)
  show ?case
  proof (cases s)
    case (Cons c cs)
    with 1 have "length (unescape_chars cs) \<le> length cs" by simp
    with Cons show ?thesis
    proof (cases cs)
      case c: (Cons e r)
      with Cons 1 have "length (unescape_chars r) \<le> length r" by simp
      with \<open>length (unescape_chars cs) \<le> length cs\<close> Cons c show ?thesis
        unfolding Cons unescape_chars.simps(2) [of c cs] by simp
    qed simp
  qed simp
qed

text \<open>Reading one field never fails. It is the SQL NULL exactly for the
  bare word \<open>NULL\<close>; otherwise it is the field itself, or, for a field in matching quotes, the
  unescaped text between them, which is never longer. The quoted form a server writes for a
  string gives back that string, so the string \<open>NULL\<close> is not taken for a NULL.\<close>

theorem unescape_field_exact:
  "unescape_field (quote_field s) = Inr (Some s) \<and>
   (case unescape_field f of
      Inl e \<Rightarrow> False
    | Inr None \<Rightarrow> f = lit ''NULL''
    | Inr (Some v) \<Rightarrow> f \<noteq> lit ''NULL'' \<and>
        (v = f \<or> (\<exists>q u. q \<in> {34, 39} \<and> f = q # u @ [q] \<and> v = unescape_chars u \<and>
          length v \<le> length u)))"
proof -
  obtain v where v: "unescape_field f = Inr v" "v = None \<longleftrightarrow> f = lit ''NULL''"
    using unescape_field_total by blast
  show ?thesis
  proof (cases v)
    case None
    with v show ?thesis by (simp add: unescape_quote_field)
  next
    case (Some w)
    with v have "w = f \<or> (\<exists>q u. q \<in> {34, 39} \<and> f = q # u @ [q] \<and> w = unescape_chars u)"
      by (intro unescape_field_same) simp
    then have "w = f \<or> (\<exists>q u. q \<in> {34, 39} \<and> f = q # u @ [q] \<and> w = unescape_chars u \<and>
        length w \<le> length u)"
      using unescape_chars_length by blast
    with Some v show ?thesis by (simp add: unescape_quote_field)
  qed
qed

lemma show_sint_minus_one: "show_sint (i :: i64) = lit ''-1'' \<longleftrightarrow> i = -1"
proof
  assume "show_sint i = lit ''-1''"
  moreover have "lit ''-1'' = show_sint (-1 :: i64)" by (simp add: run_simps)
  ultimately have "parse_sint (show_sint i) = (parse_sint (show_sint (-1 :: i64)) :: int_error + i64)" by simp
  then show "i = -1" by simp
qed (simp add: run_simps)

text \<open>An update response: for every affected-row count and every last
  identity, and whatever further words follow on the line, the count is read back exactly, and
  the identity too, where \<open>-1\<close> stands for no identity.\<close>

theorem parse_response_update:
  assumes "list_all word_text extra"
  shows "parse_response (lit ''&2'' @ concat (map (Cons 32) ([show_uint n, show_sint i] @ extra)))
    = Inr (QUpdate n (if i = -1 then None else Some i))"
proof -
  let ?ws = "[show_uint n, show_sint i] @ extra"
  have words: "\<forall>w \<in> set ?ws. word_text w" using assms by (auto simp: show_fields list_all_iff)
  then have split: "split_whitespace (concat (map (Cons 32) ?ws)) = ?ws"
    by (intro split_whitespace_words_render) auto
  have nl: "10 \<notin> set (concat (map (Cons 32) ?ws))"
  proof -
    have "10 \<notin> set w" if "w \<in> set ?ws" for w
    proof -
      have "is_whitespace 10" by (simp add: is_whitespace_def)
      with words that show ?thesis unfolding word_text_def list_all_iff by blast
    qed
    then show ?thesis unfolding set_concat by fastforce
  qed
  have "parse_update_line (concat (map (Cons 32) ?ws)) =
      Inr (QUpdate n (if i = -1 then None else Some i))"
    unfolding parse_update_line_def Let_def split using show_sint_minus_one [of i] by simp
  moreover have "split_on 10 (lit ''&2'' @ concat (map (Cons 32) ?ws)) =
      [lit ''&2'' @ concat (map (Cons 32) ?ws)]"
    using nl by (intro split_when_no_sep) auto
  ultimately show ?thesis
    using parse_line_update [of None None "concat (map (Cons 32) ?ws)"]
    by (simp add: parse_response_def)
qed

theorem parse_response_update_witness:
  "parse_response (lit ''&2'' @ concat (map (Cons 32)
      ([show_uint (3 :: u64), show_sint (-1 :: i64)] @ [lit ''57'', lit ''120''])))
    = Inr (QUpdate 3 (if (-1 :: i64) = -1 then None else Some (-1)))"
  by (rule parse_response_update) (simp add: word_text_def is_whitespace_def)

text \<open>A header line is cut at every comma: it carries one more value than
  it has commas. A column name (or a type) that holds a comma is therefore read as two values,
  and the values after it move to the wrong columns.\<close>

theorem parse_header_commas:
  assumes "35 \<notin> set identity"
  shows "\<exists>vals. parse_header_values (text @ 35 # identity) = Inr (trim identity, vals) \<and>
    length vals = Suc (length (filter (\<lambda>c. c = 44) text))"
proof -
  have "map trim (split_on 44 (trim text)) = map trim (split_on 44 text)"
    by (rule map_trim_split_trim) (simp add: is_whitespace_def)
  then have "length (split_on 44 (trim text)) = length (split_on 44 text)"
    by (rule map_eq_imp_length_eq)
  then have "length (split_on 44 (trim text)) = Suc (length (filter (\<lambda>c. c = 44) text))"
    by (simp add: length_split_on)
  with assms show ?thesis
    by (simp add: parse_header_values_def rsplit_once_append)
qed

theorem parse_header_commas_witness:
  "\<exists>vals. parse_header_values (lit '' last, first, age '' @ 35 # lit '' name'')
      = Inr (trim (lit '' name''), vals) \<and>
    length vals = Suc (length (filter (\<lambda>c. c = 44) (lit '' last, first, age '')))"
  by (rule parse_header_commas) simp

text \<open>The request for a query is valid UTF-8 and is the text \<open>s\<close>, the
  statement unchanged, a line end and \<open>;\<close>: the statement cannot be altered, and a trailing
  comment in it cannot swallow the terminator.\<close>

theorem encode_query_text:
  assumes "scalars sql"
  shows "from_utf8 (encode_query sql) = Some (lit ''s'' @ sql @ [10, 59])"
proof -
  have "encode_query sql = as_bytes (lit ''s'' @ sql @ [10, 59])"
    by (simp add: encode_query_def as_bytes_append as_bytes_ascii)
  moreover have "scalars (lit ''s'' @ sql @ [10, 59])"
    using assms by (simp add: scalar_def)
  ultimately show ?thesis by (simp add: from_utf8_as_bytes del: lit_append)
qed

end
