(* ===== verification/Values.thy ===== *)
theory Values
  imports Driver_Error Utf8
begin

text \<open>
  Type information, values and the conversions of Rust types (\<open>src/type_info.rs\<close>,
  \<open>src/value.rs\<close>, \<open>src/types/\<close>): \<open>Type\<close>, \<open>Decode\<close> and \<open>Encode\<close> of \<open>bool\<close>, the integers,
  strings, floats, decimals and dates. An \<open>encode\<close> takes the buffer and returns it extended.

  The integers come from one macro and are one definition for every width, the floats one for
  every format. Parsing and printing of \<open>Decimal\<close> and the \<open>chrono\<close> types are arguments of the
  definitions that use them. The locale \<open>value_codec\<close> is the contract of a type that is bound and read back,
  \<open>literal_codec\<close> adds that its literal is one token of SQL.
\<close>

section \<open>Type information\<close>

record monet_type_info =
  ti_name :: rstr
  ti_is_null :: bool

definition monet_type_info_new :: "rstr \<Rightarrow> monet_type_info" where
  "monet_type_info_new name = \<lparr>ti_name = name, ti_is_null = False\<rparr>"

definition monet_type_info_null :: monet_type_info where
  "monet_type_info_null = \<lparr>ti_name = lit ''null'', ti_is_null = True\<rparr>"

definition display_type_info :: "monet_type_info \<Rightarrow> rstr" where
  "display_type_info ty = ti_name ty"

text \<open>The \<open>TypeInfo\<close> methods.\<close>

definition type_info_is_null :: "monet_type_info \<Rightarrow> bool" where
  "type_info_is_null ty = ti_is_null ty"

definition type_info_name :: "monet_type_info \<Rightarrow> rstr" where
  "type_info_name ty = ti_name ty"

lemmas type_info_methods [simp] = type_info_is_null_def type_info_name_def

definition compatible_with_names :: "monet_type_info \<Rightarrow> string list \<Rightarrow> bool" where
  "compatible_with_names ty names =
     list_ex (\<lambda>n. eq_ignore_ascii_case (type_info_name ty) (lit n)) names"

section \<open>Values\<close>

record monet_value =
  v_data :: "rstr option"
  v_type_info :: monet_type_info

record monet_value_ref =
  vr_data :: "rstr option"
  vr_type_info :: monet_type_info

definition value_as_ref :: "monet_value \<Rightarrow> monet_value_ref" where
  "value_as_ref v = \<lparr>vr_data = v_data v, vr_type_info = v_type_info v\<rparr>"

definition value_type_info :: "monet_value \<Rightarrow> monet_type_info" where
  "value_type_info v = v_type_info v"

definition value_is_null :: "monet_value \<Rightarrow> bool" where
  "value_is_null v \<longleftrightarrow> v_data v = None"

definition value_ref_null :: "monet_type_info \<Rightarrow> monet_value_ref" where
  "value_ref_null ty = \<lparr>vr_data = None, vr_type_info = ty\<rparr>"

definition value_ref_new :: "rstr \<Rightarrow> monet_type_info \<Rightarrow> monet_value_ref" where
  "value_ref_new data ty = \<lparr>vr_data = Some data, vr_type_info = ty\<rparr>"

definition value_ref_text :: "monet_value_ref \<Rightarrow> box_error + rstr" where
  "value_ref_text r = ok_or UnexpectedNull (vr_data r)"

definition value_ref_to_owned :: "monet_value_ref \<Rightarrow> monet_value" where
  "value_ref_to_owned r = \<lparr>v_data = vr_data r, v_type_info = vr_type_info r\<rparr>"

definition value_ref_type_info :: "monet_value_ref \<Rightarrow> monet_type_info" where
  "value_ref_type_info r = vr_type_info r"

definition value_ref_is_null :: "monet_value_ref \<Rightarrow> bool" where
  "value_ref_is_null r \<longleftrightarrow> vr_data r = None"

text \<open>sqlx's \<open>IsNull\<close>, and what an \<open>Encode\<close> impl does to the buffer.\<close>

datatype is_null = IsNull_Yes | IsNull_No

type_synonym 'a encoder = "'a \<Rightarrow> u8 list \<Rightarrow> box_error + u8 list \<times> is_null"
type_synonym 'a decoder = "monet_value_ref \<Rightarrow> box_error + 'a"

section \<open>Booleans\<close>

definition type_info_bool :: monet_type_info where
  "type_info_bool = monet_type_info_new (lit ''boolean'')"

definition compatible_bool :: "monet_type_info \<Rightarrow> bool" where
  "compatible_bool ty = compatible_with_names ty [''boolean'']"

definition decode_bool :: "bool decoder" where
  "decode_bool value =
     res_bind (value_ref_text value) (\<lambda>t.
       if t = lit ''true'' then Inr True
       else if t = lit ''false'' then Inr False
       else Inl (BoxMessage [Lit ''invalid boolean literal: '', Dbg t]))"

definition encode_bool :: "bool encoder" where
  "encode_bool b buf =
     Inr (buf @ as_bytes (if b then lit ''true'' else lit ''false''), IsNull_No)"

section \<open>Integers\<close>

text \<open>The \<open>Type\<close> impl of the macro \<open>impl_integer_type\<close>: the name and the aliases are arguments.\<close>

definition integer_type_info :: "string \<Rightarrow> monet_type_info" where
  "integer_type_info canonical_name = monet_type_info_new (lit canonical_name)"

definition integer_compatible :: "string list \<Rightarrow> monet_type_info \<Rightarrow> bool" where
  "integer_compatible aliases ty = compatible_with_names ty aliases"

definition decode_integer :: "'a::len word decoder" where
  "decode_integer value =
     res_bind (value_ref_text value) (\<lambda>t. map_err BoxParseInt (parse_sint t))"

definition encode_integer :: "'a::len word encoder" where
  "encode_integer i buf = Inr (buf @ as_bytes (show_sint i), IsNull_No)"

definition type_info_i8 :: monet_type_info where
  "type_info_i8 = integer_type_info ''tinyint''"

definition compatible_i8 :: "monet_type_info \<Rightarrow> bool" where
  "compatible_i8 ty = integer_compatible [''tinyint''] ty"

definition type_info_i16 :: monet_type_info where
  "type_info_i16 = integer_type_info ''smallint''"

definition compatible_i16 :: "monet_type_info \<Rightarrow> bool" where
  "compatible_i16 ty = integer_compatible [''smallint'', ''shortint''] ty"

definition type_info_i32 :: monet_type_info where
  "type_info_i32 = integer_type_info ''int''"

definition compatible_i32 :: "monet_type_info \<Rightarrow> bool" where
  "compatible_i32 ty = integer_compatible [''int'', ''integer'', ''mediumint'', ''serial''] ty"

definition type_info_i64 :: monet_type_info where
  "type_info_i64 = integer_type_info ''bigint''"

definition compatible_i64 :: "monet_type_info \<Rightarrow> bool" where
  "compatible_i64 ty = integer_compatible [''bigint'', ''longint''] ty"

section \<open>Floats\<close>

text \<open>The \<open>Type\<close> impl of the macro \<open>impl_float_type\<close>.\<close>

definition float_type_info :: "string \<Rightarrow> monet_type_info" where
  "float_type_info canonical_name = monet_type_info_new (lit canonical_name)"

definition float_compatible :: "string list \<Rightarrow> monet_type_info \<Rightarrow> bool" where
  "float_compatible aliases ty = compatible_with_names ty aliases"

definition type_info_f32 :: monet_type_info where
  "type_info_f32 = float_type_info ''real''"

definition compatible_f32 :: "monet_type_info \<Rightarrow> bool" where
  "compatible_f32 ty = float_compatible [''real'', ''float''] ty"

definition type_info_f64 :: monet_type_info where
  "type_info_f64 = float_type_info ''double''"

definition compatible_f64 :: "monet_type_info \<Rightarrow> bool" where
  "compatible_f64 ty = float_compatible [''double''] ty"

text \<open>For every format: \<open>f32_format\<close> and \<open>f64_format\<close> are the two the macro is used with.\<close>

definition decode_float :: "float_format \<Rightarrow> rust_float decoder" where
  "decode_float f value =
     res_bind (value_ref_text value) (\<lambda>t. map_err BoxParseFloat (parse_float f t))"

definition encode_float :: "float_format \<Rightarrow> rust_float encoder" where
  "encode_float f x buf = Inr (buf @ as_bytes (show_float f x), IsNull_No)"

section \<open>Types printed and parsed by other code\<close>

text \<open>\<open>parse\<close> is the type's \<open>FromStr\<close> (or \<open>parse_from_str\<close> with its format), with the description
  of its error; \<open>show\<close> its \<open>to_string\<close> (or \<open>format\<close>).\<close>

definition decode_parsed :: "(rstr \<Rightarrow> rstr + 'a) \<Rightarrow> 'a decoder" where
  "decode_parsed parse value =
     res_bind (value_ref_text value) (\<lambda>t. map_err BoxForeign (parse t))"

definition encode_shown :: "('a \<Rightarrow> rstr) \<Rightarrow> 'a encoder" where
  "encode_shown shown x buf = Inr (buf @ as_bytes (shown x), IsNull_No)"

text \<open>\<open>DATE '...'\<close>, \<open>TIME '...'\<close>, \<open>TIMESTAMP '...'\<close>.\<close>

definition encode_quoted :: "string \<Rightarrow> ('a \<Rightarrow> rstr) \<Rightarrow> 'a encoder" where
  "encode_quoted keyword shown x buf =
     Inr (buf @ as_bytes (lit keyword @ lit '' '' @ [39] @ shown x @ [39]), IsNull_No)"

definition type_info_decimal :: monet_type_info where
  "type_info_decimal = monet_type_info_new (lit ''decimal'')"

definition compatible_decimal :: "monet_type_info \<Rightarrow> bool" where
  "compatible_decimal ty = compatible_with_names ty [''decimal'', ''numeric'']"

definition decode_decimal :: "(rstr \<Rightarrow> rstr + 'd) \<Rightarrow> 'd decoder" where
  "decode_decimal parse = decode_parsed parse"

definition encode_decimal :: "('d \<Rightarrow> rstr) \<Rightarrow> 'd encoder" where
  "encode_decimal shown = encode_shown shown"

text \<open>The \<open>chrono\<close> parsers and formatters take the format string.\<close>

definition type_info_date :: monet_type_info where
  "type_info_date = monet_type_info_new (lit ''date'')"

definition compatible_date :: "monet_type_info \<Rightarrow> bool" where
  "compatible_date ty = compatible_with_names ty [''date'']"

definition decode_date :: "(rstr \<Rightarrow> string \<Rightarrow> rstr + 'd) \<Rightarrow> 'd decoder" where
  "decode_date parse_from_str = decode_parsed (\<lambda>t. parse_from_str t ''%Y-%m-%d'')"

definition encode_date :: "('d \<Rightarrow> string \<Rightarrow> rstr) \<Rightarrow> 'd encoder" where
  "encode_date format = encode_quoted ''DATE'' (\<lambda>d. format d ''%Y-%m-%d'')"

definition type_info_time :: monet_type_info where
  "type_info_time = monet_type_info_new (lit ''time'')"

definition compatible_time :: "monet_type_info \<Rightarrow> bool" where
  "compatible_time ty = compatible_with_names ty [''time'']"

definition decode_time :: "(rstr \<Rightarrow> string \<Rightarrow> rstr + 't) \<Rightarrow> 't decoder" where
  "decode_time parse_from_str = decode_parsed (\<lambda>t. parse_from_str t ''%H:%M:%S%.f'')"

definition encode_time :: "('t \<Rightarrow> string \<Rightarrow> rstr) \<Rightarrow> 't encoder" where
  "encode_time format = encode_quoted ''TIME'' (\<lambda>t. format t ''%H:%M:%S%.f'')"

definition type_info_timestamp :: monet_type_info where
  "type_info_timestamp = monet_type_info_new (lit ''timestamp'')"

definition compatible_timestamp :: "monet_type_info \<Rightarrow> bool" where
  "compatible_timestamp ty = compatible_with_names ty [''timestamp'']"

definition decode_timestamp :: "(rstr \<Rightarrow> string \<Rightarrow> rstr + 'dt) \<Rightarrow> 'dt decoder" where
  "decode_timestamp parse_from_str =
     decode_parsed (\<lambda>t. parse_from_str t ''%Y-%m-%d %H:%M:%S%.f'')"

definition encode_timestamp :: "('dt \<Rightarrow> string \<Rightarrow> rstr) \<Rightarrow> 'dt encoder" where
  "encode_timestamp format =
     encode_quoted ''TIMESTAMP'' (\<lambda>dt. format dt ''%Y-%m-%d %H:%M:%S%.f'')"

section \<open>Strings\<close>

definition STRING_TYPE_NAMES :: "string list" where
  "STRING_TYPE_NAMES = [''char'', ''varchar'', ''clob'', ''str'', ''url'', ''json'', ''xml'']"

text \<open>\<open>buf.truncate(buf.len() - 1)\<close> drops the last byte the loop wrote.\<close>

definition encode_string_literal :: "rstr \<Rightarrow> u8 list \<Rightarrow> u8 list" where
  "encode_string_literal s buf =
     (let buf = buf @ [39];
          buf = fold (\<lambda>chunk buf. buf @ as_bytes chunk @ [39, 39]) (split_on (ch CHR 0x27) s) buf
      in take (length buf - 1) buf)"

definition type_info_string :: monet_type_info where
  "type_info_string = monet_type_info_new (lit ''varchar'')"

definition compatible_string :: "monet_type_info \<Rightarrow> bool" where
  "compatible_string ty = compatible_with_names ty STRING_TYPE_NAMES"

definition decode_string :: "rstr decoder" where
  "decode_string value = value_ref_text value"

definition encode_string :: "rstr encoder" where
  "encode_string s buf = Inr (encode_string_literal s buf, IsNull_No)"

text \<open>The impls for \<open>&str\<close>.\<close>

definition type_info_str :: monet_type_info where
  "type_info_str = type_info_string"

definition compatible_str :: "monet_type_info \<Rightarrow> bool" where
  "compatible_str ty = compatible_string ty"

definition decode_str :: "rstr decoder" where
  "decode_str value = value_ref_text value"

definition encode_str :: "rstr encoder" where
  "encode_str s buf = Inr (encode_string_literal s buf, IsNull_No)"

lemmas values_run [run_simps] = monet_type_info_new_def compatible_with_names_def
  type_info_methods integer_type_info_def integer_compatible_def
  float_type_info_def float_compatible_def
  value_ref_new_def value_ref_null_def value_ref_text_def decode_bool_def encode_bool_def
  decode_integer_def encode_integer_def decode_parsed_def encode_shown_def encode_quoted_def
  encode_string_literal_def decode_string_def encode_string_def eq_ignore_ascii_case_def
  to_ascii_lower_def

end
