(* ===== verification/Literals.thy ===== *)
theory Literals
  imports Values
begin

text \<open>
  What the conversions of \<open>src/types/\<close> promise. A reference reader of SQL tokens
  (\<open>read_token\<close>, standard string literals with doubled quotes) says what a literal means to
  the server; \<open>value_codec\<close> is the contract of a type that is bound and read back,
  \<open>literal_codec\<close> adds that its literal is read as one token whatever follows it. Both are
  interpreted on \<open>bool\<close>, the integers of every width and strings.
\<close>

section \<open>Signed numbers\<close>

text \<open>The texts of a signed number: an optional sign and digits, with its value.\<close>

definition signed_text :: "rstr \<Rightarrow> int \<Rightarrow> bool" where
  "signed_text s v \<longleftrightarrow>
     (\<exists>ds. ds \<noteq> [] \<and> list_all is_digit ds \<and>
       ((s = ds \<or> s = ch CHR ''+'' # ds) \<and> v = digits_value 0 ds \<or>
        s = ch CHR ''-'' # ds \<and> v = - digits_value 0 ds))"

lemma digits_value_nonneg: "list_all is_digit ds \<Longrightarrow> 0 \<le> digits_value 0 ds"
  by (rule digits_value_mono) auto

lemma from_str_radix_signed_Inr:
  assumes "lo \<le> 0" "0 \<le> hi"
  shows "from_str_radix True lo hi s = Inr v \<longleftrightarrow> signed_text s v \<and> lo \<le> v \<and> v \<le> hi"
proof (cases s)
  case Nil
  then show ?thesis by (simp add: from_str_radix_def signed_text_def)
next
  case (Cons c cs)
  have digit: "\<not> is_digit 43" "\<not> is_digit 45" by (simp_all add: is_digit_def)
  consider "cs = [] \<and> (c = 43 \<or> c = 45)" | "c = 43 \<and> cs \<noteq> []" | "c = 45 \<and> cs \<noteq> []"
    | "c \<noteq> 43 \<and> c \<noteq> 45" by blast
  then show ?thesis
  proof cases
    case 1
    with Cons digit show ?thesis by (auto simp: from_str_radix_def signed_text_def)
  next
    case 2
    with Cons assms digit show ?thesis
      using digits_value_nonneg [of cs]
      by (auto simp: from_str_radix_def signed_text_def acc_pos_eq_Inr)
  next
    case 3
    with Cons assms digit show ?thesis
      using digits_value_nonneg [of cs]
      by (auto simp: from_str_radix_def signed_text_def acc_neg_eq_Inr)
  next
    case 4
    then have "from_str_radix True lo hi s = Inr v \<longleftrightarrow>
        list_all is_digit s \<and> digits_value 0 s = v \<and> v \<le> hi"
      using Cons acc_pos_eq_Inr [of 0 hi s v] assms by (simp add: from_str_radix_def)
    also have "\<dots> \<longleftrightarrow> signed_text s v \<and> lo \<le> v \<and> v \<le> hi"
      using 4 Cons assms digits_value_nonneg [of s] unfolding signed_text_def by auto
    finally show ?thesis .
  qed
qed

lemma parse_sint_Inr: "parse_sint s = Inr (w :: 'a::len word) \<longleftrightarrow> signed_text s (sint w)"
proof -
  let ?n = "LENGTH('a) - 1"
  have "parse_sint s = Inr w \<longleftrightarrow>
      (\<exists>v. signed_text s v \<and> - (2 ^ ?n) \<le> v \<and> v \<le> 2 ^ ?n - 1 \<and> w = word_of_int v)"
    by (auto simp: parse_sint_def res_simps from_str_radix_signed_Inr)
  also have "\<dots> \<longleftrightarrow> signed_text s (sint w)"
  proof
    assume "\<exists>v. signed_text s v \<and> - (2 ^ ?n) \<le> v \<and> v \<le> 2 ^ ?n - 1 \<and> w = word_of_int v"
    then obtain v where v: "signed_text s v" "- (2 ^ ?n) \<le> v" "v < 2 ^ ?n" "w = word_of_int v"
      by auto
    then have "sint w = v"
      by (simp add: sint_sbintrunc' signed_take_bit_int_eq_self)
    with v show "signed_text s (sint w)" by simp
  next
    assume "signed_text s (sint w)"
    moreover have "- (2 ^ ?n) \<le> sint w" "sint w \<le> 2 ^ ?n - 1" "w = word_of_int (sint w)"
      using sint_ge [of w] sint_lt [of w] by auto
    ultimately show "\<exists>v. signed_text s v \<and> - (2 ^ ?n) \<le> v \<and> v \<le> 2 ^ ?n - 1 \<and> w = word_of_int v"
      by blast
  qed
  finally show ?thesis .
qed

section \<open>Reading tokens\<close>

definition word_char :: "rchar \<Rightarrow> bool" where
  "word_char c \<longleftrightarrow> is_digit c \<or> (65 \<le> c \<and> c \<le> 90) \<or> (97 \<le> c \<and> c \<le> 122) \<or>
     c = 43 \<or> c = 45 \<or> c = 46 \<or> c = 95"

text \<open>The body of a standard string literal, after the opening quote.\<close>

fun string_body :: "rstr \<Rightarrow> (rstr \<times> rstr) option" where
  "string_body [] = None"
| "string_body (c # cs) =
     (if c \<noteq> 39 then map_option (\<lambda>(s, r). (c # s, r)) (string_body cs)
      else
        (case cs of
           [] \<Rightarrow> Some ([], [])
         | d # r \<Rightarrow>
             if d = 39 then map_option (\<lambda>(s, r). (39 # s, r)) (string_body r)
             else Some ([], cs)))"

datatype sql_token = SString rstr | SWord rstr

definition read_token :: "rstr \<Rightarrow> (sql_token \<times> rstr) option" where
  "read_token s =
     (if s \<noteq> [] \<and> hd s = 39 then map_option (\<lambda>(v, r). (SString v, r)) (string_body (tl s))
      else if s \<noteq> [] \<and> word_char (hd s)
      then Some (SWord (takeWhile word_char s), dropWhile word_char s)
      else None)"

text \<open>What may follow a literal: not a quote and not a character that would continue a word.\<close>

definition delimited :: "rstr \<Rightarrow> bool" where
  "delimited rest \<longleftrightarrow> rest = [] \<or> (hd rest \<noteq> 39 \<and> \<not> word_char (hd rest))"

lemma read_token_word:
  assumes "w \<noteq> []" "list_all word_char w" "delimited rest"
  shows "read_token (w @ rest) = Some (SWord w, rest)"
proof -
  have w: "\<forall>c \<in> set w. word_char c" using assms(2) by (simp add: list_all_iff)
  have "word_char (hd w)" using assms(1) w by simp
  then have "hd w \<noteq> 39" by (auto simp: word_char_def is_digit_def)
  moreover have "takeWhile word_char rest = []" "dropWhile word_char rest = rest"
    using assms(3) by (cases rest; simp add: delimited_def)+
  ultimately show ?thesis
    using assms(1) w by (simp add: read_token_def)
qed

section \<open>String literals\<close>

definition double_quote :: "rchar \<Rightarrow> rstr" where
  "double_quote c = (if c = 39 then [39, 39] else [c])"

definition sql_string :: "rstr \<Rightarrow> rstr" where
  "sql_string s = 39 # concat (map double_quote s) @ [39]"

lemma fold_append: "fold (\<lambda>x buf. buf @ f x) xs buf = buf @ concat (map f xs)"
  by (induction xs arbitrary: buf) auto

lemma chunks_of_quotes:
  "concat (map (\<lambda>c. as_bytes c @ [39, 39]) (split_on 39 s)) =
     as_bytes (concat (map double_quote s)) @ [39, 39]"
proof (induction s)
  case (Cons c s)
  obtain p ps where "split_on 39 s = p # ps" by (cases "split_on 39 s") auto
  with Cons show ?case
    by (simp add: double_quote_def as_bytes_def utf8_char_def)
qed simp

lemma encode_string_literal_eq: "encode_string_literal s buf = buf @ as_bytes (sql_string s)"
proof -
  have "fold (\<lambda>chunk buf. buf @ as_bytes chunk @ [39, 39]) (split_on 39 s) (buf @ [39]) =
      (buf @ [39] @ as_bytes (concat (map double_quote s)) @ [39]) @ [39]"
    using fold_append [of "\<lambda>c. as_bytes c @ [39, 39]" "split_on 39 s" "buf @ [39]"]
      chunks_of_quotes [of s] by simp
  then show ?thesis
    by (simp add: encode_string_literal_def Let_def sql_string_def as_bytes_ascii as_bytes_append)
qed

lemma string_body_doubled:
  "rest = [] \<or> hd rest \<noteq> 39 \<Longrightarrow>
   string_body (concat (map double_quote s) @ 39 # rest) = Some (s, rest)"
  by (induction s) (cases rest, auto simp: double_quote_def)

lemma read_token_sql_string:
  "rest = [] \<or> hd rest \<noteq> 39 \<Longrightarrow> read_token (sql_string s @ rest) = Some (SString s, rest)"
  using string_body_doubled [of rest s] by (simp add: read_token_def sql_string_def)

lemma scalars_sql_string: "scalars s \<Longrightarrow> scalars (sql_string s)"
  by (induction s) (auto simp: sql_string_def double_quote_def scalar_def)

section \<open>The contracts\<close>

text \<open>
  \<open>sql v\<close> is the literal a bound value becomes, \<open>wire v\<close> the text of the same value in a result,
  \<open>good v\<close> the values the contract covers. Encoding appends and never fails or writes a NULL;
  decoding reads back what the server prints and reports a NULL as an error.
\<close>

locale value_codec =
  fixes decode :: "'a decoder"
    and encode :: "'a encoder"
    and sql :: "'a \<Rightarrow> rstr"
    and wire :: "'a \<Rightarrow> rstr"
    and good :: "'a \<Rightarrow> bool"
  assumes encode_appends: "good v \<Longrightarrow> encode v buf = Inr (buf @ as_bytes (sql v), IsNull_No)"
    and sql_scalars: "good v \<Longrightarrow> scalars (sql v)"
    and decode_wire: "good v \<Longrightarrow> decode (value_ref_new (wire v) ty) = Inr v"
    and decode_null: "decode (value_ref_null ty) = Inl UnexpectedNull"
begin

lemma encoded_text:
  "good v \<Longrightarrow> \<exists>bytes. encode v [] = Inr (bytes, IsNull_No) \<and> from_utf8 bytes = Some (sql v)"
  using encode_appends [of v "[]"] sql_scalars by (simp add: from_utf8_as_bytes)

lemma wire_inj:
  assumes "good v" "good w" "wire v = wire w"
  shows "v = w"
proof -
  have "decode (value_ref_new (wire w) ty) = Inr v" for ty
    using decode_wire [OF assms(1)] by (simp only: assms(3))
  with decode_wire [OF assms(2)] show ?thesis by simp
qed

end

locale literal_codec = value_codec +
  fixes token :: "'a \<Rightarrow> sql_token"
  assumes read_sql: "good v \<Longrightarrow> delimited rest \<Longrightarrow> read_token (sql v @ rest) = Some (token v, rest)"
    and token_inj: "good v \<Longrightarrow> good w \<Longrightarrow> token v = token w \<Longrightarrow> v = w"
begin

lemma sql_not_prefix:
  assumes "good v" "good w" "delimited r" "delimited r'" "sql v @ r = sql w @ r'"
  shows "v = w \<and> r = r'"
proof -
  have "Some (token v, r) = Some (token w, r')"
    using read_sql [OF assms(1,3)] read_sql [OF assms(2,4)] by (simp only: assms(5))
  with token_inj [OF assms(1,2)] show ?thesis by simp
qed

lemma sql_inj: "good v \<Longrightarrow> good w \<Longrightarrow> sql v = sql w \<Longrightarrow> v = w"
  using sql_not_prefix [of v w "[]" "[]"] by (simp add: delimited_def)

end

section \<open>The instances\<close>

fun bool_text :: "bool \<Rightarrow> rstr" where
  "bool_text True = lit ''true''"
| "bool_text False = lit ''false''"

interpretation bool_codec: literal_codec decode_bool encode_bool bool_text bool_text
    "\<lambda>_. True" "\<lambda>b. SWord (bool_text b)"
proof
  fix b :: bool and rest buf ty
  show "encode_bool b buf = Inr (buf @ as_bytes (bool_text b), IsNull_No)"
    by (cases b) (simp_all add: encode_bool_def)
  show "scalars (bool_text b)" by (cases b) (simp_all add: scalar_def)
  show "decode_bool (value_ref_new (bool_text b) ty) = Inr b"
    by (cases b) (simp_all add: decode_bool_def value_ref_text_def value_ref_new_def)
  show "decode_bool (value_ref_null ty) = Inl UnexpectedNull"
    by (simp add: decode_bool_def value_ref_text_def value_ref_null_def)
  show "delimited rest \<Longrightarrow> read_token (bool_text b @ rest) = Some (SWord (bool_text b), rest)"
    by (rule read_token_word) (cases b; simp add: word_char_def)+
next
  fix b c assume "SWord (bool_text b) = SWord (bool_text c)"
  then show "b = c" by (cases b; cases c) simp_all
qed

lemma word_text_show_int: "list_all word_char (show_int i)"
  by (auto simp: list_all_iff word_char_def dest: show_int_chars)

lemma show_sint_inj: "show_sint i = show_sint j \<Longrightarrow> i = (j :: 'a::len word)"
proof -
  assume "show_sint i = show_sint j"
  then have "(parse_sint (show_sint i) :: int_error + 'a word) = parse_sint (show_sint j)"
    by (rule arg_cong)
  then show ?thesis by (simp only: parse_sint_show_sint sum.inject)
qed

interpretation integer_codec: literal_codec
    "decode_integer :: 'a::len word decoder" encode_integer show_sint show_sint
    "\<lambda>_. True" "\<lambda>i. SWord (show_sint i)"
proof
  fix i j :: "'a word" and rest buf ty
  show "encode_integer i buf = Inr (buf @ as_bytes (show_sint i), IsNull_No)"
    by (simp add: encode_integer_def)
  show "scalars (show_sint i)" by (simp add: show_sint_def)
  show "decode_integer (value_ref_new (show_sint i) ty) = Inr i"
    by (simp add: decode_integer_def value_ref_text_def value_ref_new_def)
  show "(decode_integer (value_ref_null ty) :: box_error + 'a word) = Inl UnexpectedNull"
    by (simp add: decode_integer_def value_ref_text_def value_ref_null_def)
  show "delimited rest \<Longrightarrow> read_token (show_sint i @ rest) = Some (SWord (show_sint i), rest)"
    by (rule read_token_word) (simp_all add: show_sint_def word_text_show_int)
  show "SWord (show_sint i) = SWord (show_sint j) \<Longrightarrow> i = j"
    by (simp only: sql_token.inject) (rule show_sint_inj)
qed

interpretation string_codec: literal_codec decode_string encode_string sql_string "\<lambda>s. s"
    scalars SString
proof
  fix s rest assume "delimited rest"
  then show "read_token (sql_string s @ rest) = Some (SString s, rest)"
    by (intro read_token_sql_string) (auto simp: delimited_def)
qed (simp_all add: decode_string_def encode_string_def value_ref_text_def value_ref_new_def
    value_ref_null_def encode_string_literal_eq scalars_sql_string)

interpretation str_codec: value_codec decode_str encode_str sql_string "\<lambda>s. s" scalars
  by unfold_locales
    (simp_all add: decode_str_def encode_str_def value_ref_text_def value_ref_new_def
      value_ref_null_def encode_string_literal_eq scalars_sql_string)

section \<open>Properties\<close>

text \<open>C35: An integer of any width is decoded from exactly the texts that
  denote it: an optional sign and at least one digit whose value is the number. A value outside
  the width, an empty text or any other character is an error, never a wrapped number, and the
  text the driver itself writes for a number decodes to that number.\<close>

theorem integer_decoding_exact:
  "(decode_integer (value_ref_new text ty) = Inr (i :: 'a::len word) \<longleftrightarrow> signed_text text (sint i)) \<and>
   decode_integer (value_ref_new (show_sint i) ty) = Inr i \<and>
   (decode_integer (value_ref_null ty) :: box_error + 'a word) = Inl UnexpectedNull"
proof (intro conjI)
  show "decode_integer (value_ref_new text ty) = Inr i \<longleftrightarrow> signed_text text (sint i)"
    by (simp add: decode_integer_def value_ref_text_def value_ref_new_def map_err_eq_Inr
        parse_sint_Inr)
qed (rule integer_codec.decode_wire, simp, rule integer_codec.decode_null)

text \<open>Bound as a literal, a string is safe under standard SQL quoting:
  encoding appends valid UTF-8 to the buffer, and a reader of the statement that comes to the
  literal reads the string back and goes on exactly after it, whatever quotes the string holds
  and whatever follows, unless that is another quote.\<close>

theorem string_literal_reads_back:
  assumes "scalars s" and "rest = [] \<or> hd rest \<noteq> 39"
  shows "\<exists>text. encode_string s buf = Inr (buf @ as_bytes text, IsNull_No) \<and>
    from_utf8 (as_bytes text) = Some text \<and> read_token (text @ rest) = Some (SString s, rest)"
  using string_codec.encode_appends [OF assms(1)] string_codec.sql_scalars [OF assms(1)]
    read_token_sql_string [OF assms(2)]
  by (intro exI [of _ "sql_string s"]) (simp add: from_utf8_as_bytes)

text \<open>Where the body of a literal ends for a reader that takes a backslash as an escape.\<close>

fun escaped_end :: "rstr \<Rightarrow> rstr option" where
  "escaped_end [] = None"
| "escaped_end (c # cs) =
     (if c = 92 then (case cs of [] \<Rightarrow> None | _ # r \<Rightarrow> escaped_end r)
      else if c \<noteq> 39 then escaped_end cs
      else (case cs of [] \<Rightarrow> Some [] | d # r \<Rightarrow> if d = 39 then escaped_end r else Some cs))"

lemma escaped_end_doubled:
  "92 \<notin> set s \<Longrightarrow> escaped_end (concat (map double_quote s) @ r) = escaped_end r"
  by (induction s) (auto simp: double_quote_def)

text \<open>C38: The literal does not escape backslashes. For a reader that takes
  a backslash in a string literal as an escape (as this driver's own \<open>unescape_field\<close> does with
  the server's strings), the literal of a string that ends in one backslash does not end at its
  closing quote: the reader goes on into the statement behind it, looking for the end there.\<close>

theorem string_literal_backslash:
  assumes "92 \<notin> set s"
  shows "\<exists>text. encode_string (s @ [92]) buf = Inr (buf @ as_bytes text, IsNull_No) \<and>
    hd text = 39 \<and> escaped_end (tl text @ rest) = escaped_end rest"
proof (intro exI conjI)
  show "encode_string (s @ [92]) buf = Inr (buf @ as_bytes (sql_string (s @ [92])), IsNull_No)"
    by (simp add: encode_string_def encode_string_literal_eq)
  show "hd (sql_string (s @ [92])) = 39" by (simp add: sql_string_def)
  show "escaped_end (tl (sql_string (s @ [92])) @ rest) = escaped_end rest"
    using escaped_end_doubled [OF assms, of "[92, 39] @ rest"]
    by (simp add: sql_string_def double_quote_def)
qed

theorem string_literal_backslash_witness:
  "\<exists>text. encode_string (lit ''C:'' @ [92]) [] = Inr ([] @ as_bytes text, IsNull_No) \<and>
    hd text = 39 \<and> escaped_end (tl text @ lit '', 1)'') = escaped_end (lit '', 1)'')"
  by (rule string_literal_backslash) simp

section \<open>Dates and type names\<close>

lemma read_token_keyword:
  "k \<noteq> [] \<Longrightarrow> list_all word_char k \<Longrightarrow>
     read_token (k @ lit '' '' @ rest) = Some (SWord k, lit '' '' @ rest)"
  by (rule read_token_word) (simp_all add: delimited_def word_char_def is_digit_def)

lemma read_token_plain_string:
  assumes "39 \<notin> set t" "rest = [] \<or> hd rest \<noteq> 39"
  shows "read_token ([39] @ t @ [39] @ rest) = Some (SString t, rest)"
proof -
  have "concat (map double_quote t) = t" using assms(1) by (induction t) (auto simp: double_quote_def)
  with read_token_sql_string [OF assms(2), of t] show ?thesis by (simp add: sql_string_def)
qed

text \<open>A date, time or timestamp is bound as its SQL keyword and a string
  literal. For every formatter whose output holds no quote, a reader finds the keyword, a
  blank, and a literal with exactly the formatted text, and goes on behind it.\<close>

theorem temporal_literals:
  assumes "39 \<notin> set (format x fmt)" and "rest = [] \<or> hd rest \<noteq> 39"
    and "(keyword, fmt, enc) \<in>
      {(''DATE'', ''%Y-%m-%d'', encode_date format),
       (''TIME'', ''%H:%M:%S%.f'', encode_time format),
       (''TIMESTAMP'', ''%Y-%m-%d %H:%M:%S%.f'', encode_timestamp format)}"
  shows "\<exists>text. enc x buf = Inr (buf @ as_bytes text, IsNull_No) \<and>
    read_token (text @ rest) = Some (SWord (lit keyword), drop (length keyword) text @ rest) \<and>
    read_token (drop (length keyword + 1) text @ rest) = Some (SString (format x fmt), rest)"
proof -
  let ?text = "lit keyword @ lit '' '' @ [39] @ format x fmt @ [39]"
  have "enc x buf = Inr (buf @ as_bytes ?text, IsNull_No)"
    using assms(3) by (auto simp: encode_date_def encode_time_def encode_timestamp_def
        encode_quoted_def)
  moreover have "list_all word_char (lit keyword)" "lit keyword \<noteq> []"
    using assms(3) by (auto simp: word_char_def)
  then have "read_token (lit keyword @ lit '' '' @ [39] @ format x fmt @ [39] @ rest) =
      Some (SWord (lit keyword), lit '' '' @ [39] @ format x fmt @ [39] @ rest)"
    by (intro read_token_keyword)
  moreover have "read_token ([39] @ format x fmt @ [39] @ rest) = Some (SString (format x fmt), rest)"
    using assms(1,2) by (rule read_token_plain_string)
  ultimately show ?thesis by (intro exI [of _ ?text]) simp
qed

definition sample_format :: "nat \<Rightarrow> string \<Rightarrow> rstr" where
  "sample_format y fmt = (if fmt = ''%Y-%m-%d'' then show_nat y @ lit ''-07-28'' else [])"

lemma sample_format_plain: "39 \<notin> set (sample_format y fmt)"
  by (auto simp: sample_format_def is_digit_def dest: show_nat_digit)

theorem temporal_literals_witness:
  "\<exists>text. encode_date sample_format 2026 [] = Inr ([] @ as_bytes text, IsNull_No) \<and>
    read_token (text @ lit '')'') =
      Some (SWord (lit ''DATE''), drop (length ''DATE'') text @ lit '')'') \<and>
    read_token (drop (length ''DATE'' + 1) text @ lit '')'') =
      Some (SString (sample_format 2026 ''%Y-%m-%d''), lit '')'')"
  by (rule temporal_literals [where format = sample_format, OF sample_format_plain]) simp_all

text \<open>Every Rust type with its \<open>compatible\<close> and the names it lists.\<close>

definition type_table :: "((monet_type_info \<Rightarrow> bool) \<times> string list) list" where
  "type_table =
     [(compatible_bool, [''boolean'']), (compatible_i8, [''tinyint'']),
      (compatible_i16, [''smallint'', ''shortint'']),
      (compatible_i32, [''int'', ''integer'', ''mediumint'', ''serial'']),
      (compatible_i64, [''bigint'', ''longint'']), (compatible_f32, [''real'', ''float'']),
      (compatible_f64, [''double'']), (compatible_decimal, [''decimal'', ''numeric'']),
      (compatible_string, [''char'', ''varchar'', ''clob'', ''str'', ''url'', ''json'', ''xml'']),
      (compatible_date, [''date'']), (compatible_time, [''time'']),
      (compatible_timestamp, [''timestamp''])]"

lemma distinct_concat_one:
  "distinct (concat nss) \<Longrightarrow> length (filter (\<lambda>ns. x \<in> set ns) nss) \<le> 1"
proof (induction nss)
  case (Cons ns nss)
  show ?case
  proof (cases "x \<in> set ns")
    case True
    with Cons.prems have "x \<notin> set (concat nss)" by auto
    then have "filter (\<lambda>ns. x \<in> set ns) nss = []" by (auto simp: filter_empty_conv)
    with True show ?thesis by simp
  qed (use Cons in simp)
qed simp

lemma compatible_lower:
  "compatible_with_names ty names \<longleftrightarrow>
     map to_ascii_lower (ti_name ty) \<in> set (map (\<lambda>n. map to_ascii_lower (lit n)) names)"
  by (induction names) (auto simp: compatible_with_names_def eq_ignore_ascii_case_def)

lemma type_table_names:
  "list_all (\<lambda>(f, names). f = (\<lambda>ty. compatible_with_names ty names)) type_table"
  by (simp add: type_table_def fun_eq_iff integer_compatible_def float_compatible_def compatible_bool_def compatible_i8_def
      compatible_i16_def compatible_i32_def compatible_i64_def compatible_f32_def
      compatible_f64_def compatible_decimal_def compatible_string_def STRING_TYPE_NAMES_def
      compatible_date_def compatible_time_def compatible_timestamp_def)

lemma type_names_distinct:
  "distinct (concat (map (\<lambda>(f, names). map (\<lambda>n. map to_ascii_lower (lit n)) names) type_table))"
  by (simp add: type_table_def to_ascii_lower_def)

text \<open>A column type is decoded by at most one of the twelve Rust types: no
  type name, in any letter case, is accepted by two of them; and each accepts its own.\<close>

theorem types_unambiguous:
  "length (filter (\<lambda>(compatible, names). compatible ty) type_table) \<le> 1 \<and>
   compatible_bool type_info_bool \<and> compatible_i8 type_info_i8 \<and> compatible_i16 type_info_i16 \<and>
   compatible_i32 type_info_i32 \<and> compatible_i64 type_info_i64 \<and> compatible_f32 type_info_f32 \<and>
   compatible_f64 type_info_f64 \<and> compatible_decimal type_info_decimal \<and>
   compatible_string type_info_string \<and> compatible_str type_info_str \<and>
   compatible_date type_info_date \<and> compatible_time type_info_time \<and>
   compatible_timestamp type_info_timestamp"
proof -
  let ?names = "\<lambda>(f, names). map (\<lambda>n. map to_ascii_lower (lit n)) names"
  let ?x = "map to_ascii_lower (ti_name ty)"
  have "filter (\<lambda>(f, names). f ty) type_table = filter (\<lambda>p. ?x \<in> set (?names p)) type_table"
  proof (rule filter_cong)
    fix p assume "p \<in> set type_table"
    then have "fst p = (\<lambda>ty. compatible_with_names ty (snd p))"
      using type_table_names by (auto simp: list_all_iff)
    then show "(case p of (f, names) \<Rightarrow> f ty) = (?x \<in> set (?names p))"
      by (simp add: case_prod_unfold compatible_lower)
  qed simp
  moreover have "length (filter (\<lambda>p. ?x \<in> set (?names p)) type_table) =
      length (filter (\<lambda>ns. ?x \<in> set ns) (map ?names type_table))"
    by (simp add: filter_map o_def)
  ultimately have "length (filter (\<lambda>(f, names). f ty) type_table) \<le> 1"
    using distinct_concat_one [OF type_names_distinct, of ?x] by simp
  moreover have "compatible_with_names (monet_type_info_new (lit n)) ns" if "n \<in> set ns" for n ns
    unfolding compatible_with_names_def monet_type_info_new_def list_ex_iff
    using that by (intro bexI [of _ n]) simp_all
  ultimately show ?thesis
    by (simp add: integer_compatible_def float_compatible_def integer_type_info_def
        float_type_info_def compatible_bool_def compatible_i8_def compatible_i16_def compatible_i32_def
        compatible_i64_def compatible_f32_def compatible_f64_def compatible_decimal_def
        compatible_string_def compatible_str_def STRING_TYPE_NAMES_def compatible_date_def
        compatible_time_def compatible_timestamp_def type_info_bool_def type_info_i8_def
        type_info_i16_def type_info_i32_def type_info_i64_def type_info_f32_def
        type_info_f64_def type_info_decimal_def type_info_string_def type_info_str_def
        type_info_date_def type_info_time_def type_info_timestamp_def del: lit.simps)
qed

end
