(* ===== verification/Arguments.thy ===== *)
theory Arguments
  imports Literals
begin

text \<open>
  Query arguments (\<open>src/arguments.rs\<close>): each bound value is encoded to the text of its literal
  when it is added, and \<open>substitute_into\<close> puts the literals in place of the question marks of
  the statement. The lemmas say what becomes of one placeholder, and, through the contract
  \<open>literal_codec\<close>, that a server reads the bound value there.
\<close>

section \<open>Operations\<close>

record monet_arguments =
  literals :: "rstr list"

definition arguments_new :: monet_arguments where
  "arguments_new = \<lparr>literals = []\<rparr>"

text \<open>Reserving capacity has no effect on the value.\<close>

definition arguments_reserve :: "nat \<Rightarrow> nat \<Rightarrow> monet_arguments \<Rightarrow> monet_arguments" where
  "arguments_reserve additional value_size args = args"

definition arguments_add ::
    "'a encoder \<Rightarrow> 'a \<Rightarrow> monet_arguments \<Rightarrow> box_error + monet_arguments" where
  "arguments_add encode value args =
     res_bind (encode value []) (\<lambda>(buf, is_null).
     res_bind
       (if is_null = IsNull_Yes then Inr (lit ''NULL'')
        else ok_or BoxFromUtf8 (from_utf8 buf)) (\<lambda>literal.
     Inr (args\<lparr>literals := literals args @ [literal]\<rparr>)))"

definition arguments_len :: "monet_arguments \<Rightarrow> nat" where
  "arguments_len args = length (literals args)"

text \<open>The loop over the parts of the statement, taking the next literal while there is one.\<close>

fun substitute_parts :: "rstr list \<Rightarrow> rstr list \<Rightarrow> rstr \<Rightarrow> rstr" where
  "substitute_parts [] lits out = out"
| "substitute_parts (part # parts) [] out = substitute_parts parts [] (out @ part)"
| "substitute_parts (part # parts) (l # lits) out = substitute_parts parts lits (out @ part @ l)"

definition placeholders :: "rstr \<Rightarrow> nat" where
  "placeholders sql = length (filter (\<lambda>c. c = ch CHR ''?'') sql)"

definition substitute_into :: "monet_arguments \<Rightarrow> rstr \<Rightarrow> sqlx_error + rstr" where
  "substitute_into args sql =
     (let placeholder_count = placeholders sql; bound = length (literals args)
      in if placeholder_count \<noteq> bound
         then Inl (SqlxEncode (BoxMessage
           [Lit ''query has '', Num placeholder_count, Lit '' '?' placeholder(s) but '', Num bound, Lit '' argument(s) were bound'']))
         else Inr (substitute_parts (split_on (ch CHR ''?'') sql) (literals args) []))"

section \<open>Substitution at one placeholder\<close>

text \<open>The parts with the literals between them, while there are any.\<close>

fun weave :: "rstr list \<Rightarrow> rstr list \<Rightarrow> rstr" where
  "weave [] lits = []"
| "weave (p # ps) [] = p @ weave ps []"
| "weave (p # ps) (l # ls) = p @ l @ weave ps ls"

lemma substitute_parts_weave: "substitute_parts parts lits out = out @ weave parts lits"
  by (induction parts lits out rule: substitute_parts.induct) auto

lemma weave_append:
  "length ls = length ps \<Longrightarrow> weave (ps @ qs) (ls @ ms) = weave ps ls @ weave qs ms"
  by (induction ps ls rule: list_induct2') auto

lemma weave_snoc:
  "length ps = Suc (length ls) \<Longrightarrow> weave ps (ls @ [l]) = weave ps ls @ l"
  by (induction ps ls rule: weave.induct) (auto simp: length_Suc_conv)

lemma length_parts: "length (split_on 63 sql) = Suc (placeholders sql)"
  by (simp add: length_split_on placeholders_def)

lemma placeholders_append:
  "placeholders (a @ b) = placeholders a + placeholders b"
  "placeholders (63 # b) = Suc (placeholders b)"
  by (simp_all add: placeholders_def)

lemma substitute_into_weave:
  "substitute_into args sql = Inr out \<longleftrightarrow>
     placeholders sql = length (literals args) \<and> out = weave (split_on 63 sql) (literals args)"
  by (auto simp: substitute_into_def Let_def substitute_parts_weave)

lemma substitute_at:
  assumes "substitute_into args (pre @ 63 # post) = Inr out" "i = placeholders pre"
  shows "i < length (literals args) \<and>
    (\<exists>a b. out = a @ literals args ! i @ b \<and>
      substitute_into \<lparr>literals = take i (literals args)\<rparr> pre = Inr a \<and>
      substitute_into \<lparr>literals = drop (Suc i) (literals args)\<rparr> post = Inr b)"
proof -
  let ?ls = "literals args"
  have n: "placeholders pre + Suc (placeholders post) = length ?ls"
    and out: "out = weave (split_on 63 pre @ split_on 63 post) ?ls"
    using assms(1) by (simp_all add: substitute_into_weave placeholders_append split_when_append_sep)
  have i: "i < length ?ls" using n assms(2) by simp
  then have ls: "?ls = (take i ?ls @ [?ls ! i]) @ drop (Suc i) ?ls" by (simp add: id_take_nth_drop [symmetric])
  have "out = weave (split_on 63 pre) (take i ?ls @ [?ls ! i]) @
      weave (split_on 63 post) (drop (Suc i) ?ls)"
    unfolding out by (subst ls, rule weave_append) (use i assms(2) in \<open>simp add: length_parts\<close>)
  also have "weave (split_on 63 pre) (take i ?ls @ [?ls ! i]) =
      weave (split_on 63 pre) (take i ?ls) @ ?ls ! i"
    by (rule weave_snoc) (use i assms(2) in \<open>simp add: length_parts\<close>)
  finally show ?thesis
    using i n assms(2) by (simp add: substitute_into_weave)
qed

lemma substitute_head:
  assumes "substitute_into args sql = Inr out" "sql = [] \<or> hd sql \<noteq> 63"
  shows "sql = [] \<and> out = [] \<or> (sql \<noteq> [] \<and> out \<noteq> [] \<and> hd out = hd sql)"
proof (cases sql)
  case (Cons c cs)
  with assms show ?thesis
    by (cases "split_on 63 cs"; cases "literals args")
      (auto simp: substitute_into_weave placeholders_def)
qed (use assms in \<open>auto simp: substitute_into_weave placeholders_def\<close>)

section \<open>Bound values\<close>

context value_codec begin

lemma add_good:
  "good v \<Longrightarrow> arguments_add encode v args = Inr (args\<lparr>literals := literals args @ [sql v]\<rparr>)"
  using encoded_text [of v] by (auto simp: arguments_add_def)

end

context literal_codec begin

lemma bound_value_read:
  assumes "good v"
    and add: "arguments_add encode v before = Inr args"
    and subst: "substitute_into \<lparr>literals = literals args @ later\<rparr> (pre @ 63 # post) = Inr out"
    and "placeholders pre = length (literals before)"
    and post: "post = [] \<or> (hd post \<noteq> 63 \<and> hd post \<noteq> 39 \<and> \<not> word_char (hd post))"
  shows "\<exists>a b. out = a @ sql v @ b \<and> substitute_into before pre = Inr a \<and>
    substitute_into \<lparr>literals = later\<rparr> post = Inr b \<and>
    read_token (sql v @ b) = Some (token v, b)"
proof -
  have lits: "literals args = literals before @ [sql v]" using add add_good [OF assms(1)] by auto
  let ?ls = "literals before @ [sql v] @ later"
  have "?ls ! placeholders pre = sql v" "take (placeholders pre) ?ls = literals before"
    "drop (Suc (placeholders pre)) ?ls = later"
    using assms(4) by simp_all
  with substitute_at [OF subst refl] lits obtain a b where ab: "out = a @ sql v @ b"
    "substitute_into \<lparr>literals = literals before\<rparr> pre = Inr a"
    "substitute_into \<lparr>literals = later\<rparr> post = Inr b" by auto
  then have "substitute_into before pre = Inr a"
    by (simp add: substitute_into_weave)
  moreover have "delimited b"
    using substitute_head [OF ab(3)] post by (auto simp: delimited_def)
  ultimately show ?thesis using ab read_sql [OF assms(1)] by blast
qed

end

section \<open>Properties\<close>

text \<open>C34: Substitution succeeds exactly when the statement has as many
  question marks as there are literals, with an error otherwise. Then each question mark, and
  nothing else, is replaced by the literal at its position: what stands before it and behind it
  is the substitution of those parts with the literals before and behind, and a question mark
  inside a literal is not taken for a placeholder.\<close>

theorem substitute_placeholder:
  "((\<exists>out. substitute_into args sql = Inr out) \<longleftrightarrow> placeholders sql = length (literals args)) \<and>
   (sql = pre @ 63 # post \<and> substitute_into args sql = Inr out \<longrightarrow>
     (\<exists>a b. out = a @ literals args ! placeholders pre @ b \<and>
       substitute_into \<lparr>literals = take (placeholders pre) (literals args)\<rparr> pre = Inr a \<and>
       substitute_into \<lparr>literals = drop (Suc (placeholders pre)) (literals args)\<rparr> post = Inr b)) \<and>
   (63 \<notin> set sql \<and> literals args = [] \<longrightarrow> substitute_into args sql = Inr sql)"
proof (intro conjI impI)
  show "(\<exists>out. substitute_into args sql = Inr out) \<longleftrightarrow> placeholders sql = length (literals args)"
    by (simp add: substitute_into_weave)
  show "\<exists>a b. out = a @ literals args ! placeholders pre @ b \<and>
       substitute_into \<lparr>literals = take (placeholders pre) (literals args)\<rparr> pre = Inr a \<and>
       substitute_into \<lparr>literals = drop (Suc (placeholders pre)) (literals args)\<rparr> post = Inr b"
    if "sql = pre @ 63 # post \<and> substitute_into args sql = Inr out"
    using that substitute_at [of args pre post out] by blast
  show "substitute_into args sql = Inr sql" if "63 \<notin> set sql \<and> literals args = []"
  proof -
    have "split_on 63 sql = [sql]" using that by (intro split_when_no_sep) auto
    with that show ?thesis by (auto simp: substitute_into_weave placeholders_def filter_empty_conv)
  qed
qed

theorem substitute_placeholder_witness:
  "\<exists>a b. lit ''a = 1 AND b = ?'' = a @ [lit ''1'', lit ''?''] ! placeholders (lit ''a = '') @ b \<and>
     substitute_into \<lparr>literals = take (placeholders (lit ''a = '')) [lit ''1'', lit ''?'']\<rparr>
       (lit ''a = '') = Inr a \<and>
     substitute_into \<lparr>literals = drop (Suc (placeholders (lit ''a = ''))) [lit ''1'', lit ''?'']\<rparr>
       (lit '' AND b = ?'') = Inr b"
proof -
  let ?args = "\<lparr>literals = [lit ''1'', lit ''?'']\<rparr>"
  have "substitute_into ?args (lit ''a = ? AND b = ?'') = Inr (lit ''a = 1 AND b = ?'')"
    by (simp add: substitute_into_def placeholders_def)
  moreover have "lit ''a = ? AND b = ?'' = lit ''a = '' @ 63 # lit '' AND b = ?''" by simp
  ultimately show ?thesis
    using substitute_placeholder [of ?args "lit ''a = ? AND b = ?''" "lit ''a = ''"
        "lit '' AND b = ?''" "lit ''a = 1 AND b = ?''"]
    by (simp only: monet_arguments.simps)
qed

text \<open>C13: No injection through a bound string, under standard quoting: whatever
  is bound before and after it and whatever the string holds, quotes, question marks and
  comment signs included, a reader of the finished statement that comes to the place of its
  question mark reads the string and goes on with what stood behind the question mark. Behind the
  question mark stands the end of the statement or a character that is neither a second question
  mark, nor a quote, nor one of a word (a letter, a digit or one of \<open>+ - . _\<close>): \<open>??\<close> bound to two
  strings puts their literals together, and the two quotes that meet are read as one in a string.\<close>

theorem bound_string_safe:
  assumes "scalars s"
    and "arguments_add encode_string s before = Inr args"
    and "substitute_into \<lparr>literals = literals args @ later\<rparr> (pre @ 63 # post) = Inr out"
    and "placeholders pre = length (literals before)"
    and "post = [] \<or> (hd post \<noteq> 63 \<and> hd post \<noteq> 39 \<and> \<not> word_char (hd post))"
  shows "\<exists>a text b. out = a @ text @ b \<and> substitute_into before pre = Inr a \<and>
    substitute_into \<lparr>literals = later\<rparr> post = Inr b \<and>
    read_token (text @ b) = Some (SString s, b)"
  using string_codec.bound_value_read [OF assms] by blast

theorem bound_string_safe_witness:
  "\<exists>a text b. lit ''f(1, ''@ sql_string (lit [CHR ''?'', CHR 0x27]) @ lit '')'' = a @ text @ b \<and>
    substitute_into \<lparr>literals = [lit ''1'']\<rparr> (lit ''f(?, '') = Inr a \<and>
    substitute_into \<lparr>literals = []\<rparr> (lit '')'') = Inr b \<and>
    read_token (text @ b) = Some (SString (lit [CHR ''?'', CHR 0x27]), b)"
proof (rule bound_string_safe)
  show "arguments_add encode_string (lit [CHR ''?'', CHR 0x27]) \<lparr>literals = [lit ''1'']\<rparr> =
      Inr \<lparr>literals = [lit ''1'', sql_string (lit [CHR ''?'', CHR 0x27])]\<rparr>"
    by (subst string_codec.add_good) (simp_all add: scalar_def)
qed (simp_all add: substitute_into_def placeholders_def scalar_def word_char_def is_digit_def
    sql_string_def double_quote_def)

text \<open>A bound integer of any width stands in the finished statement as one
  number: a reader at its place reads its decimal text, which decodes to the same integer, and
  goes on with what stood behind the question mark.\<close>

theorem bound_integer_safe:
  fixes i :: "'a::len word"
  assumes "arguments_add encode_integer i before = Inr args"
    and "substitute_into \<lparr>literals = literals args @ later\<rparr> (pre @ 63 # post) = Inr out"
    and "placeholders pre = length (literals before)"
    and "post = [] \<or> (hd post \<noteq> 63 \<and> hd post \<noteq> 39 \<and> \<not> word_char (hd post))"
  shows "\<exists>a text b. out = a @ text @ b \<and> substitute_into before pre = Inr a \<and>
    substitute_into \<lparr>literals = later\<rparr> post = Inr b \<and>
    read_token (text @ b) = Some (SWord text, b) \<and>
    decode_integer (value_ref_new text ty) = Inr i"
  using integer_codec.bound_value_read [OF _ assms] integer_codec.decode_wire [of i ty] by blast

theorem bound_integer_safe_witness:
  "\<exists>a text b. lit ''a = -7'' = a @ text @ b \<and>
    substitute_into \<lparr>literals = []\<rparr> (lit ''a = '') = Inr a \<and>
    substitute_into \<lparr>literals = []\<rparr> (lit '''') = Inr b \<and>
    read_token (text @ b) = Some (SWord text, b) \<and>
    decode_integer (value_ref_new text type_info_i32) = Inr (-7 :: 32 word)"
proof (rule bound_integer_safe)
  show "arguments_add encode_integer (-7 :: 32 word) \<lparr>literals = []\<rparr> =
      Inr \<lparr>literals = [show_sint (-7 :: 32 word)]\<rparr>"
    by (subst integer_codec.add_good) simp_all
qed (simp_all add: run_simps substitute_into_def placeholders_def)

end
