(* ===== verification/Rows.thy ===== *)
theory Rows
  imports Values Response
begin

text \<open>
  Columns and rows (\<open>src/column.rs\<close>, \<open>src/row.rs\<close>): the rows built from a parsed table, the two
  ways to name a column, and reading one value. A value is read by position in the row's own
  list, which the parser does not compare with the number of columns: the panic of a tuple that
  is too short is a result of the model. The locale \<open>column_index\<close> is the contract of a way to
  name a column.
\<close>

section \<open>Columns\<close>

record monet_column =
  col_ordinal :: nat
  col_name :: rstr
  col_type_info :: monet_type_info

definition column_from_meta :: "nat \<Rightarrow> column_meta \<Rightarrow> monet_column" where
  "column_from_meta ordinal meta =
     \<lparr>col_ordinal = ordinal, col_name = cm_name meta,
      col_type_info = monet_type_info_new (cm_type_name meta)\<rparr>"

text \<open>The \<open>Column\<close> methods.\<close>

definition column_ordinal :: "monet_column \<Rightarrow> nat" where
  "column_ordinal c = col_ordinal c"

definition column_name :: "monet_column \<Rightarrow> rstr" where
  "column_name c = col_name c"

definition column_type_info :: "monet_column \<Rightarrow> monet_type_info" where
  "column_type_info c = col_type_info c"

lemmas column_methods [simp, run_simps] =
  column_ordinal_def column_name_def column_type_info_def

section \<open>Rows\<close>

record monet_row =
  row_columns :: "monet_column list"
  row_values :: "rstr option list"

definition columns_of_row :: "monet_row \<Rightarrow> monet_column list" where
  "columns_of_row row = row_columns row"

definition from_table_result :: "table_result \<Rightarrow> monet_row list" where
  "from_table_result table =
     (let cols = map (\<lambda>(ordinal, meta). column_from_meta ordinal meta)
            (enumerate 0 (columns table))
      in map (\<lambda>values. \<lparr>row_columns = cols, row_values = values\<rparr>) (rows table))"

text \<open>\<open>impl ColumnIndex<MonetRow> for usize\<close> and \<open>for str\<close>.\<close>

definition index_usize :: "nat \<Rightarrow> monet_row \<Rightarrow> sqlx_error + nat" where
  "index_usize i row =
     (let len = length (row_columns row)
      in if len \<le> i then Inl (ColumnIndexOutOfBounds i len) else Inr i)"

definition index_str :: "rstr \<Rightarrow> monet_row \<Rightarrow> sqlx_error + nat" where
  "index_str name row =
     ok_or (ColumnNotFound name)
       (map_option column_ordinal (find (\<lambda>c. column_name c = name) (row_columns row)))"

text \<open>Indexing a slice or a vector panics out of range.\<close>

definition slice_at :: "'a list \<Rightarrow> nat \<Rightarrow> sqlx_error fault + 'a" where
  "slice_at xs i = (if i < length xs then Inr (xs ! i) else Inl (Panicked ''index out of bounds''))"

definition try_get_raw ::
    "('i \<Rightarrow> monet_row \<Rightarrow> sqlx_error + nat) \<Rightarrow> 'i \<Rightarrow> monet_row \<Rightarrow>
     sqlx_error fault + monet_value_ref" where
  "try_get_raw index i row =
     res_bind (map_err Failed (index i row)) (\<lambda>col_index.
     res_bind (slice_at (row_columns row) col_index) (\<lambda>column.
     let type_info = column_type_info column
     in res_bind (slice_at (row_values row) col_index) (\<lambda>value.
        Inr (case value of
               Some data \<Rightarrow> value_ref_new data type_info
             | None \<Rightarrow> value_ref_null type_info))))"

section \<open>What every row keeps\<close>

text \<open>The columns are numbered by their position.\<close>

definition row_ok :: "monet_row \<Rightarrow> bool" where
  "row_ok row \<longleftrightarrow> map col_ordinal (row_columns row) = [0 ..< length (row_columns row)]"

lemma columns_numbered:
  "map col_ordinal (map (\<lambda>(ordinal, meta). column_from_meta ordinal meta) (enumerate 0 ms)) =
     [0 ..< length ms]"
proof -
  have "map col_ordinal (map (\<lambda>(ordinal, meta). column_from_meta ordinal meta) (enumerate 0 ms)) =
      map fst (enumerate 0 ms)"
    by (simp add: case_prod_unfold column_from_meta_def o_def)
  then show ?thesis by (simp only: map_fst_enumerate) simp
qed

lemma from_table_result_row:
  assumes "r < length (rows t)"
  shows "row_values (from_table_result t ! r) = rows t ! r"
    and "length (row_columns (from_table_result t ! r)) = length (columns t)"
    and "i < length (columns t) \<Longrightarrow>
      row_columns (from_table_result t ! r) ! i = column_from_meta i (columns t ! i)"
    and "row_ok (from_table_result t ! r)"
  using assms columns_numbered [of "columns t"]
  by (simp_all add: from_table_result_def Let_def row_ok_def nth_enumerate_eq)

lemma length_from_table_result [simp]: "length (from_table_result t) = length (rows t)"
  by (simp add: from_table_result_def Let_def)

lemma row_ok_nth: "row_ok row \<Longrightarrow> k < length (row_columns row) \<Longrightarrow> col_ordinal (row_columns row ! k) = k"
  unfolding row_ok_def by (metis add.left_neutral length_map nth_map nth_upt)

section \<open>The contract of a column index\<close>

text \<open>
  An index yields a position inside the columns, or an error that leaves the row unread; the
  position is that of a column it names.
\<close>

locale column_index =
  fixes index :: "'i \<Rightarrow> monet_row \<Rightarrow> sqlx_error + nat"
    and names :: "'i \<Rightarrow> monet_column \<Rightarrow> bool"
  assumes index_in: "row_ok row \<Longrightarrow> index i row = Inr k \<Longrightarrow>
      k < length (row_columns row) \<and> names i (row_columns row ! k)"
begin

lemma try_get_raw_cases:
  assumes "row_ok row"
  shows "try_get_raw index i row =
    (case index i row of
       Inl e \<Rightarrow> Inl (Failed e)
     | Inr k \<Rightarrow>
         if length (row_values row) \<le> k then Inl (Panicked ''index out of bounds'')
         else Inr \<lparr>vr_data = row_values row ! k,
                vr_type_info = col_type_info (row_columns row ! k)\<rparr>)"
  using index_in [OF assms]
  by (auto simp: try_get_raw_def slice_at_def Let_def value_ref_new_def value_ref_null_def
      split: sum.splits option.splits)

lemma no_panic:
  "row_ok row \<Longrightarrow> length (row_columns row) \<le> length (row_values row) \<Longrightarrow>
     try_get_raw index i row \<noteq> Inl (Panicked p)"
  using index_in [of row i] by (auto simp: try_get_raw_cases split: sum.splits if_splits)

end

interpretation by_position: column_index index_usize "\<lambda>i c. col_ordinal c = i"
  by unfold_locales (auto simp: index_usize_def Let_def row_ok_nth split: if_splits)

lemma find_nth: "find P xs = Some x \<longleftrightarrow>
    (\<exists>k < length xs. xs ! k = x \<and> P x \<and> (\<forall>j < k. \<not> P (xs ! j)))"
  by (auto simp: find_Some_iff)

lemma index_str_Inr:
  assumes "row_ok row"
  shows "index_str n row = Inr k \<longleftrightarrow>
    k < length (row_columns row) \<and> col_name (row_columns row ! k) = n \<and>
    (\<forall>j < k. col_name (row_columns row ! j) \<noteq> n)"
  (is "_ \<longleftrightarrow> ?R k")
proof -
  have "index_str n row = Inr k \<longleftrightarrow>
      (\<exists>j. ?R j \<and> col_ordinal (row_columns row ! j) = k)"
    unfolding index_str_def column_methods ok_or_eq_Inr map_option_eq_Some find_nth by blast
  also have "\<dots> \<longleftrightarrow> (\<exists>j. ?R j \<and> j = k)"
    by (intro ex_cong1 conj_cong refl) (simp add: row_ok_nth [OF assms])
  finally show ?thesis by blast
qed

interpretation by_name: column_index index_str "\<lambda>n c. col_name c = n"
  by unfold_locales (simp add: index_str_Inr)

section \<open>Properties\<close>

lemma read_position:
  assumes "r < length (rows t)"
  shows "try_get_raw index_usize i (from_table_result t ! r) =
    (if length (columns t) \<le> i
     then Inl (Failed (ColumnIndexOutOfBounds i (length (columns t))))
     else if length (rows t ! r) \<le> i then Inl (Panicked ''index out of bounds'')
     else Inr \<lparr>vr_data = rows t ! r ! i,
            vr_type_info = monet_type_info_new (cm_type_name (columns t ! i))\<rparr>)"
  using from_table_result_row [OF assms]
    by_position.try_get_raw_cases [of "from_table_result t ! r" i]
  by (auto simp: index_usize_def Let_def column_from_meta_def)

text \<open>Reading column \<open>i\<close> of row \<open>r\<close> of a table gives the value at that place of the
  tuple, with the type of column \<open>i\<close>, and an error with both numbers for an index that is not
  a column. A tuple with fewer fields than the table has columns (the parser accepts one)
  makes the read panic, and nothing else does.\<close>

theorem row_access_by_position:
  assumes "r < length (rows t)"
  shows "try_get_raw index_usize i (from_table_result t ! r) =
    (if length (columns t) \<le> i
     then Inl (Failed (ColumnIndexOutOfBounds i (length (columns t))))
     else if length (rows t ! r) \<le> i then Inl (Panicked ''index out of bounds'')
     else Inr \<lparr>vr_data = rows t ! r ! i,
            vr_type_info = monet_type_info_new (cm_type_name (columns t ! i))\<rparr>)"
  by (rule read_position [OF assms])

definition two_columns :: table_result where
  "two_columns = \<lparr>query_id = 1, row_count = 2, declared_columns = 2, embedded_tuples = 2,
     columns = [column_meta_default\<lparr>cm_name := lit ''a'', cm_type_name := lit ''int''\<rparr>,
       column_meta_default\<lparr>cm_name := lit ''b'', cm_type_name := lit ''varchar''\<rparr>],
     rows = [[Some (lit ''7''), None], [Some (lit ''8'')]]\<rparr>"

theorem row_access_by_position_witness:
  "try_get_raw index_usize 1 (from_table_result two_columns ! 0) =
      Inr \<lparr>vr_data = None, vr_type_info = monet_type_info_new (lit ''varchar'')\<rparr> \<and>
   try_get_raw index_usize 1 (from_table_result two_columns ! 1) =
      Inl (Panicked ''index out of bounds'')"
  using row_access_by_position [of 0 two_columns 1] row_access_by_position [of 1 two_columns 1]
  by (simp add: two_columns_def)

lemma read_name:
  assumes "r < length (rows t)"
  shows "index_str n (from_table_result t ! r) = Inr i \<longleftrightarrow>
      i < length (columns t) \<and> cm_name (columns t ! i) = n \<and> (\<forall>j < i. cm_name (columns t ! j) \<noteq> n)"
    and "(\<exists>p. try_get_raw index_str n (from_table_result t ! r) = Inl (Panicked p)) \<longleftrightarrow>
      (\<exists>i. index_str n (from_table_result t ! r) = Inr i \<and> length (rows t ! r) \<le> i)"
proof -
  let ?row = "from_table_result t ! r"
  note row = from_table_result_row [OF assms]
  have name: "i < length (columns t) \<Longrightarrow> col_name (row_columns ?row ! i) = cm_name (columns t ! i)" for i
    using row(3) [of i] by (simp add: column_from_meta_def)
  show "index_str n ?row = Inr i \<longleftrightarrow>
      i < length (columns t) \<and> cm_name (columns t ! i) = n \<and> (\<forall>j < i. cm_name (columns t ! j) \<noteq> n)"
    using row(2,4) name by (auto simp: index_str_Inr)
  show "(\<exists>p. try_get_raw index_str n ?row = Inl (Panicked p)) \<longleftrightarrow>
      (\<exists>i. index_str n ?row = Inr i \<and> length (rows t ! r) \<le> i)"
    using by_name.try_get_raw_cases [OF row(4), of n] row(1) by (auto split: sum.splits)
qed

text \<open>Reading by name reads the first column of that name, as reading by
  its position does; a name no column has is an error, and no column after the first of a
  name can be read by it.\<close>

theorem row_access_by_name:
  assumes "r < length (rows t)"
  shows "try_get_raw index_str n (from_table_result t ! r) =
    (case find (\<lambda>i. cm_name (columns t ! i) = n) [0 ..< length (columns t)] of
       None \<Rightarrow> Inl (Failed (ColumnNotFound n))
     | Some i \<Rightarrow> try_get_raw index_usize i (from_table_result t ! r))"
proof -
  let ?row = "from_table_result t ! r" and ?n = "length (columns t)"
  note row = from_table_result_row [OF assms]
  have name: "i < ?n \<Longrightarrow> col_name (row_columns ?row ! i) = cm_name (columns t ! i)" for i
    using row(3) [of i] by (simp add: column_from_meta_def)
  show ?thesis
  proof (cases "find (\<lambda>i. cm_name (columns t ! i) = n) [0 ..< ?n]")
    case None
    then have "find (\<lambda>c. col_name c = n) (row_columns ?row) = None"
      using name row(2) by (auto simp: find_None_iff in_set_conv_nth)
    with None show ?thesis by (simp add: try_get_raw_def index_str_def)
  next
    case (Some i)
    then have "i < ?n" "cm_name (columns t ! i) = n" "\<forall>j < i. cm_name (columns t ! j) \<noteq> n"
      by (auto simp: find_nth)
    then have "index_str n ?row = Inr i"
      using row name by (simp add: index_str_Inr)
    moreover have "index_usize i ?row = Inr i"
      using \<open>i < ?n\<close> row by (simp add: index_usize_def)
    ultimately show ?thesis using Some by (simp add: try_get_raw_def)
  qed
qed

theorem row_access_by_name_witness:
  "try_get_raw index_str (lit ''b'') (from_table_result two_columns ! 0) =
      try_get_raw index_usize 1 (from_table_result two_columns ! 0)"
  using row_access_by_name [of 0 two_columns "lit ''b''"]
  by (simp add: two_columns_def upt_rec)

end
