(* ===== verification/Handshake.thy ===== *)
theory Handshake
  imports Driver_Error Utf8
begin

text \<open>
  The challenge/response handshake of MAPI version 9 (\<open>src/protocol/handshake.rs\<close>): reading the
  challenge, choosing the hash algorithm, hashing the password, the login line, the server's
  answer and the redirect it may name. The digest functions and \<open>hex::encode\<close> belong to other
  crates and are the fields of the record \<open>digests\<close>, an argument of what uses them.
\<close>

section \<open>The challenge\<close>

datatype endian = Big | Little

record challenge =
  salt :: rstr
  server_type :: rstr
  protocol_version :: rstr
  hashes :: "rstr list"
  server_endian :: endian
  server_hash :: rstr
  handshake_option_level :: "u8 option"

text \<open>The \<open>for extra in &fields[6..]\<close> loop: the last \<open>sql=\<close> field decides, also a malformed one.\<close>

primrec option_level :: "u8 option \<Rightarrow> rstr list \<Rightarrow> u8 option" where
  "option_level level [] = level"
| "option_level level (extra # extras) =
     option_level
       (case strip_prefix (lit ''sql='') extra of
          Some l \<Rightarrow> res_ok (parse_uint l)
        | None \<Rightarrow> level) extras"

definition parse_endian :: "rstr \<Rightarrow> monet_error + endian" where
  "parse_endian field =
     (if field = lit ''BIG'' then Inr Big
      else if field = lit ''LIT'' then Inr Little
      else Inl (Handshake [Lit ''unexpected endian field '', Dbg field, Lit '' in challenge'']))"

definition parse_challenge :: "rstr \<Rightarrow> monet_error + challenge" where
  "parse_challenge line =
     (let line = trim_end_matches (\<lambda>c. c = ch CHR '':'') line;
          fields = split_on (ch CHR '':'') line
      in if length fields < 6
         then Inl (Handshake [Lit ''challenge line has '', Num (length fields),
                Lit '' fields, expected at least 6: '', Dbg line])
         else if fields ! 2 \<noteq> lit ''9''
         then Inl (Handshake [Lit ''unsupported MAPI protocol version '', Dbg (fields ! 2),
                Lit ''; only \"9\" is supported''])
         else
           res_bind (parse_endian (fields ! 4)) (\<lambda>server_endian.
             Inr \<lparr>salt = fields ! 0, server_type = fields ! 1, protocol_version = fields ! 2,
                  hashes = split_on (ch CHR '','') (fields ! 3), server_endian = server_endian,
                  server_hash = fields ! 5,
                  handshake_option_level = option_level None (drop 6 fields)\<rparr>))"

section \<open>Password hashing\<close>

record digests =
  ripemd160 :: "u8 list \<Rightarrow> u8 list"
  sha512 :: "u8 list \<Rightarrow> u8 list"
  sha384 :: "u8 list \<Rightarrow> u8 list"
  sha256 :: "u8 list \<Rightarrow> u8 list"
  sha224 :: "u8 list \<Rightarrow> u8 list"
  sha1 :: "u8 list \<Rightarrow> u8 list"
  hex_encode :: "u8 list \<Rightarrow> rstr"

definition HASH_PRIORITY :: "rstr list" where
  "HASH_PRIORITY = map lit
     [''RIPEMD160'', ''SHA512'', ''SHA384'', ''SHA256'', ''SHA224'', ''SHA1'']"

definition select_hash_algorithm :: "rstr list \<Rightarrow> rstr option" where
  "select_hash_algorithm server_hashes =
     find (\<lambda>candidate. list_ex (\<lambda>h. h = candidate) server_hashes) HASH_PRIORITY"

definition hash_hex :: "digests \<Rightarrow> rstr \<Rightarrow> u8 list \<Rightarrow> rstr option" where
  "hash_hex d algorithm data =
     (if algorithm = lit ''RIPEMD160'' then Some (hex_encode d (ripemd160 d data))
      else if algorithm = lit ''SHA512'' then Some (hex_encode d (sha512 d data))
      else if algorithm = lit ''SHA384'' then Some (hex_encode d (sha384 d data))
      else if algorithm = lit ''SHA256'' then Some (hex_encode d (sha256 d data))
      else if algorithm = lit ''SHA224'' then Some (hex_encode d (sha224 d data))
      else if algorithm = lit ''SHA1'' then Some (hex_encode d (sha1 d data))
      else None)"

text \<open>The \<open>expect\<close> on the second hash is a panic of the model.\<close>

definition compute_password_hash ::
    "digests \<Rightarrow> challenge \<Rightarrow> rstr \<Rightarrow> monet_error fault + rstr \<times> rstr" where
  "compute_password_hash d challenge password =
     res_bind
       (ok_or (Failed (Handshake [Lit ''unsupported server_hash algorithm '',
           Dbg (server_hash challenge)]))
         (hash_hex d (server_hash challenge) (as_bytes password))) (\<lambda>prehashed.
     res_bind
       (ok_or (Failed (Handshake [Lit ''no mutually supported hash algorithm in server list '',
           DbgList (hashes challenge)]))
         (select_hash_algorithm (hashes challenge))) (\<lambda>algo.
     let combined = as_bytes prehashed @ as_bytes (salt challenge)
     in res_bind
          (ok_or (Panicked ''algo came from HASH_PRIORITY, hash_hex must support it'')
            (hash_hex d algo combined)) (\<lambda>response_hash.
        Inr (algo, response_hash))))"

section \<open>The login line\<close>

record handshake_options =
  auto_commit :: bool
  reply_size :: i64

definition handshake_options_default :: handshake_options where
  "handshake_options_default = \<lparr>auto_commit = True, reply_size = -1\<rparr>"

definition build_login_response ::
    "challenge \<Rightarrow> rstr \<Rightarrow> rstr \<Rightarrow> rstr \<Rightarrow> rstr \<Rightarrow> handshake_options \<Rightarrow> rstr" where
  "build_login_response challenge username password_algo password_hash_hex database options =
     (let parts =
            [lit ''BIG'', username, lit ''{'' @ password_algo @ lit ''}'' @ password_hash_hex,
             lit ''sql'', database, lit ''FILETRANS''];
          level = (case handshake_option_level challenge of Some l \<Rightarrow> l | None \<Rightarrow> 0);
          parts = (if 1 \<le> level
            then parts @ [lit ''auto_commit='' @ show_int (of_bool (auto_commit options))]
            else parts);
          parts = (if 2 \<le> level
            then parts @ [lit ''reply_size='' @ show_sint (reply_size options)] else parts);
          parts = (if 3 \<le> level then parts @ [lit ''size_header=1''] else parts)
      in join (lit '':'') parts @ lit '':'')"

section \<open>The server's answer\<close>

datatype login_response = LoginOk | LoginError message | LoginRedirect rstr

definition parse_login_response :: "rstr \<Rightarrow> login_response" where
  "parse_login_response line =
     (if line = [] \<or> line = lit ''=OK'' \<or> starts_with (lit ''#'') line then LoginOk
      else
        (case strip_prefix (lit ''!'') line of
           Some rest \<Rightarrow> LoginError [Disp rest]
         | None \<Rightarrow>
        (case strip_prefix (lit ''^'') line of
           Some rest \<Rightarrow> LoginRedirect rest
         | None \<Rightarrow> LoginError [Lit ''unexpected login response: '', Dbg line])))"

datatype redirect = LocalRetry | Reconnect rstr u16

definition parse_redirect :: "rstr \<Rightarrow> monet_error + redirect" where
  "parse_redirect target =
     (if contains (lit ''merovingian'') target then Inr LocalRetry
      else
        res_bind
          (ok_or (Handshake [Lit ''unrecognized redirect target: '', Dbg target])
            (strip_prefix (lit ''mapi:monetdb://'') target)) (\<lambda>rest.
        let host_port = hd (split_on (ch CHR ''/'') rest)
        in res_bind
             (ok_or (Handshake [Lit ''redirect target missing port: '', Dbg target])
               (rsplit_once (ch CHR '':'') host_port)) (\<lambda>(host, port_str).
           res_bind
             (map_err (\<lambda>_. Handshake [Lit ''invalid port in redirect: '', Dbg target])
               (parse_uint port_str)) (\<lambda>port.
           Inr (Reconnect host port)))))"

lemmas handshake_run [run_simps] = parse_endian_def parse_challenge_def HASH_PRIORITY_def
  select_hash_algorithm_def hash_hex_def compute_password_hash_def handshake_options_default_def
  build_login_response_def parse_login_response_def parse_redirect_def

section \<open>Reading the challenge\<close>

fun endian_text :: "endian \<Rightarrow> rstr" where
  "endian_text Big = lit ''BIG''"
| "endian_text Little = lit ''LIT''"

text \<open>The fields a server joins with colons to make the challenge line.\<close>

definition challenge_fields :: "challenge \<Rightarrow> rstr list \<Rightarrow> rstr list" where
  "challenge_fields c extras =
     [salt c, server_type c, protocol_version c, join [44] (hashes c),
      endian_text (server_endian c), server_hash c] @ extras"

lemma parse_endian_Inr: "parse_endian f = Inr e \<longleftrightarrow> f = endian_text e"
  by (cases e) (auto simp: parse_endian_def)

lemma split_when_last_Nil: "last (split_when P s) = [] \<Longrightarrow> s = [] \<or> P (last s)"
proof (cases s rule: rev_cases)
  case (snoc t c)
  assume "last (split_when P s) = []"
  then show ?thesis
  proof (induction s)
    case (Cons a s)
    show ?case
    proof (cases "s = []")
      case True
      with Cons.prems show ?thesis by (auto split: if_splits)
    next
      case False
      then have "last (split_when P s) = []"
        using Cons.prems by (cases "split_when P s") (auto split: if_splits)
      with Cons.IH False show ?thesis by simp
    qed
  qed simp
qed simp

lemma trim_end_join:
  assumes "fs \<noteq> []" "last fs \<noteq> []" "d \<notin> set (last fs)"
  shows "trim_end_matches (\<lambda>c. c = d) (join [d] fs @ replicate n d) = join [d] fs"
proof -
  have "trim_end_matches (\<lambda>c. c = d) (s @ replicate n d) = trim_end_matches (\<lambda>c. c = d) s" for s
  proof (induction n)
    case (Suc n)
    then show ?case
      using trim_end_matches_snoc [of "\<lambda>c. c = d" d "s @ replicate n d"]
      by (simp add: replicate_append_same [symmetric])
  qed simp
  moreover have "join [d] fs \<noteq> [] \<and> last (join [d] fs) = last (last fs)"
    using assms
  proof (induction "[d]" fs rule: join.induct)
    case (3 p q ps)
    then show ?case by (auto split: if_splits)
  qed auto
  moreover from assms have "last (last fs) \<noteq> d" by (metis last_in_set)
  ultimately show ?thesis by (simp add: trim_end_matches_stop)
qed

lemma nth_six: "length fs \<ge> 6 \<Longrightarrow>
  fs = [fs ! 0, fs ! 1, fs ! 2, fs ! 3, fs ! 4, fs ! 5] @ drop 6 fs"
  by (rule nth_equalityI) (auto simp: nth_Cons eval_nat_numeral split: nat.splits)

text \<open>A line that is the text of a challenge, with \<open>extras\<close> fields and \<open>n\<close> more colons.\<close>

definition is_challenge :: "challenge \<Rightarrow> rstr \<Rightarrow> rstr list \<Rightarrow> nat \<Rightarrow> bool" where
  "is_challenge c line extras n \<longleftrightarrow>
     line = join [58] (challenge_fields c extras) @ replicate n 58 \<and>
     protocol_version c = lit ''9'' \<and> hashes c \<noteq> [] \<and>
     list_all (\<lambda>h. 44 \<notin> set h) (hashes c) \<and>
     list_all (\<lambda>f. 58 \<notin> set f) (challenge_fields c extras) \<and>
     last (challenge_fields c extras) \<noteq> [] \<and>
     handshake_option_level c = option_level None extras"

lemma challenge_read:
  assumes p: "parse_challenge line = Inr c"
  shows "\<exists>extras n. is_challenge c line extras n"
proof -
  let ?line = "trim_end_matches (\<lambda>c. c = 58) line"
  let ?fs = "split_on 58 ?line"
  from p have len: "6 \<le> length ?fs" and v: "?fs ! 2 = lit ''9''"
    by (auto simp: parse_challenge_def Let_def split: if_splits)
  with p have c: "?fs ! 4 = endian_text (server_endian c)"
    "salt c = ?fs ! 0" "server_type c = ?fs ! 1" "protocol_version c = ?fs ! 2"
    "hashes c = split_on 44 (?fs ! 3)" "server_hash c = ?fs ! 5"
    "handshake_option_level c = option_level None (drop 6 ?fs)"
    by (auto simp: parse_challenge_def Let_def res_simps parse_endian_Inr)
  then have fs: "challenge_fields c (drop 6 ?fs) = ?fs"
    using nth_six [OF len] by (simp add: challenge_fields_def join_split_on)
  obtain t where t: "line = ?line @ t" "\<forall>c \<in> set t. c = 58"
    using trim_end_matches_prefix [of line] by blast
  then have "t = replicate (length t) 58" by (simp add: replicate_eqI)
  with t have "line = join [58] ?fs @ replicate (length t) 58" by (simp add: join_split_on)
  moreover have "last ?fs \<noteq> []"
    using split_when_last_Nil [of "\<lambda>c. c = 58" ?line] trim_end_matches_trimmed [of "\<lambda>c. c = 58" line]
      len by auto
  moreover have "list_all (\<lambda>f. 58 \<notin> set f) ?fs" "list_all (\<lambda>h. 44 \<notin> set h) (hashes c)"
    unfolding c(5) using split_when_pieces by (fastforce simp: list_all_iff)+
  ultimately have "is_challenge c line (drop 6 ?fs) (length t)"
    using c v unfolding is_challenge_def fs by simp
  then show ?thesis by blast
qed

lemma challenge_accepted:
  assumes "is_challenge c line extras n"
  shows "parse_challenge line = Inr c"
proof -
  note P = assms [unfolded is_challenge_def]
  let ?fs = "challenge_fields c extras"
  have "split_on 58 (trim_end_matches (\<lambda>c. c = 58) line) = ?fs"
  proof -
    have ne: "?fs \<noteq> []" by (simp add: challenge_fields_def)
    from P have "list_all (\<lambda>f. 58 \<notin> set f) ?fs" by blast
    then have colon: "\<And>f. f \<in> set ?fs \<Longrightarrow> 58 \<notin> set f" by (auto simp: list_all_iff)
    from P have "last ?fs \<noteq> []" "line = join [58] ?fs @ replicate n 58" by blast+
    then have "trim_end_matches (\<lambda>c. c = 58) line = join [58] ?fs"
      using trim_end_join [OF ne, of 58 n] colon ne by simp
    with split_on_join [OF ne colon] show ?thesis by simp
  qed
  moreover have "length ?fs \<ge> 6" "?fs ! 0 = salt c" "?fs ! 1 = server_type c"
    "?fs ! 2 = protocol_version c" "?fs ! 3 = join [44] (hashes c)"
    "?fs ! 4 = endian_text (server_endian c)" "?fs ! 5 = server_hash c" "drop 6 ?fs = extras"
    by (simp_all add: challenge_fields_def)
  moreover have "split_on 44 (join [44] (hashes c)) = hashes c"
    using P by (intro split_on_join) (auto simp: list_all_iff)
  moreover have "parse_endian (endian_text e) = Inr e" for e by (simp add: parse_endian_Inr)
  ultimately show ?thesis
    using P by (simp add: parse_challenge_def Let_def)
qed

text \<open>C28: Reading the challenge accepts exactly the lines of the protocol:
  \<open>parse_challenge\<close> returns a challenge iff the line is its fields joined by colons, with any
  number of colons after them, of version 9, with a nonempty list of hash names and a byte
  order spelled \<open>BIG\<close> or \<open>LIT\<close>, where no field holds a colon and the last is not empty; the
  option level is the one the further fields give.\<close>

theorem parse_challenge_exact:
  "parse_challenge line = Inr c \<longleftrightarrow>
    (\<exists>extras n. line = join [58] (challenge_fields c extras) @ replicate n 58 \<and>
      protocol_version c = lit ''9'' \<and> hashes c \<noteq> [] \<and>
      list_all (\<lambda>h. 44 \<notin> set h) (hashes c) \<and>
      list_all (\<lambda>f. 58 \<notin> set f) (challenge_fields c extras) \<and>
      last (challenge_fields c extras) \<noteq> [] \<and>
      handshake_option_level c = option_level None extras)"
  using challenge_read challenge_accepted unfolding is_challenge_def by blast

section \<open>Hashing\<close>

lemma find_first: "find P xs = Some a \<longleftrightarrow>
  (\<exists>before after. xs = before @ a # after \<and> P a \<and> list_all (\<lambda>b. \<not> P b) before)"
proof
  assume "find P xs = Some a"
  then show "\<exists>before after. xs = before @ a # after \<and> P a \<and> list_all (\<lambda>b. \<not> P b) before"
  proof (induction xs)
    case (Cons x xs)
    show ?case
    proof (cases "P x")
      case True
      with Cons.prems have "x # xs = [] @ a # xs \<and> P a \<and> list_all (\<lambda>b. \<not> P b) []" by simp
      then show ?thesis by blast
    next
      case False
      with Cons obtain before after where
        "xs = before @ a # after" "P a" "list_all (\<lambda>b. \<not> P b) before" by auto
      with False have "x # xs = (x # before) @ a # after \<and> P a \<and>
        list_all (\<lambda>b. \<not> P b) (x # before)" by simp
      then show ?thesis by blast
    qed
  qed simp
next
  assume "\<exists>before after. xs = before @ a # after \<and> P a \<and> list_all (\<lambda>b. \<not> P b) before"
  then obtain before after where
    "xs = before @ a # after" "P a" "list_all (\<lambda>b. \<not> P b) before" by blast
  then show "find P xs = Some a" by (induction before arbitrary: xs) auto
qed

lemma hash_hex_supported: "hash_hex d a x \<noteq> None \<longleftrightarrow> a \<in> set HASH_PRIORITY"
  by (simp add: hash_hex_def HASH_PRIORITY_def)

text \<open>The chosen algorithm is the first of the driver's list the server
  offers: it is offered, it is one the driver can compute, and nothing before it in the list is
  offered; there is none exactly when the server offers none of the six.\<close>

theorem select_hash_priority:
  "(select_hash_algorithm server_hashes = Some a \<longleftrightarrow>
     (\<exists>before after. HASH_PRIORITY = before @ a # after \<and> a \<in> set server_hashes \<and>
       set before \<inter> set server_hashes = {})) \<and>
   (select_hash_algorithm server_hashes = None \<longleftrightarrow>
     set HASH_PRIORITY \<inter> set server_hashes = {})"
proof -
  have "(\<lambda>candidate. list_ex (\<lambda>h. h = candidate) server_hashes) = (\<lambda>c. c \<in> set server_hashes)"
    by (auto simp: list_ex_iff)
  then have s: "select_hash_algorithm server_hashes = find (\<lambda>c. c \<in> set server_hashes) HASH_PRIORITY"
    by (simp add: select_hash_algorithm_def)
  show ?thesis unfolding s find_first find_None_iff by (auto simp: list_all_iff)
qed

lemma select_hash_supported:
  "select_hash_algorithm hs = Some a \<Longrightarrow> a \<in> set HASH_PRIORITY"
  by (auto simp: select_hash_algorithm_def find_Some_iff)

text \<open>The two-level hash, for any digest functions: it never
  panics. It succeeds iff the server's own algorithm is one of the six and some algorithm is
  shared, and then it is the digest, with the chosen algorithm, of the hexadecimal digest of
  the password followed by the salt.\<close>

theorem compute_password_hash_exact:
  "compute_password_hash d c password \<noteq> Inl (Panicked p) \<and>
   (compute_password_hash d c password = Inr (algo, h) \<longleftrightarrow>
     select_hash_algorithm (hashes c) = Some algo \<and>
     (\<exists>pre. hash_hex d (server_hash c) (as_bytes password) = Some pre \<and>
       hash_hex d algo (as_bytes (pre @ salt c)) = Some h)) \<and>
   ((\<exists>r. compute_password_hash d c password = Inr r) \<longleftrightarrow>
     server_hash c \<in> set HASH_PRIORITY \<and> (\<exists>a. select_hash_algorithm (hashes c) = Some a))"
proof -
  have second: "\<exists>y. hash_hex d algo x = Some y" if "select_hash_algorithm (hashes c) = Some algo"
    for algo x
    using select_hash_supported [OF that] hash_hex_supported [of d algo x] by auto
  have first: "server_hash c \<notin> set HASH_PRIORITY \<longleftrightarrow> hash_hex d (server_hash c) x = None" for x
    using hash_hex_supported [of d "server_hash c" x] by auto
  show ?thesis
  proof (cases "hash_hex d (server_hash c) (as_bytes password)")
    case None
    then show ?thesis
      by (simp add: compute_password_hash_def first [of "as_bytes password"])
  next
    case (Some pre)
    then have supported: "server_hash c \<in> set HASH_PRIORITY"
      using first [of "as_bytes password"] by auto
    show ?thesis
    proof (cases "select_hash_algorithm (hashes c)")
      case None
      with Some show ?thesis by (simp add: compute_password_hash_def)
    next
      case a: (Some a)
      then obtain y where "hash_hex d a (as_bytes (pre @ salt c)) = Some y" using second by blast
      with a Some supported show ?thesis
        by (auto simp: compute_password_hash_def Let_def as_bytes_append)
    qed
  qed
qed

section \<open>The login line\<close>

text \<open>The option fields, of which the server's level says how many it understands.\<close>

definition option_fields :: "handshake_options \<Rightarrow> rstr list" where
  "option_fields options =
     [lit ''auto_commit='' @ show_int (of_bool (auto_commit options)),
      lit ''reply_size='' @ show_sint (reply_size options), lit ''size_header=1'']"

lemma build_login_response_join:
  "build_login_response c user algo h db options =
     join [58] ([lit ''BIG'', user, lit ''{'' @ algo @ lit ''}'' @ h, lit ''sql'', db,
       lit ''FILETRANS'']
       @ take (case handshake_option_level c of None \<Rightarrow> 0 | Some l \<Rightarrow> unat l) (option_fields options)
       @ [[]])"
proof -
  have joined: "join [58] ps @ [58] = join [58] (ps @ [[]])" if "ps \<noteq> []" for ps
    using that by (induction "[58 :: nat]" ps rule: join.induct) auto
  define l where "l = (case handshake_option_level c of Some l \<Rightarrow> l | None \<Rightarrow> 0)"
  define n where "n = unat l"
  have n: "(case handshake_option_level c of None \<Rightarrow> 0 | Some l \<Rightarrow> unat l) = n"
    by (simp add: n_def l_def split: option.splits)
  have levels: "1 \<le> l \<longleftrightarrow> 1 \<le> n" "2 \<le> l \<longleftrightarrow> 2 \<le> n" "3 \<le> l \<longleftrightarrow> 3 \<le> n"
    by (simp_all add: n_def word_le_nat_alt)
  consider "n = 0" | "n = 1" | "n = 2" | "3 \<le> n" by linarith
  then show ?thesis
    unfolding build_login_response_def Let_def l_def [symmetric] levels n
    by cases (simp_all add: option_fields_def joined [symmetric])
qed

lemma option_fields_no_colon: "f \<in> set (option_fields options) \<Longrightarrow> 58 \<notin> set f"
  by (auto simp: option_fields_def show_sint_def dest: show_int_chars)
    (auto simp: is_digit_def dest: show_int_chars)

text \<open>A server that cuts the login line at its colons finds the byte
  order, the user, the hash with its algorithm in braces, the language \<open>sql\<close>, the database and
  \<open>FILETRANS\<close>, then exactly as many options as its level announced (at most three), and a
  final empty field, for every user, database and hash that holds no colon.\<close>

lemma login_line_fields:
  assumes "58 \<notin> set user" "58 \<notin> set algo" "58 \<notin> set h" "58 \<notin> set db"
  shows "split_on 58 (build_login_response c user algo h db options) =
    [lit ''BIG'', user, lit ''{'' @ algo @ lit ''}'' @ h, lit ''sql'', db, lit ''FILETRANS'']
    @ take (case handshake_option_level c of None \<Rightarrow> 0 | Some l \<Rightarrow> unat l) (option_fields options)
    @ [[]]"
  unfolding build_login_response_join
  using assms option_fields_no_colon
  by (intro split_on_join) (auto dest: in_set_takeD)

definition sample_challenge :: challenge where
  "sample_challenge =
     \<lparr>salt = lit ''s7NzFDHo0UdlE'', server_type = lit ''mserver'', protocol_version = lit ''9'',
      hashes = [lit ''SHA256'', lit ''SHA1''], server_endian = Little,
      server_hash = lit ''SHA512'', handshake_option_level = Some 6\<rparr>"

section \<open>Redirects\<close>

lemma hd_split_on: "hd (split_on d s) = takeWhile (\<lambda>c. c \<noteq> d) s"
proof (induction s)
  case (Cons a s)
  then show ?case by (cases "split_on d s") auto
qed simp

lemma takeWhile_path:
  "d \<notin> set p \<Longrightarrow> path = [] \<or> hd path = d \<Longrightarrow> takeWhile (\<lambda>c. c \<noteq> d) (p @ path) = p"
  by (induction p) (cases path, auto)

text \<open>The host and the port of a target, as they are cut out of it.\<close>

lemma authority_parts:
  "(\<exists>rest digits. strip_prefix (lit ''mapi:monetdb://'') target = Some rest \<and>
      rsplit_once 58 (takeWhile (\<lambda>c. c \<noteq> 47) rest) = Some (host, digits) \<and>
      parse_uint digits = Inr port) \<longleftrightarrow>
   (\<exists>digits path. target = lit ''mapi:monetdb://'' @ host @ 58 # digits @ path \<and>
      47 \<notin> set (host @ digits) \<and> 58 \<notin> set digits \<and> parse_uint digits = Inr port \<and>
      (path = [] \<or> hd path = 47))" (is "?L \<longleftrightarrow> ?R")
proof
  assume ?L
  then obtain rest digits where r: "target = lit ''mapi:monetdb://'' @ rest"
    "rsplit_once 58 (takeWhile (\<lambda>c. c \<noteq> 47) rest) = Some (host, digits)"
    "parse_uint digits = Inr port" by (auto simp only: strip_prefix_Some)
  from rsplit_once_Some [OF r(2)] have hp: "takeWhile (\<lambda>c. c \<noteq> 47) rest = host @ 58 # digits"
    "58 \<notin> set digits" by auto
  have "47 \<notin> set (takeWhile (\<lambda>c. c \<noteq> 47) rest)" using set_takeWhileD by fastforce
  then have slash: "47 \<notin> set (host @ digits)" unfolding hp by simp
  define path where "path = dropWhile (\<lambda>c. c \<noteq> 47) rest"
  have "rest = host @ 58 # digits @ path"
    using takeWhile_dropWhile_id [of "\<lambda>c. c \<noteq> 47" rest] unfolding hp path_def by simp
  then have "target = lit ''mapi:monetdb://'' @ host @ 58 # digits @ path"
    using r(1) by (simp only:)
  moreover have "path = [] \<or> hd path = 47"
    using hd_dropWhile [of "\<lambda>c. c \<noteq> 47" rest] unfolding path_def by blast
  ultimately show ?R using r(3) hp(2) slash by blast
next
  assume ?R
  then obtain digits path where t: "target = lit ''mapi:monetdb://'' @ host @ 58 # digits @ path"
    "47 \<notin> set (host @ digits)" "58 \<notin> set digits" "parse_uint digits = Inr port"
    "path = [] \<or> hd path = 47" by blast
  have "takeWhile (\<lambda>c. c \<noteq> 47) ((host @ 58 # digits) @ path) = host @ 58 # digits"
    using t by (intro takeWhile_path) auto
  with t show ?L by (simp only: strip_prefix_append) (simp add: rsplit_once_append)
qed

text \<open>C33: A redirect names another server exactly when it is
  \<open>mapi:monetdb://\<close>, a host, a colon, a port that is a 16-bit number and then nothing or a path;
  the host is everything before the last colon, so an address with colons is kept whole. The
  retry on the same connection is chosen for every target that has \<open>merovingian\<close> anywhere in
  it, a \<open>mapi:monetdb\<close> target whose host or path holds that word included.\<close>

theorem parse_redirect_exact:
  "(parse_redirect target = Inr LocalRetry \<longleftrightarrow>
      (\<exists>a b. target = a @ lit ''merovingian'' @ b)) \<and>
   (parse_redirect target = Inr (Reconnect host port) \<longleftrightarrow>
      \<not> contains (lit ''merovingian'') target \<and>
      (\<exists>digits path. target = lit ''mapi:monetdb://'' @ host @ 58 # digits @ path \<and>
        47 \<notin> set (host @ digits) \<and> 58 \<notin> set digits \<and> parse_uint digits = Inr port \<and>
        (path = [] \<or> hd path = 47)))"
proof (cases "contains (lit ''merovingian'') target")
  case True
  then have "parse_redirect target = Inr LocalRetry" by (simp only: parse_redirect_def if_True)
  with True show ?thesis by (simp only: contains_iff) simp
next
  case no: False
  have "parse_redirect target = Inr (Reconnect host port) \<longleftrightarrow>
    (\<exists>rest digits. strip_prefix (lit ''mapi:monetdb://'') target = Some rest \<and>
      rsplit_once 58 (takeWhile (\<lambda>c. c \<noteq> 47) rest) = Some (host, digits) \<and>
      parse_uint digits = Inr port)"
    using no unfolding parse_redirect_def Let_def hd_split_on
    by (simp only: if_False) (auto simp: res_simps simp del: lit.simps)
  also have "\<dots> \<longleftrightarrow> (\<exists>digits path. target = lit ''mapi:monetdb://'' @ host @ 58 # digits @ path \<and>
        47 \<notin> set (host @ digits) \<and> 58 \<notin> set digits \<and> parse_uint digits = Inr port \<and>
        (path = [] \<or> hd path = 47))"
    by (rule authority_parts)
  finally have "parse_redirect target = Inr (Reconnect host port) \<longleftrightarrow> \<dots>" .
  moreover have "parse_redirect target \<noteq> Inr LocalRetry"
    unfolding parse_redirect_def using no
    by (simp only: if_False) (auto simp: res_simps Let_def simp del: lit.simps)
  ultimately show ?thesis using no by (simp only: contains_iff) simp
qed

end
