(* ===== verification/Framing.thy ===== *)
theory Framing
  imports Prelude
begin

text \<open>
  MAPI block framing (\<open>src/protocol/framing.rs\<close>): the two-byte block header, the encoder that
  cuts a message into blocks and the decoder that reassembles it from a buffer. The relation
  \<open>framed\<close> says what a sequence of blocks is; the decoder accepts exactly the sequences it
  describes, and the encoder writes one. The locale \<open>message_codec\<close> is the contract the
  transport relies on, with the framing functions as its instance.
\<close>

unbundle bit_operations_syntax

section \<open>The header\<close>

definition MAX_BLOCK_PAYLOAD :: nat where
  "MAX_BLOCK_PAYLOAD = 8 * 1024 - 2"

definition to_le_bytes :: "u16 \<Rightarrow> u8 \<times> u8" where
  "to_le_bytes w = (ucast w, ucast (drop_bit 8 w))"

definition from_le_bytes :: "u8 \<times> u8 \<Rightarrow> u16" where
  "from_le_bytes b = ucast (fst b) OR push_bit 8 (ucast (snd b))"

text \<open>
  \<open>payload_len as u16\<close> truncates. The \<open>debug_assert!\<close> on the length has no effect in a release
  build; \<open>encode_message_layout\<close> below shows that every call respects it.
\<close>

definition encode_header :: "nat \<Rightarrow> bool \<Rightarrow> u8 \<times> u8" where
  "encode_header payload_len is_last =
     to_le_bytes (push_bit 1 (word_of_nat payload_len) OR (if is_last then 1 else 0))"

definition decode_header :: "u8 \<times> u8 \<Rightarrow> nat \<times> bool" where
  "decode_header bytes =
     (let header = from_le_bytes bytes
      in (unat (drop_bit 1 header), header AND 1 = 1))"

section \<open>Encoding\<close>

text \<open>\<open>payload.chunks(n)\<close>, for \<open>n\<close> at least 1.\<close>

function chunks :: "nat \<Rightarrow> 'a list \<Rightarrow> 'a list list" where
  "chunks n xs = (if xs = [] \<or> n = 0 then [] else take n xs # chunks n (drop n xs))"
  by pat_completeness auto
termination
  by (relation "measure (\<lambda>(n, xs). length xs)") auto

declare chunks.simps [simp del]

abbreviation bytes_of :: "u8 \<times> u8 \<Rightarrow> u8 list" where
  "bytes_of b \<equiv> [fst b, snd b]"

text \<open>The \<open>while let\<close> loop over the peekable chunks: the block is last if no chunk follows.\<close>

fun encode_chunks :: "u8 list list \<Rightarrow> u8 list \<Rightarrow> u8 list" where
  "encode_chunks [] out = out"
| "encode_chunks (chunk # rest) out =
     encode_chunks rest (out @ bytes_of (encode_header (length chunk) (rest = [])) @ chunk)"

definition encode_message :: "u8 list \<Rightarrow> u8 list \<Rightarrow> u8 list" where
  "encode_message payload out =
     (if payload = [] then out @ bytes_of (encode_header 0 True)
      else encode_chunks (chunks MAX_BLOCK_PAYLOAD payload) out)"

section \<open>Decoding\<close>

function decode_loop :: "u8 list \<Rightarrow> nat \<Rightarrow> u8 list \<Rightarrow> (u8 list \<times> nat) option" where
  "decode_loop data offset message =
     (if length data < offset + 2 then None
      else
        let (len, is_last) = decode_header (data ! offset, data ! (offset + 1));
            offset = offset + 2
        in if length data < offset + len then None
           else
             let message = message @ take len (drop offset data);
                 offset = offset + len
             in if is_last then Some (message, offset)
                else decode_loop data offset message)"
  by pat_completeness auto
termination
  by (relation "measure (\<lambda>(data, offset, message). length data - offset)") auto

declare decode_loop.simps [simp del]

definition decode_message :: "u8 list \<Rightarrow> (u8 list \<times> nat) option" where
  "decode_message data = decode_loop data 0 []"

section \<open>The header round trips\<close>

lemma from_to_le_bytes [wire_simps]: "from_le_bytes (to_le_bytes w) = w"
  unfolding from_le_bytes_def to_le_bytes_def
  by (rule bit_word_eqI) (auto simp: bit_simps)

lemma to_from_le_bytes [wire_simps]: "to_le_bytes (from_le_bytes b) = b"
proof (cases b)
  case (Pair x y)
  have "\<not> bit x (8 + n)" for n using bit_imp_le_length [of x "8 + n"] by auto
  with Pair show ?thesis
    unfolding from_le_bytes_def to_le_bytes_def
    by (auto intro!: bit_word_eqI simp: bit_simps)
qed

lemma header_value:
  "n < 32768 \<Longrightarrow>
   unat (push_bit 1 (word_of_nat n :: u16) OR (if l then 1 else 0)) = 2 * n + of_bool l"
proof -
  assume n: "n < 32768"
  have p: "push_bit 1 (word_of_nat n :: u16) = word_of_nat (2 * n)"
    by (simp add: push_bit_eq_mult mult.commute)
  have u: "unat (word_of_nat (2 * n) :: u16) = 2 * n"
    using n by (simp only: unat_of_nat) simp
  show ?thesis
  proof (cases l)
    case True
    have "push_bit 1 (word_of_nat n :: u16) OR 1 = word_of_nat (2 * n) + 1"
      by (simp add: p or_one_eq)
    also have "\<dots> = word_of_nat (2 * n + 1)" by simp
    finally have "push_bit 1 (word_of_nat n :: u16) OR 1 = word_of_nat (2 * n + 1)" .
    then have "unat (push_bit 1 (word_of_nat n :: u16) OR 1) = (2 * n + 1) mod 65536"
      by (simp only: unat_of_nat) simp
    with True n show ?thesis by simp
  next
    case False
    then show ?thesis using u p by (simp only: if_False or.right_neutral) simp
  qed
qed

lemma decode_encode_header [wire_simps]:
  assumes "n < 32768"
  shows "decode_header (encode_header n l) = (n, l)"
proof -
  define h :: u16 where "h = push_bit 1 (word_of_nat n) OR (if l then 1 else 0)"
  have h: "unat h = 2 * n + of_bool l" using header_value [OF assms] by (simp add: h_def)
  have "unat (drop_bit 1 h) = n"
    unfolding unat_drop_bit_eq h by (simp add: drop_bit_eq_div)
  moreover have "h AND 1 = 1 \<longleftrightarrow> l"
  proof -
    have "odd h \<longleftrightarrow> odd (unat h)"
      using bit_unsigned_iff [of h 0, where ?'a = nat] by (simp add: bit_0)
    with h show ?thesis by (simp add: and_one_eq mod_2_eq_odd)
  qed
  ultimately show ?thesis
    by (simp add: decode_header_def encode_header_def from_to_le_bytes h_def Let_def)
qed

lemma decode_header_bound: "fst (decode_header b) < 32768"
proof -
  have "unat (drop_bit 1 (from_le_bytes b)) = unat (from_le_bytes b) div 2"
    unfolding unat_drop_bit_eq by (simp add: drop_bit_eq_div)
  moreover have "unat (from_le_bytes b) < 65536"
    using unsigned_less [of "from_le_bytes b", where ?'a = nat] by simp
  ultimately show ?thesis by (simp add: decode_header_def Let_def)
qed

section \<open>Sequences of blocks\<close>

text \<open>
  \<open>framed m bs\<close>: the bytes \<open>bs\<close> are blocks whose payloads together are \<open>m\<close>, the last one
  marked and no other. A header has 15 bits for the length, so this is the whole wire format,
  of which the encoder uses the blocks of at most \<open>MAX_BLOCK_PAYLOAD\<close> bytes.
\<close>

inductive framed :: "u8 list \<Rightarrow> u8 list \<Rightarrow> bool" where
  framed_last: "length c < 32768 \<Longrightarrow> framed c (bytes_of (encode_header (length c) True) @ c)"
| framed_more: "length c < 32768 \<Longrightarrow> framed m bs \<Longrightarrow>
     framed (c @ m) (bytes_of (encode_header (length c) False) @ c @ bs)"

lemma decode_loop_shift:
  "off \<le> length data \<Longrightarrow>
   decode_loop data off msg = map_option (\<lambda>(m, k). (msg @ m, off + k)) (decode_message (drop off data))"
proof (induction "length data - off" arbitrary: data off msg rule: less_induct)
  case less
  let ?d = "drop off data"
  show ?case
  proof (cases "length data < off + 2")
    case True
    then show ?thesis
      by (simp add: decode_message_def decode_loop.simps [of data] decode_loop.simps [of ?d])
  next
    case False
    obtain len fin where hdr: "decode_header (data ! off, data ! (off + 1)) = (len, fin)"
      by (cases "decode_header (data ! off, data ! (off + 1))") auto
    show ?thesis
    proof (cases "off + 2 + len \<le> length data \<and> \<not> fin")
      case True
      let ?off = "off + 2 + len" and ?p = "take len (drop (off + 2) data)"
      have "decode_loop data ?off (msg @ ?p) =
          map_option (\<lambda>(m, k). ((msg @ ?p) @ m, ?off + k)) (decode_message (drop ?off data))"
        using False True by (intro less) auto
      moreover have "decode_loop ?d (2 + len) ?p =
          map_option (\<lambda>(m, k). (?p @ m, 2 + len + k)) (decode_message (drop (2 + len) ?d))"
        using False True by (intro less) auto
      moreover have "\<not> length data - off < 2 + len" "\<not> fin" using True by auto
      ultimately show ?thesis using False True hdr
        by (simp add: decode_message_def [of ?d] decode_loop.simps [of data off]
            decode_loop.simps [of ?d 0] add.commute add.left_commute option.map_comp comp_def
            case_prod_unfold Let_def)
    next
      case f: False
      with False hdr show ?thesis
        by (auto simp: decode_message_def decode_loop.simps [of data] decode_loop.simps [of ?d]
            add.commute)
    qed
  qed
qed

text \<open>One block of the buffer at a time: what a reader of the wire sees.\<close>

lemma decode_message_short: "length d < 2 \<Longrightarrow> decode_message d = None"
  by (simp add: decode_message_def decode_loop.simps)

lemma decode_message_block [wire_simps]:
  "decode_message (a # b # r) =
    (case decode_header (a, b) of (len, fin) \<Rightarrow>
       if length r < len then None
       else if fin then Some (take len r, 2 + len)
       else map_option (\<lambda>(m, k). (take len r @ m, 2 + len + k)) (decode_message (drop len r)))"
  by (cases "decode_header (a, b)")
    (simp add: decode_message_def [of "a # b # r"] decode_loop.simps [of "a # b # r" 0]
      decode_loop_shift)

lemma decode_message_framed:
  "framed m bs \<Longrightarrow> decode_message (bs @ rest) = Some (m, length bs)"
  by (induction rule: framed.induct) (simp_all add: decode_message_block decode_encode_header)

lemma unat_16_split: "unat (h :: u16) = 2 * unat (drop_bit 1 h) + of_bool (h AND 1 = 1)"
proof -
  have "odd h \<longleftrightarrow> odd (unat h)"
    using bit_unsigned_iff [of h 0, where ?'a = nat] by (simp add: bit_0)
  moreover have "unat (drop_bit 1 h) = unat h div 2"
    unfolding unat_drop_bit_eq by (simp add: drop_bit_eq_div)
  ultimately show ?thesis by (simp add: and_one_eq mod_2_eq_odd)
qed

lemma encode_decode_header: "decode_header b = (n, l) \<Longrightarrow> encode_header n l = b"
proof -
  assume d: "decode_header b = (n, l)"
  then have "unat (from_le_bytes b) = 2 * n + of_bool l"
    using unat_16_split [of "from_le_bytes b"] by (auto simp: decode_header_def Let_def)
  then have "push_bit 1 (word_of_nat n) OR (if l then 1 else 0) = from_le_bytes b"
    using header_value [of n l] decode_header_bound [of b] d by (simp only: word_eq_iff_unsigned [where ?'a = nat]) simp
  then show ?thesis by (simp only: encode_header_def to_from_le_bytes)
qed

lemma framed_decode_message:
  "decode_message d = Some (m, k) \<Longrightarrow> k \<le> length d \<and> framed m (take k d)"
proof (induction "length d" arbitrary: d m k rule: less_induct)
  case less
  then have "\<not> length d < 2" using decode_message_short by fastforce
  then obtain a b r where d: "d = a # b # r" by (metis length_Cons list.exhaust list.size(3)
      less_2_cases_iff not_less_eq One_nat_def numeral_2_eq_2 zero_less_Suc)
  obtain len fin where hdr: "decode_header (a, b) = (len, fin)" by fastforce
  then have len: "len < 32768" "(a, b) = encode_header len fin"
    using decode_header_bound [of "(a, b)"] encode_decode_header by auto
  from len have hb: "bytes_of (encode_header len fin) = [a, b]" by (simp flip: len(2))
  have r: "len \<le> length r" using less.prems d hdr by (auto simp: decode_message_block split: if_splits)
  show ?case
  proof (cases fin)
    case True
    have "framed (take len r) (bytes_of (encode_header (length (take len r)) True) @ take len r)"
      using len r by (intro framed_last) auto
    with True less.prems d hdr hb r show ?thesis
      by (simp add: decode_message_block min_absorb2) auto
  next
    case False
    with less.prems d hdr r obtain m' k' where rec: "decode_message (drop len r) = Some (m', k')"
      and m: "m = take len r @ m'" "k = 2 + len + k'"
      by (auto simp: decode_message_block)
    from less.hyps [OF _ rec] d have fr: "k' \<le> length r - len" "framed m' (take k' (drop len r))"
      by auto
    have "framed (take len r @ m')
        (bytes_of (encode_header (length (take len r)) False) @ take len r @ take k' (drop len r))"
      using len r fr by (intro framed_more) auto
    with False d r fr m hb show ?thesis
      by (simp add: min_absorb2 take_add)
  qed
qed

lemma decode_message_iff_framed:
  "decode_message d = Some (m, k) \<longleftrightarrow> k \<le> length d \<and> framed m (take k d)"
proof
  assume "k \<le> length d \<and> framed m (take k d)"
  then show "decode_message d = Some (m, k)"
    using decode_message_framed [of m "take k d" "drop k d"] by (simp add: min_absorb2)
qed (rule framed_decode_message)

section \<open>What the encoder writes\<close>

definition block :: "u8 list \<Rightarrow> bool \<Rightarrow> u8 list" where
  "block c fin = bytes_of (encode_header (length c) fin) @ c"

lemma length_block [simp]: "length (block c fin) = 2 + length c"
  by (simp add: block_def)

lemma chunks_Nil [simp]: "chunks n [] = []"
  by (simp add: chunks.simps)

lemma chunks_not_Nil: "0 < n \<Longrightarrow> xs \<noteq> [] \<Longrightarrow> chunks n xs = take n xs # chunks n (drop n xs)"
  by (subst chunks.simps) simp

lemma concat_chunks: "0 < n \<Longrightarrow> concat (chunks n xs) = xs"
  by (induction n xs rule: chunks.induct) (subst chunks.simps, simp)

lemma chunks_eq_Nil: "0 < n \<Longrightarrow> chunks n xs = [] \<longleftrightarrow> xs = []"
  by (subst chunks.simps) simp

lemma chunks_sizes:
  "0 < n \<Longrightarrow> c \<in> set (chunks n xs) \<Longrightarrow> 0 < length c \<and> length c \<le> n"
proof (induction n xs rule: chunks.induct)
  case (1 n xs)
  then show ?case by (cases "xs = []") (auto simp: chunks_not_Nil)
qed

lemma chunks_full:
  "0 < n \<Longrightarrow> c \<in> set (butlast (chunks n xs)) \<Longrightarrow> length c = n"
proof (induction n xs rule: chunks.induct)
  case (1 n xs)
  show ?case
  proof (cases "drop n xs = []")
    case True
    then have "butlast (chunks n xs) = []" using "1.prems" by (subst chunks.simps) simp
    with "1.prems" show ?thesis by simp
  next
    case False
    then have ne: "xs \<noteq> []" "chunks n (drop n xs) \<noteq> []"
      using "1.prems" by (auto simp: chunks_eq_Nil)
    moreover from ne(1) have "chunks n xs = take n xs # chunks n (drop n xs)"
      using "1.prems" by (intro chunks_not_Nil)
    ultimately have "c = take n xs \<or> c \<in> set (butlast (chunks n (drop n xs)))"
      using "1.prems" by auto
    with "1.IH" "1.prems" ne False show ?thesis by auto
  qed
qed

lemma ceiling_step:
  assumes "0 < l" "0 < (n :: nat)"
  shows "(l + n - 1) div n = Suc ((l - n + n - 1) div n)"
proof -
  have "(l - 1 + n) div n = Suc ((l - 1) div n)"
    using assms(2) div_add_self2 [of n "l - 1"] by simp
  moreover have "l + n - 1 = l - 1 + n" using assms by linarith
  moreover have "(l - 1) div n = (l - n + n - 1) div n"
  proof (cases "n \<le> l")
    case False
    then have "l - 1 < n" "l - n + n - 1 < n" using assms by linarith+
    then show ?thesis by (simp only: div_less)
  qed simp
  ultimately show ?thesis by (simp only:)
qed

lemma length_chunks: "0 < n \<Longrightarrow> length (chunks n xs) = (length xs + n - 1) div n"
proof (induction n xs rule: chunks.induct)
  case (1 n xs)
  show ?case
  proof (cases "xs = []")
    case False
    with 1 have "length (chunks n xs) = Suc ((length xs - n + n - 1) div n)"
      using chunks_not_Nil [of n xs] by simp
    then show ?thesis using ceiling_step [of "length xs" n] False "1.prems" by simp
  qed (use 1 in simp)
qed

lemma encode_chunks_append: "encode_chunks cs out = out @ encode_chunks cs []"
proof (induction cs arbitrary: out)
  case (Cons c cs)
  show ?case by (simp, subst (1 2) Cons) simp
qed simp

lemma encode_chunks_blocks:
  "cs \<noteq> [] \<Longrightarrow> encode_chunks cs [] =
     concat (map (\<lambda>c. block c False) (butlast cs)) @ block (last cs) True"
proof (induction cs)
  case (Cons c cs)
  show ?case
  proof (cases "cs = []")
    case False
    with Cons.IH show ?thesis
      by simp (subst encode_chunks_append, simp add: block_def)
  qed (simp add: block_def)
qed simp

lemma encode_chunks_framed:
  "cs \<noteq> [] \<Longrightarrow> \<forall>c \<in> set cs. length c < 32768 \<Longrightarrow> framed (concat cs) (encode_chunks cs [])"
proof (induction cs)
  case (Cons c cs)
  show ?case
  proof (cases "cs = []")
    case True
    with Cons.prems show ?thesis using framed_last [of c] by simp
  next
    case False
    with Cons have "framed (c @ concat cs)
        (bytes_of (encode_header (length c) False) @ c @ encode_chunks cs [])"
      by (intro framed_more) auto
    with False show ?thesis by simp (subst encode_chunks_append, simp)
  qed
qed simp

lemma MAX_pos: "0 < MAX_BLOCK_PAYLOAD"
  by (simp add: MAX_BLOCK_PAYLOAD_def)

lemma encode_message_append: "encode_message p out = out @ encode_message p []"
  unfolding encode_message_def by (subst encode_chunks_append) simp

lemma encode_message_framed: "framed p (encode_message p [])"
proof (cases "p = []")
  case True
  then show ?thesis using framed_last [of "[]"] by (simp add: encode_message_def)
next
  case False
  let ?cs = "chunks MAX_BLOCK_PAYLOAD p"
  have "length c < 32768" if "c \<in> set ?cs" for c
    using chunks_sizes [OF MAX_pos that] by (simp add: MAX_BLOCK_PAYLOAD_def)
  then have "framed (concat ?cs) (encode_chunks ?cs [])"
    using False by (intro encode_chunks_framed) (auto simp: chunks_eq_Nil MAX_pos)
  with False show ?thesis by (simp add: encode_message_def concat_chunks MAX_pos)
qed

lemma decode_encode_message [wire_simps]:
  "decode_message (encode_message p [] @ rest) = Some (p, length (encode_message p []))"
  by (rule decode_message_framed) (rule encode_message_framed)

lemma encode_message_not_Nil: "encode_message p [] \<noteq> []"
  using decode_encode_message [of p "[]"] decode_message_short [of "[]"] by auto

lemma decode_message_extend:
  "decode_message d = Some (m, k) \<Longrightarrow> k \<le> length d \<and> decode_message (d @ x) = Some (m, k)"
  by (auto simp: decode_message_iff_framed)

section \<open>The codec contract\<close>

text \<open>
  What the transport relies on: an encoded message is decoded whatever follows it, a decision
  of the decoder does not change when more bytes arrive, and no message encodes to nothing.
  Messages on one connection can then be read back one by one, and in no other way.
\<close>

locale message_codec =
  fixes enc :: "'m \<Rightarrow> 'b list"
    and dec :: "'b list \<Rightarrow> ('m \<times> nat) option"
  assumes dec_enc: "dec (enc m @ rest) = Some (m, length (enc m))"
    and dec_extend: "dec d = Some (m, k) \<Longrightarrow> k \<le> length d \<and> dec (d @ x) = Some (m, k)"
    and enc_not_Nil: "enc m \<noteq> []"
begin

lemma enc_unique: "enc m @ r = enc m' @ r' \<Longrightarrow> m = m' \<and> r = r'"
proof -
  assume eq: "enc m @ r = enc m' @ r'"
  have "Some (m, length (enc m)) = Some (m', length (enc m'))"
    using dec_enc [of m r] dec_enc [of m' r'] eq by simp
  with eq show ?thesis by simp
qed

lemma dec_prefix: "k < length (enc m) \<Longrightarrow> dec (take k (enc m)) = None"
proof (rule ccontr)
  assume k: "k < length (enc m)" and "dec (take k (enc m)) \<noteq> None"
  then obtain m' j where d: "dec (take k (enc m)) = Some (m', j)" by auto
  from dec_extend [OF d, of "drop k (enc m)"] have "j \<le> k" "dec (enc m) = Some (m', j)" by auto
  moreover have "dec (enc m) = Some (m, length (enc m))" using dec_enc [of m "[]"] by simp
  ultimately show False using k by simp
qed

lemma stream_unique: "concat (map enc ms) = concat (map enc ms') \<Longrightarrow> ms = ms'"
proof (induction ms arbitrary: ms')
  case Nil
  then show ?case by (cases ms') (auto simp: enc_not_Nil)
next
  case (Cons m ms)
  then obtain m' ns where "ms' = m' # ns" by (cases ms') (auto simp: enc_not_Nil)
  with Cons show ?case using enc_unique [of m "concat (map enc ms)" m' "concat (map enc ns)"] by auto
qed

end

interpretation framing: message_codec "\<lambda>m. encode_message m []" decode_message
  by unfold_locales
    (simp_all add: decode_encode_message decode_message_extend encode_message_not_Nil)

section \<open>Properties\<close>

text \<open>C22: Whatever has been written before and whatever follows, the bytes
  \<open>encode_message\<close> appends for a payload decode to exactly that payload, consuming exactly
  those bytes; what was in the output buffer before is kept.\<close>

theorem framing_roundtrip:
  "\<exists>wire. encode_message payload out = out @ wire \<and>
     decode_message (wire @ rest) = Some (payload, length wire)"
  using encode_message_append [of payload out] decode_encode_message [of payload rest] by blast

text \<open>The layout on the wire: the payload is cut into pieces, of 1 to
  \<open>MAX_BLOCK_PAYLOAD\<close> bytes (one empty piece for the empty payload), every piece but the last is
  full, each is written behind its own header and only the last is marked as last. So a message
  costs two bytes for each 8190 begun, and the assertion in \<open>encode_header\<close> never fails.\<close>

theorem encode_message_layout:
  "\<exists>cs. cs \<noteq> [] \<and> concat cs = payload \<and>
     list_all (\<lambda>c. length c \<le> MAX_BLOCK_PAYLOAD) cs \<and>
     list_all (\<lambda>c. length c = MAX_BLOCK_PAYLOAD) (butlast cs) \<and>
     (last cs = [] \<longleftrightarrow> payload = []) \<and>
     length cs = max 1 ((length payload + MAX_BLOCK_PAYLOAD - 1) div MAX_BLOCK_PAYLOAD) \<and>
     encode_message payload out =
       out @ concat (map (\<lambda>c. block c False) (butlast cs)) @ block (last cs) True"
proof (cases "payload = []")
  case True
  have "(MAX_BLOCK_PAYLOAD - 1) div MAX_BLOCK_PAYLOAD = 0" by (simp add: MAX_BLOCK_PAYLOAD_def)
  with True show ?thesis
    by (intro exI [of _ "[[]]"]) (simp add: encode_message_def block_def MAX_pos)
next
  case False
  let ?n = MAX_BLOCK_PAYLOAD and ?cs = "chunks MAX_BLOCK_PAYLOAD payload"
  have cs: "?cs \<noteq> []" using False by (simp add: chunks_eq_Nil MAX_pos)
  have len: "length ?cs = max 1 ((length payload + ?n - 1) div ?n)"
    unfolding length_chunks [OF MAX_pos, symmetric] using cs by (cases ?cs) auto
  have "last ?cs \<in> set ?cs" using cs by simp
  from chunks_sizes [OF MAX_pos this] have "last ?cs \<noteq> []" by auto
  moreover have "list_all (\<lambda>c. length c \<le> ?n) ?cs"
    using chunks_sizes [OF MAX_pos] by (auto simp: list_all_iff)
  moreover have "list_all (\<lambda>c. length c = ?n) (butlast ?cs)"
    using chunks_full [OF MAX_pos] by (auto simp: list_all_iff)
  moreover have "encode_message payload out =
      out @ concat (map (\<lambda>c. block c False) (butlast ?cs)) @ block (last ?cs) True"
    using False encode_chunks_blocks [OF cs]
    by (subst encode_message_append) (simp add: encode_message_def)
  ultimately show ?thesis
    using cs False len by (intro exI [of _ ?cs]) (simp add: concat_chunks MAX_pos)
qed

text \<open>C30: The decoder accepts exactly the block sequences of the wire format:
  it returns a message and a count iff the counted bytes are a sequence of blocks carrying that
  message, with the last block, and no other, marked. It needs no size limit on a block, and
  never reads past the buffer.\<close>

theorem decode_message_exact:
  "decode_message data = Some (message, used) \<longleftrightarrow>
     used \<le> length data \<and> framed message (take used data)"
  by (rule decode_message_iff_framed)

text \<open>Reading from a stream: on a strict prefix of an encoded message the
  decoder says that the message is not complete, and once it has returned a message more bytes
  do not change the answer.\<close>

theorem framing_incremental:
  assumes "k < length (encode_message payload [])"
  shows "decode_message (take k (encode_message payload [])) = None \<and>
     decode_message (encode_message payload [] @ more) =
       Some (payload, length (encode_message payload []))"
  using framing.dec_prefix [OF assms] decode_encode_message [of payload more] by simp

theorem framing_incremental_witness:
  "decode_message (take 3 (encode_message [65, 66] [])) = None \<and>
     decode_message (encode_message [65, 66] [] @ [1, 0]) =
       Some ([65, 66], length (encode_message [65, 66] []))"
proof -
  have "chunks MAX_BLOCK_PAYLOAD [65, 66 :: u8] = [[65, 66]]"
    by (simp add: chunks_not_Nil MAX_BLOCK_PAYLOAD_def)
  then have "3 < length (encode_message [65, 66] [])" by (simp add: encode_message_def)
  from framing_incremental [OF this, of "[1, 0]"] show ?thesis .
qed

text \<open>A stream of encoded messages determines the messages: two sequences of
  payloads with the same bytes on the wire are the same sequence.\<close>

theorem framing_stream:
  "concat (map (\<lambda>m. encode_message m []) ms) = concat (map (\<lambda>m. encode_message m []) ms')
     \<longleftrightarrow> ms = ms'"
  using framing.stream_unique [of ms ms'] by auto

text \<open>The two header bytes and the pair of a 15-bit length and the last-block
  bit determine each other: every header decodes to a length below \<open>2 ^ 15\<close>, encoding gives the
  same bytes back, and no such pair is lost.\<close>

theorem header_bijection:
  "bij_betw decode_header UNIV {(n, l). n < 32768} \<and>
     (\<forall>b. encode_header (fst (decode_header b)) (snd (decode_header b)) = b)"
proof
  show inv: "\<forall>b. encode_header (fst (decode_header b)) (snd (decode_header b)) = b"
    using encode_decode_header by simp
  show "bij_betw decode_header UNIV {(n, l). n < 32768}"
  proof (rule bij_betw_byWitness [where f' = "\<lambda>(n, l). encode_header n l"])
    show "\<forall>b \<in> UNIV. (\<lambda>(n, l). encode_header n l) (decode_header b) = b"
      using inv by (simp add: case_prod_unfold)
    show "decode_header ` UNIV \<subseteq> {(n, l). n < 32768}"
      using decode_header_bound by (auto simp: case_prod_unfold)
  qed (auto simp: decode_encode_header)
qed

end
