(* ===== verification/Protocol.thy ===== *)
theory Protocol
  imports Handshake Framing Response
begin

text \<open>
  The protocol driver (\<open>src/protocol/mod.rs\<close>): messages over a buffered socket, the handshake
  with its redirects, and one query.

  The socket (\<open>sqlx_core::net\<close>) is the record \<open>transport\<close>, an argument of every definition: its
  operations work on a world \<open>'w\<close> and on streams that are handles \<open>'s\<close>. An operation that may
  never return (a read that waits) is None there. An \<open>async fn\<close> is a function of the world to
  its result, an error, a panic or a value, and the world it leaves; an \<open>await\<close> is
  a call (\<open>Tasks\<close> splits a query at its \<open>await\<close>s).
\<close>

section \<open>Effects\<close>

type_synonym ('w, 'a) io = "'w \<Rightarrow> ((sqlx_error fault + 'a) \<times> 'w) option"

definition io_return :: "'a \<Rightarrow> ('w, 'a) io" where
  "io_return a w = Some (Inr a, w)"

definition io_fail :: "sqlx_error fault \<Rightarrow> ('w, 'a) io" where
  "io_fail e w = Some (Inl e, w)"

definition io_bind :: "('w, 'a) io \<Rightarrow> ('a \<Rightarrow> ('w, 'b) io) \<Rightarrow> ('w, 'b) io" where
  "io_bind m f w =
     Option.bind (m w) (\<lambda>(r, w). case r of Inl e \<Rightarrow> Some (Inl e, w) | Inr a \<Rightarrow> f a w)"

text \<open>A pure step whose error is converted (\<open>?\<close> with \<open>From\<close>).\<close>

definition io_lift :: "('e \<Rightarrow> sqlx_error) \<Rightarrow> 'e + 'a \<Rightarrow> ('w, 'a) io" where
  "io_lift conv r w = Some (map_err (\<lambda>e. Failed (conv e)) r, w)"

fun map_fault :: "('e \<Rightarrow> 'f) \<Rightarrow> 'e fault \<Rightarrow> 'f fault" where
  "map_fault conv (Failed e) = Failed (conv e)"
| "map_fault conv (Panicked p) = Panicked p"

definition io_lift_fault :: "('e \<Rightarrow> sqlx_error) \<Rightarrow> 'e fault + 'a \<Rightarrow> ('w, 'a) io" where
  "io_lift_fault conv r w = Some (map_err (map_fault conv) r, w)"

text \<open>An operation of the socket, with its \<open>std::io::Error\<close>.\<close>

definition io_os :: "('w \<Rightarrow> ((io_error + 'a) \<times> 'w) option) \<Rightarrow> ('w, 'a) io" where
  "io_os m w = map_option (\<lambda>(r, w). (map_err (\<lambda>e. Failed (SqlxIo e)) r, w)) (m w)"

section \<open>The socket\<close>

record ('w, 's) transport =
  t_connect :: "rstr \<Rightarrow> u16 \<Rightarrow> 'w \<Rightarrow> ((sqlx_error + 's) \<times> 'w) option"
  t_read_buffered :: "'s \<Rightarrow> nat \<Rightarrow> 'w \<Rightarrow> ((io_error + u8 list) \<times> 'w) option"
  t_put_slice :: "'s \<Rightarrow> u8 list \<Rightarrow> 'w \<Rightarrow> 'w"
  t_flush :: "'s \<Rightarrow> 'w \<Rightarrow> ((io_error + unit) \<times> 'w) option"
  t_shutdown :: "'s \<Rightarrow> 'w \<Rightarrow> ((io_error + unit) \<times> 'w) option"
  t_shrink_buffers :: "'s \<Rightarrow> 'w \<Rightarrow> 'w"

definition put_slice :: "('w, 's) transport \<Rightarrow> 's \<Rightarrow> u8 list \<Rightarrow> ('w, unit) io" where
  "put_slice t stream bytes w = Some (Inr (), t_put_slice t stream bytes w)"

definition connect :: "('w, 's) transport \<Rightarrow> rstr \<Rightarrow> u16 \<Rightarrow> ('w, 's) io" where
  "connect t host port w =
     map_option (\<lambda>(r, w). (map_err Failed r, w)) (t_connect t host port w)"

section \<open>Messages\<close>

definition send_prime_bytes :: "('w, 's) transport \<Rightarrow> 's \<Rightarrow> ('w, unit) io" where
  "send_prime_bytes t stream =
     io_bind (put_slice t stream (replicate 8 0)) (\<lambda>_. io_os (t_flush t stream))"

definition write_message :: "('w, 's) transport \<Rightarrow> 's \<Rightarrow> u8 list \<Rightarrow> ('w, unit) io" where
  "write_message t stream payload =
     io_bind (put_slice t stream (encode_message payload [])) (\<lambda>_. io_os (t_flush t stream))"

text \<open>
  The loop of \<open>read_message\<close>. It ends only if the server ends the message, so not returning is a
  value. Indexing the header panics if it is too short.
\<close>

partial_function (option) read_loop ::
    "('w, 's) transport \<Rightarrow> 's \<Rightarrow> u8 list \<Rightarrow> 'w \<Rightarrow>
     ((sqlx_error fault + u8 list) \<times> 'w) option" where
  "read_loop t stream message w =
     Option.bind (io_os (t_read_buffered t stream 2) w) (\<lambda>(r, w).
       case r of
         Inl e \<Rightarrow> Some (Inl e, w)
       | Inr header \<Rightarrow>
           if length header < 2 then Some (Inl (Panicked ''index out of bounds''), w)
           else
             (case decode_header (header ! 0, header ! 1) of (len, is_last) \<Rightarrow>
                Option.bind
                  (if 0 < len
                   then
                     io_bind (io_os (t_read_buffered t stream len)) (\<lambda>payload.
                       io_return (message @ payload)) w
                   else io_return message w) (\<lambda>(r, w).
                  case r of
                    Inl e \<Rightarrow> Some (Inl e, w)
                  | Inr message \<Rightarrow>
                      if is_last then Some (Inr message, w)
                      else read_loop t stream message w)))"

definition read_message :: "('w, 's) transport \<Rightarrow> 's \<Rightarrow> ('w, u8 list) io" where
  "read_message t stream = read_loop t stream []"

definition read_text_message :: "('w, 's) transport \<Rightarrow> 's \<Rightarrow> ('w, rstr) io" where
  "read_text_message t stream =
     io_bind (read_message t stream) (\<lambda>bytes.
     io_lift sqlx_from_monet
       (ok_or (Protocol [Lit ''expected UTF-8 text message: '', DispUtf8 bytes])
         (from_utf8 bytes)))"

section \<open>The handshake\<close>

text \<open>The parts of one attempt of the \<open>for _ in 0..10\<close> loop: what the next one starts from.\<close>

datatype 's handshake_step = Authenticated 's | Continue rstr u16 "'s option"

definition open_stream ::
    "('w, 's) transport \<Rightarrow> rstr \<Rightarrow> u16 \<Rightarrow> 's option \<Rightarrow> ('w, 's) io" where
  "open_stream t current_host current_port reused_stream =
     (case reused_stream of
        Some stream \<Rightarrow> io_return stream
      | None \<Rightarrow>
          io_bind (connect t current_host current_port) (\<lambda>stream.
          io_bind (send_prime_bytes t stream) (\<lambda>_. io_return stream)))"

definition finish_login :: "('w, 's) transport \<Rightarrow> 's \<Rightarrow> ('w, 's handshake_step) io" where
  "finish_login t stream =
     io_bind (write_message t stream (as_bytes (lit ''Xreply_size -1''))) (\<lambda>_.
     io_bind (read_text_message t stream) (\<lambda>_.
     io_return (Authenticated stream)))"

definition handshake_attempt ::
    "('w, 's) transport \<Rightarrow> digests \<Rightarrow> rstr \<Rightarrow> rstr \<Rightarrow> rstr \<Rightarrow> rstr \<Rightarrow> u16 \<Rightarrow> 's option \<Rightarrow>
     ('w, 's handshake_step) io" where
  "handshake_attempt t d username password database current_host current_port reused_stream =
     io_bind (open_stream t current_host current_port reused_stream) (\<lambda>stream.
     io_bind (read_text_message t stream) (\<lambda>challenge_line.
     io_bind (io_lift sqlx_from_monet (parse_challenge challenge_line)) (\<lambda>challenge.
     io_bind (io_lift_fault sqlx_from_monet (compute_password_hash d challenge password))
       (\<lambda>(algo, password_hash).
     let login_line = build_login_response challenge username algo password_hash database
                        handshake_options_default
     in
     io_bind (write_message t stream (as_bytes login_line)) (\<lambda>_.
     io_bind (read_text_message t stream) (\<lambda>response_line.
     case parse_login_response response_line of
       LoginOk \<Rightarrow> finish_login t stream
     | LoginError message \<Rightarrow> io_fail (Failed (sqlx_from_monet (Handshake message)))
     | LoginRedirect target \<Rightarrow>
         io_bind (io_lift sqlx_from_monet (parse_redirect target)) (\<lambda>redirect.
           io_return
             (case redirect of
                LocalRetry \<Rightarrow> Continue current_host current_port (Some stream)
              | Reconnect host port \<Rightarrow> Continue host port None))))))))"

definition too_many_redirects :: sqlx_error where
  "too_many_redirects =
     sqlx_from_monet (Handshake [Lit ''too many redirects (>10) during handshake''])"

primrec handshake_loop ::
    "nat \<Rightarrow> ('w, 's) transport \<Rightarrow> digests \<Rightarrow> rstr \<Rightarrow> rstr \<Rightarrow> rstr \<Rightarrow> rstr \<Rightarrow> u16 \<Rightarrow> 's option \<Rightarrow>
     ('w, 's) io" where
  "handshake_loop 0 t d username password database current_host current_port reused_stream =
     io_fail (Failed too_many_redirects)"
| "handshake_loop (Suc n) t d username password database current_host current_port reused_stream =
     io_bind
       (handshake_attempt t d username password database current_host current_port reused_stream)
       (\<lambda>step.
     case step of
       Authenticated stream \<Rightarrow> io_return stream
     | Continue host port reused \<Rightarrow>
         handshake_loop n t d username password database host port reused)"

definition perform_handshake ::
    "('w, 's) transport \<Rightarrow> digests \<Rightarrow> rstr \<Rightarrow> u16 \<Rightarrow> rstr \<Rightarrow> rstr \<Rightarrow> rstr \<Rightarrow> ('w, 's) io" where
  "perform_handshake t d host port username password database =
     handshake_loop 10 t d username password database host port None"

section \<open>One query\<close>

definition execute_query :: "('w, 's) transport \<Rightarrow> 's \<Rightarrow> rstr \<Rightarrow> ('w, query_response) io" where
  "execute_query t stream sql =
     io_bind (write_message t stream (encode_query sql)) (\<lambda>_.
     io_bind (read_text_message t stream) (\<lambda>text.
     io_lift sqlx_from_response (parse_response text)))"

end
