(* ===== verification/Protocol_Laws.thy ===== *)
theory Protocol_Laws
  imports Protocol
begin

text \<open>
  What the protocol driver promises over a healthy socket: reading block by block from the
  socket is the decoder of \<open>framing.rs\<close> on the bytes the peer sends, a query sends one framed
  request and reads one framed response, and the handshake sends the login line of the
  challenge it got and gives up after ten attempts. \<open>healthy\<close> states the documented behaviour
  of the buffered socket the theorems use; the transport of \<open>Script_Transport\<close> satisfies it.
\<close>

section \<open>A healthy socket\<close>

text \<open>
  \<open>incoming w\<close> are the bytes the peer is still to send on the stream before it closes it,
  \<open>outgoing w\<close> the bytes it has been sent. \<open>read_buffered n\<close> returns the next \<open>n\<close> bytes, or an
  error if the stream ends before; a flush sends what has been put in the buffer.
\<close>

definition healthy ::
    "('w, 's) transport \<Rightarrow> 's \<Rightarrow> ('w \<Rightarrow> u8 list) \<Rightarrow> ('w \<Rightarrow> u8 list) \<Rightarrow> bool" where
  "healthy t s incoming outgoing \<longleftrightarrow>
     (\<forall>w n. if n \<le> length (incoming w)
        then \<exists>w'. t_read_buffered t s n w = Some (Inr (take n (incoming w)), w') \<and>
               incoming w' = drop n (incoming w) \<and> outgoing w' = outgoing w
        else \<exists>e w'. t_read_buffered t s n w = Some (Inl e, w')) \<and>
     (\<forall>w bytes. \<exists>w'. t_flush t s (t_put_slice t s bytes w) = Some (Inr (), w') \<and>
        incoming w' = incoming w \<and> outgoing w' = outgoing w @ bytes)"

lemma healthy_read:
  assumes "healthy t s incoming outgoing" "n \<le> length (incoming w)"
  obtains w' where "t_read_buffered t s n w = Some (Inr (take n (incoming w)), w')"
    "incoming w' = drop n (incoming w)" "outgoing w' = outgoing w"
  using assms unfolding healthy_def by (metis (full_types))

lemma healthy_eof:
  assumes "healthy t s incoming outgoing" "length (incoming w) < n"
  obtains e w' where "t_read_buffered t s n w = Some (Inl e, w')"
  using assms unfolding healthy_def by (metis (full_types) linorder_not_le)

lemma healthy_send:
  assumes "healthy t s incoming outgoing"
  obtains w' where "t_flush t s (t_put_slice t s bytes w) = Some (Inr (), w')"
    "incoming w' = incoming w" "outgoing w' = outgoing w @ bytes"
  using assms unfolding healthy_def by blast

section \<open>Reading a message\<close>

lemma read_loop_block:
  assumes h: "healthy t s incoming outgoing" and w: "incoming w = a # b # r"
    and hdr: "decode_header (a, b) = (len, fin)" and len: "len \<le> length r"
  shows "\<exists>w'. incoming w' = drop len r \<and> outgoing w' = outgoing w \<and>
    read_loop t s message w =
      (if fin then Some (Inr (message @ take len r), w') else read_loop t s (message @ take len r) w')"
proof -
  obtain w1 where w1: "t_read_buffered t s 2 w = Some (Inr [a, b], w1)" "incoming w1 = r"
    "outgoing w1 = outgoing w"
    using healthy_read [OF h, of 2 w] w by auto
  have "\<exists>w2. incoming w2 = drop len r \<and> outgoing w2 = outgoing w \<and>
      (if 0 < len
       then
         io_bind (io_os (t_read_buffered t s len)) (\<lambda>payload. io_return (message @ payload)) w1
       else io_return message w1) = Some (Inr (message @ take len r), w2)"
  proof (cases "0 < len")
    case True
    obtain w2 where "t_read_buffered t s len w1 = Some (Inr (take len r), w2)"
      "incoming w2 = drop len r" "outgoing w2 = outgoing w"
      using healthy_read [OF h, of len w1] len w1 by auto
    with True show ?thesis by (auto simp: io_bind_def io_os_def io_return_def)
  qed (use w1 in \<open>auto simp: io_return_def\<close>)
  then obtain w2 where "incoming w2 = drop len r" "outgoing w2 = outgoing w"
      "(if 0 < len
       then
         io_bind (io_os (t_read_buffered t s len)) (\<lambda>payload. io_return (message @ payload)) w1
       else io_return message w1) = Some (Inr (message @ take len r), w2)" by blast
  then show ?thesis
    using w1 hdr by (subst read_loop.simps) (auto simp: io_os_def)
qed

lemma read_loop_short:
  assumes h: "healthy t s incoming outgoing" and "length (incoming w) < 2"
  shows "\<exists>e w'. read_loop t s message w = Some (Inl (Failed (SqlxIo e)), w')"
proof -
  obtain e w' where "t_read_buffered t s 2 w = Some (Inl e, w')"
    using healthy_eof [OF assms] by blast
  then show ?thesis by (subst read_loop.simps) (simp add: io_os_def)
qed

lemma read_loop_cut:
  assumes h: "healthy t s incoming outgoing" and w: "incoming w = a # b # r"
    and hdr: "decode_header (a, b) = (len, fin)" and len: "length r < len"
  shows "\<exists>e w'. read_loop t s message w = Some (Inl (Failed (SqlxIo e)), w')"
proof -
  obtain w1 where w1: "t_read_buffered t s 2 w = Some (Inr [a, b], w1)" "incoming w1 = r"
    using healthy_read [OF h, of 2 w] w by auto
  moreover obtain e w2 where "t_read_buffered t s len w1 = Some (Inl e, w2)"
    using healthy_eof [OF h, of w1 len] len w1 by auto
  ultimately show ?thesis
    using hdr len by (subst read_loop.simps) (auto simp: io_os_def io_bind_def)
qed

lemma read_loop_decode:
  assumes h: "healthy t s incoming outgoing"
  shows "case decode_message (incoming w) of
      Some (m, k) \<Rightarrow>
        \<exists>w'. read_loop t s message w = Some (Inr (message @ m), w') \<and>
          incoming w' = drop k (incoming w) \<and> outgoing w' = outgoing w
    | None \<Rightarrow> \<exists>e w'. read_loop t s message w = Some (Inl (Failed (SqlxIo e)), w')"
proof (induction "length (incoming w)" arbitrary: message w rule: less_induct)
  case less
  consider "length (incoming w) < 2" | a b r where "incoming w = a # b # r"
    by (cases "incoming w" rule: remdups_adj.cases) auto
  then show ?case
  proof cases
    case 1
    then show ?thesis using read_loop_short [OF h 1] by (simp add: decode_message_short)
  next
    case (2 a b r)
    obtain len fin where hdr: "decode_header (a, b) = (len, fin)" by fastforce
    show ?thesis
    proof (cases "length r < len")
      case True
      then show ?thesis using read_loop_cut [OF h 2 hdr] hdr 2 by (simp add: decode_message_block)
    next
      case False
      then obtain w2 where w2: "incoming w2 = drop len r" "outgoing w2 = outgoing w"
        "read_loop t s message w = (if fin then Some (Inr (message @ take len r), w2)
           else read_loop t s (message @ take len r) w2)"
        using read_loop_block [OF h 2 hdr] by (meson not_le)
      show ?thesis
      proof (cases fin)
        case True
        with w2 False hdr 2 show ?thesis by (simp add: decode_message_block)
      next
        case more: False
        have "length (incoming w2) < length (incoming w)" using w2(1) 2 by simp
        from less [OF this, of "message @ take len r"] more w2 False hdr 2 show ?thesis
          by (auto simp: decode_message_block add.commute split: option.splits)
      qed
    qed
  qed
qed

section \<open>Steps over a healthy socket\<close>

lemma write_message_healthy:
  assumes "healthy t s incoming outgoing"
  obtains w' where "write_message t s payload w = Some (Inr (), w')" "incoming w' = incoming w"
    "outgoing w' = outgoing w @ encode_message payload []"
proof -
  obtain w' where "t_flush t s (t_put_slice t s (encode_message payload []) w) = Some (Inr (), w')"
    and w': "incoming w' = incoming w" "outgoing w' = outgoing w @ encode_message payload []"
    by (rule healthy_send [OF assms])
  then have "write_message t s payload w = Some (Inr (), w')"
    by (simp add: write_message_def io_bind_def put_slice_def io_os_def)
  with w' show ?thesis by (intro that)
qed

lemma send_prime_healthy:
  assumes "healthy t s incoming outgoing"
  obtains w' where "send_prime_bytes t s w = Some (Inr (), w')" "incoming w' = incoming w"
    "outgoing w' = outgoing w @ replicate 8 0"
proof -
  obtain w' where "t_flush t s (t_put_slice t s (replicate 8 0) w) = Some (Inr (), w')"
    and w': "incoming w' = incoming w" "outgoing w' = outgoing w @ replicate 8 0"
    by (rule healthy_send [OF assms])
  then have "send_prime_bytes t s w = Some (Inr (), w')"
    by (simp add: send_prime_bytes_def io_bind_def put_slice_def io_os_def)
  with w' show ?thesis by (intro that)
qed

lemma read_text_healthy:
  assumes "healthy t s incoming outgoing" "decode_message (incoming w) = Some (bytes, k)"
    and "from_utf8 bytes = Some text"
  obtains w' where "read_text_message t s w = Some (Inr text, w')"
    "incoming w' = drop k (incoming w)" "outgoing w' = outgoing w"
proof -
  obtain w' where "read_loop t s [] w = Some (Inr bytes, w')"
    and w': "incoming w' = drop k (incoming w)" "outgoing w' = outgoing w"
    using read_loop_decode [OF assms(1), where w = w and message = "[]"] assms(2) by auto
  then have "read_text_message t s w = Some (Inr text, w')"
    using assms(3) by (simp add: read_text_message_def read_message_def io_bind_def io_lift_def)
  with w' show ?thesis by (intro that)
qed

text \<open>A text the peer sends as one message, and what is left after it.\<close>

lemma read_text_sent:
  assumes "healthy t s incoming outgoing" "scalars text"
    and "incoming w = encode_message (as_bytes text) [] @ rest"
  obtains w' where "read_text_message t s w = Some (Inr text, w')"
    "incoming w' = rest" "outgoing w' = outgoing w"
proof -
  let ?k = "length (encode_message (as_bytes text) [])"
  have "decode_message (incoming w) = Some (as_bytes text, ?k)"
    unfolding assms(3) by (rule decode_encode_message)
  from read_text_healthy [OF assms(1) this from_utf8_as_bytes [OF assms(2)]] obtain w' where
    "read_text_message t s w = Some (Inr text, w')" "incoming w' = drop ?k (incoming w)"
    "outgoing w' = outgoing w" by blast
  then show ?thesis using assms(3) that [of w'] by simp
qed

section \<open>Properties of messages\<close>

text \<open>C6: Reading a message from the socket, block by block, is the decoder
  of the framing module on the bytes the peer is going to send: it returns exactly the message
  the decoder finds, leaves exactly the bytes behind it, and sends nothing; where the decoder
  finds no complete message it ends with the socket's error. It always returns, and the
  indexing of the header never panics.\<close>

theorem read_message_refines:
  assumes "healthy t s incoming outgoing"
  shows "case decode_message (incoming w) of
      Some (m, k) \<Rightarrow>
        \<exists>w'. read_message t s w = Some (Inr m, w') \<and>
          incoming w' = drop k (incoming w) \<and> outgoing w' = outgoing w
    | None \<Rightarrow> \<exists>e w'. read_message t s w = Some (Inl (Failed (SqlxIo e)), w')"
  using read_loop_decode [OF assms, where w = w and message = "[]"]
  unfolding read_message_def by (simp only: append_Nil)

text \<open>One query over a healthy socket: exactly one message is sent, the
  encoded statement, exactly one message is read, and the result is what the response parser
  makes of its text, a server error included; what the peer sends after it is left unread for
  the next query.\<close>

theorem execute_query_exchange:
  assumes "healthy t s incoming outgoing"
    and "decode_message (incoming w) = Some (bytes, k)" and "from_utf8 bytes = Some text"
  shows "\<exists>w'. execute_query t s sql w =
      Some (map_err (\<lambda>e. Failed (sqlx_from_response e)) (parse_response text), w') \<and>
    incoming w' = drop k (incoming w) \<and>
    outgoing w' = outgoing w @ encode_message (encode_query sql) []"
proof -
  obtain w1 where w1: "write_message t s (encode_query sql) w = Some (Inr (), w1)"
    "incoming w1 = incoming w" "outgoing w1 = outgoing w @ encode_message (encode_query sql) []"
    by (rule write_message_healthy [OF assms(1)])
  have dec: "decode_message (incoming w1) = Some (bytes, k)" using w1 assms(2) by simp
  obtain w2 where "read_text_message t s w1 = Some (Inr text, w2)"
    "incoming w2 = drop k (incoming w1)" "outgoing w2 = outgoing w1"
    by (rule read_text_healthy [OF assms(1) dec assms(3)])
  with w1 show ?thesis
    by (intro exI [of _ w2]) (simp add: execute_query_def io_bind_def io_lift_def)
qed

end
