(* ===== verification/Script_Transport.thy ===== *)
theory Script_Transport
  imports Protocol_Laws
begin

text \<open>
  A concrete transport: servers that send a fixed sequence of bytes on every connection. It
  shows that the hypotheses of the protocol theorems hold together, and it is what their
  witnesses run on.
\<close>

record script_conn =
  to_client :: "u8 list"
  buffered :: "u8 list"
  received :: "u8 list"

record script_world =
  servers :: "(rstr \<times> u16) \<Rightarrow> u8 list option"
  conns :: "nat \<Rightarrow> script_conn"
  opened :: nat

definition set_conn :: "nat \<Rightarrow> script_conn \<Rightarrow> script_world \<Rightarrow> script_world" where
  "set_conn s c w = w\<lparr>conns := (conns w)(s := c)\<rparr>"

definition script_connect ::
    "rstr \<Rightarrow> u16 \<Rightarrow> script_world \<Rightarrow> ((sqlx_error + nat) \<times> script_world) option" where
  "script_connect host port w =
     (case servers w (host, port) of
        None \<Rightarrow> Some (Inl (SqlxIo (IoError (lit ''connection refused''))), w)
      | Some bytes \<Rightarrow>
          Some (Inr (opened w),
            set_conn (opened w) \<lparr>to_client = bytes, buffered = [], received = []\<rparr>
              (w\<lparr>opened := opened w + 1\<rparr>)))"

definition script_read ::
    "nat \<Rightarrow> nat \<Rightarrow> script_world \<Rightarrow> ((io_error + u8 list) \<times> script_world) option" where
  "script_read s n w =
     (let c = conns w s in
      if n \<le> length (to_client c)
      then Some (Inr (take n (to_client c)), set_conn s (c\<lparr>to_client := drop n (to_client c)\<rparr>) w)
      else Some (Inl (IoError (lit ''unexpected end of file'')), w))"

definition script_put :: "nat \<Rightarrow> u8 list \<Rightarrow> script_world \<Rightarrow> script_world" where
  "script_put s bytes w = set_conn s (conns w s\<lparr>buffered := buffered (conns w s) @ bytes\<rparr>) w"

definition script_flush ::
    "nat \<Rightarrow> script_world \<Rightarrow> ((io_error + unit) \<times> script_world) option" where
  "script_flush s w =
     (let c = conns w s in
      Some (Inr (), set_conn s (c\<lparr>received := received c @ buffered c, buffered := []\<rparr>) w))"

definition script_transport :: "(script_world, nat) transport" where
  "script_transport =
     \<lparr>t_connect = script_connect, t_read_buffered = script_read, t_put_slice = script_put,
      t_flush = script_flush, t_shutdown = script_flush, t_shrink_buffers = (\<lambda>s w. w)\<rparr>"

text \<open>What the server still sends, and what it has been or will be sent.\<close>

definition script_in :: "nat \<Rightarrow> script_world \<Rightarrow> u8 list" where
  "script_in s w = to_client (conns w s)"

definition script_out :: "nat \<Rightarrow> script_world \<Rightarrow> u8 list" where
  "script_out s w = received (conns w s) @ buffered (conns w s)"

lemma script_healthy: "healthy script_transport s (script_in s) (script_out s)"
  by (auto simp: healthy_def script_transport_def script_read_def script_flush_def
      script_put_def set_conn_def script_in_def script_out_def Let_def)

text \<open>A world with one server.\<close>

definition one_server :: "rstr \<Rightarrow> u16 \<Rightarrow> u8 list \<Rightarrow> script_world" where
  "one_server host port bytes =
     \<lparr>servers = [(host, port) \<mapsto> bytes],
      conns = (\<lambda>_. \<lparr>to_client = [], buffered = [], received = []\<rparr>), opened = 0\<rparr>"

lemma script_connect_one:
  "\<exists>w. t_connect script_transport host port (one_server host port bytes) = Some (Inr 0, w) \<and>
     script_in 0 w = bytes \<and> script_out 0 w = []"
  by (simp add: script_transport_def script_connect_def one_server_def set_conn_def script_in_def
      script_out_def)

theorem read_message_refines_witness:
  "\<exists>w w'. script_in 0 w = encode_message [1, 2] [] @ [9] \<and>
     read_message script_transport 0 w = Some (Inr [1, 2], w') \<and> script_in 0 w' = [9]"
proof -
  obtain w where w: "script_in 0 w = encode_message [1, 2] [] @ [9]"
    using script_connect_one by blast
  then have "decode_message (script_in 0 w) = Some ([1, 2], length (encode_message [1, 2] []))"
    by (simp only: decode_encode_message)
  with read_message_refines [OF script_healthy, of 0 w] w show ?thesis by auto
qed

end
