(* ===== verification/Login.thy ===== *)
theory Login
  imports Script_Transport
begin

text \<open>
  The handshake as a whole (\<open>perform_handshake\<close> of \<open>src/protocol/mod.rs\<close>). Its redirects are a
  step relation on what one attempt starts from (host, port, the stream to use again, world):
  \<open>redirected n a b\<close> says that \<open>n\<close> attempts in a row were redirected and led from \<open>a\<close> to \<open>b\<close>.
  The handshake succeeds iff a chain of fewer than ten redirects ends in an attempt that does.
\<close>

section \<open>Chains of redirects\<close>

type_synonym ('w, 's) start = "rstr \<times> u16 \<times> 's option \<times> 'w"

record credentials =
  cr_username :: rstr
  cr_password :: rstr
  cr_database :: rstr

definition attempt ::
    "('w, 's) transport \<Rightarrow> digests \<Rightarrow> credentials \<Rightarrow> ('w, 's) start \<Rightarrow>
     ((sqlx_error fault + 's handshake_step) \<times> 'w) option" where
  "attempt t d c st =
     (case st of (host, port, reused, w) \<Rightarrow>
        handshake_attempt t d (cr_username c) (cr_password c) (cr_database c) host port reused w)"

inductive redirected ::
    "('w, 's) transport \<Rightarrow> digests \<Rightarrow> credentials \<Rightarrow> nat \<Rightarrow> ('w, 's) start \<Rightarrow> ('w, 's) start \<Rightarrow>
     bool" for t d c where
  redirected_0: "redirected t d c 0 st st"
| redirected_Suc: "attempt t d c st = Some (Inr (Continue host port reused), w) \<Longrightarrow>
     redirected t d c n (host, port, reused, w) st' \<Longrightarrow> redirected t d c (Suc n) st st'"

inductive_simps redirected_0_iff: "redirected t d c 0 st st'"
inductive_simps redirected_Suc_iff: "redirected t d c (Suc n) st st'"

definition loop ::
    "nat \<Rightarrow> ('w, 's) transport \<Rightarrow> digests \<Rightarrow> credentials \<Rightarrow> ('w, 's) start \<Rightarrow>
     ((sqlx_error fault + 's) \<times> 'w) option" where
  "loop n t d c st =
     (case st of (host, port, reused, w) \<Rightarrow>
        handshake_loop n t d (cr_username c) (cr_password c) (cr_database c) host port reused w)"

lemma loop_0: "loop 0 t d c st = Some (Inl (Failed too_many_redirects), snd (snd (snd st)))"
  by (cases st) (simp add: loop_def io_fail_def)

lemma loop_Suc:
  "loop (Suc n) t d c st =
     Option.bind (attempt t d c st) (\<lambda>(r, w).
       case r of
         Inl e \<Rightarrow> Some (Inl e, w)
       | Inr (Authenticated s) \<Rightarrow> Some (Inr s, w)
       | Inr (Continue host port reused) \<Rightarrow> loop n t d c (host, port, reused, w))"
  by (cases st)
    (auto simp: loop_def attempt_def io_bind_def io_return_def
      split: bind_splits sum.splits handshake_step.splits)

lemma loop_Inr:
  "loop n t d c st = Some (Inr s, w') \<longleftrightarrow>
     (\<exists>k < n. \<exists>st'. redirected t d c k st st' \<and>
        attempt t d c st' = Some (Inr (Authenticated s), w'))"
proof (induction n arbitrary: st)
  case 0
  then show ?case by (simp add: loop_0)
next
  case (Suc n)
  have "(\<exists>k < Suc n. \<exists>st'. redirected t d c k st st' \<and>
        attempt t d c st' = Some (Inr (Authenticated s), w')) \<longleftrightarrow>
      attempt t d c st = Some (Inr (Authenticated s), w') \<or>
      (\<exists>k < n. \<exists>st'. redirected t d c (Suc k) st st' \<and>
        attempt t d c st' = Some (Inr (Authenticated s), w'))"
    unfolding Ex_less_Suc2 redirected_0_iff by blast
  also have "\<dots> \<longleftrightarrow> loop (Suc n) t d c st = Some (Inr s, w')"
    unfolding loop_Suc redirected_Suc_iff
    by (auto simp: Suc split: bind_splits sum.splits handshake_step.splits)
  finally show ?case by simp
qed

lemma loop_redirected:
  "redirected t d c n st st' \<Longrightarrow> loop (n + m) t d c st = loop m t d c st'"
  by (induction rule: redirected.induct) (simp_all add: loop_Suc)

lemma perform_handshake_loop:
  "perform_handshake t d host port (cr_username c) (cr_password c) (cr_database c) w =
     loop 10 t d c (host, port, None, w)"
  by (simp add: perform_handshake_def loop_def)

section \<open>One attempt over a healthy socket\<close>

definition text_message :: "rstr \<Rightarrow> u8 list" where
  "text_message text = encode_message (as_bytes text) []"

lemma write_text_healthy:
  assumes "healthy t s incoming outgoing"
  obtains w' where "write_message t s (as_bytes text) w = Some (Inr (), w')"
    "incoming w' = incoming w" "outgoing w' = outgoing w @ text_message text"
  unfolding text_message_def by (rule write_message_healthy [OF assms])

definition login_line :: "digests \<Rightarrow> credentials \<Rightarrow> challenge \<Rightarrow> rstr \<times> rstr \<Rightarrow> rstr" where
  "login_line d c chal hash =
     build_login_response chal (cr_username c) (fst hash) (snd hash) (cr_database c)
       handshake_options_default"

lemma attempt_exchange:
  assumes h: "healthy t s incoming outgoing"
    and inc: "incoming w = text_message line @ text_message answer @ rest"
    and sc: "scalars line" "scalars answer"
    and chal: "parse_challenge line = Inr chal"
    and hash: "compute_password_hash d chal (cr_password c) = Inr hash"
  shows "\<exists>w'. incoming w' = rest \<and>
    outgoing w' = outgoing w @ text_message (login_line d c chal hash) \<and>
    attempt t d c (host, port, Some s, w) =
      (case parse_login_response answer of
         LoginOk \<Rightarrow> finish_login t s w'
       | LoginError m \<Rightarrow> Some (Inl (Failed (sqlx_from_monet (Handshake m))), w')
       | LoginRedirect target \<Rightarrow>
           Some (case parse_redirect target of
               Inl e \<Rightarrow> Inl (Failed (sqlx_from_monet e))
             | Inr LocalRetry \<Rightarrow> Inr (Continue host port (Some s))
             | Inr (Reconnect h p) \<Rightarrow> Inr (Continue h p None), w'))"
proof -
  obtain w1 where w1: "read_text_message t s w = Some (Inr line, w1)"
    "incoming w1 = text_message answer @ rest" "outgoing w1 = outgoing w"
    by (rule read_text_sent [OF h sc(1) inc [unfolded text_message_def [of line]]])
  obtain w2 where w2: "write_message t s (as_bytes (login_line d c chal hash)) w1 = Some (Inr (), w2)"
    "incoming w2 = text_message answer @ rest"
    "outgoing w2 = outgoing w @ text_message (login_line d c chal hash)"
    using write_message_healthy [OF h] w1 unfolding text_message_def by metis
  obtain w3 where w3: "read_text_message t s w2 = Some (Inr answer, w3)"
    "incoming w3 = rest" "outgoing w3 = outgoing w2"
    by (rule read_text_sent [OF h sc(2) w2(2) [unfolded text_message_def [of answer]]])
  have "attempt t d c (host, port, Some s, w) =
      (case parse_login_response answer of
         LoginOk \<Rightarrow> finish_login t s
       | LoginError message \<Rightarrow> io_fail (Failed (sqlx_from_monet (Handshake message)))
       | LoginRedirect target \<Rightarrow>
           io_bind (io_lift sqlx_from_monet (parse_redirect target)) (\<lambda>redirect.
             io_return
               (case redirect of
                  LocalRetry \<Rightarrow> Continue host port (Some s)
                | Reconnect host port \<Rightarrow> Continue host port None))) w3"
    using w1(1) w2(1) w3(1) chal hash unfolding attempt_def prod.case
    by (cases hash) (simp add: handshake_attempt_def open_stream_def io_bind_def io_return_def
        io_lift_def io_lift_fault_def login_line_def Let_def)
  with w2 w3 show ?thesis
    by (intro exI [of _ w3])
      (auto simp: io_fail_def io_bind_def io_lift_def io_return_def
        split: login_response.splits sum.splits redirect.splits)
qed

lemma attempt_connect:
  assumes "t_connect t host port w = Some (Inr s, w1)" "healthy t s incoming outgoing"
  shows "\<exists>w2. incoming w2 = incoming w1 \<and> outgoing w2 = outgoing w1 @ replicate 8 0 \<and>
    attempt t d c (host, port, None, w) = attempt t d c (host, port, Some s, w2)"
proof -
  obtain w2 where w2: "send_prime_bytes t s w1 = Some (Inr (), w2)" "incoming w2 = incoming w1"
    "outgoing w2 = outgoing w1 @ replicate 8 0"
    by (rule send_prime_healthy [OF assms(2)])
  have "attempt t d c (host, port, None, w) = attempt t d c (host, port, Some s, w2)"
    using assms(1) w2(1)
    by (simp add: attempt_def handshake_attempt_def open_stream_def connect_def io_bind_def
        io_return_def)
  with w2 show ?thesis by blast
qed

lemma finish_login_healthy:
  assumes h: "healthy t s incoming outgoing" and "incoming w = text_message reply @ rest"
    and "scalars reply"
  shows "\<exists>w'. finish_login t s w = Some (Inr (Authenticated s), w') \<and> incoming w' = rest \<and>
    outgoing w' = outgoing w @ text_message (lit ''Xreply_size -1'')"
proof -
  obtain w1 where w1: "write_message t s (as_bytes (lit ''Xreply_size -1'')) w = Some (Inr (), w1)"
    "incoming w1 = incoming w"
    "outgoing w1 = outgoing w @ text_message (lit ''Xreply_size -1'')"
    by (rule write_text_healthy [OF h])
  from w1(2) assms(2) have inc: "incoming w1 = encode_message (as_bytes reply) [] @ rest"
    by (simp add: text_message_def)
  obtain w2 where w2: "read_text_message t s w1 = Some (Inr reply, w2)" "incoming w2 = rest"
    "outgoing w2 = outgoing w1"
    by (rule read_text_sent [OF h assms(3) inc])
  from w1(1) w2(1) have "finish_login t s w = Some (Inr (Authenticated s), w2)"
    by (simp add: finish_login_def io_bind_def io_return_def)
  with w1(3) w2(2,3) show ?thesis by (intro exI [of _ w2]) simp
qed

section \<open>A sample server\<close>

definition sample_line :: rstr where
  "sample_line = lit ''s7NzFDHo0UdlE:mserver:9:SHA256,SHA1:LIT:SHA512:sql=6:''"

definition sample_digests :: digests where
  "sample_digests =
     \<lparr>ripemd160 = take 4, sha512 = take 4, sha384 = take 4, sha256 = take 4, sha224 = take 4,
      sha1 = take 4, hex_encode = concat \<circ> map (show_nat \<circ> unat)\<rparr>"

definition sample_credentials :: credentials where
  "sample_credentials =
     \<lparr>cr_username = lit ''monetdb'', cr_password = lit ''secret'', cr_database = lit ''demo''\<rparr>"

lemma sample_parse: "parse_challenge sample_line = Inr sample_challenge"
  by (simp add: sample_line_def sample_challenge_def run_simps)

lemma sample_hash:
  "\<exists>hash. compute_password_hash sample_digests sample_challenge password = Inr hash"
proof -
  have "hash_hex d (lit ''SHA512'') x = Some (hex_encode d (sha512 d x))"
    "hash_hex d (lit ''SHA256'') x = Some (hex_encode d (sha256 d x))" for d x
    by (simp_all add: hash_hex_def)
  moreover have "select_hash_algorithm [lit ''SHA256'', lit ''SHA1''] = Some (lit ''SHA256'')"
    by (simp add: select_hash_algorithm_def HASH_PRIORITY_def)
  ultimately show ?thesis
    by (simp add: compute_password_hash_def sample_challenge_def Let_def del: lit.simps)
qed

section \<open>Properties\<close>

text \<open>C27: The handshake returns a stream exactly when some chain of at
  most nine redirects, each found by the attempt before it, ends in an attempt that logs in. A
  tenth redirect in a row is always the error \<open>too many redirects\<close>: the server it names is
  never tried, so nine redirects are followed, and not ten.\<close>

theorem handshake_redirect_limit:
  "(perform_handshake t d host port (cr_username c) (cr_password c) (cr_database c) w =
      Some (Inr s, w') \<longleftrightarrow>
     (\<exists>k \<le> 9. \<exists>st. redirected t d c k (host, port, None, w) st \<and>
        attempt t d c st = Some (Inr (Authenticated s), w'))) \<and>
   (redirected t d c 10 (host, port, None, w) (h, p, reused, w10) \<longrightarrow>
      perform_handshake t d host port (cr_username c) (cr_password c) (cr_database c) w =
        Some (Inl (Failed too_many_redirects), w10))"
proof (intro conjI impI)
  have "k \<le> 9 \<longleftrightarrow> k < 10" for k :: nat by linarith
  then show "perform_handshake t d host port (cr_username c) (cr_password c) (cr_database c) w =
      Some (Inr s, w') \<longleftrightarrow>
     (\<exists>k \<le> 9. \<exists>st. redirected t d c k (host, port, None, w) st \<and>
        attempt t d c st = Some (Inr (Authenticated s), w'))"
    unfolding perform_handshake_loop loop_Inr by simp
  show "perform_handshake t d host port (cr_username c) (cr_password c) (cr_database c) w =
      Some (Inl (Failed too_many_redirects), w10)"
    if "redirected t d c 10 (host, port, None, w) (h, p, reused, w10)"
    using loop_redirected [OF that, of 0] unfolding perform_handshake_loop by (simp add: loop_0)
qed

text \<open>A server that sends every client back to itself.\<close>

definition retry_line :: rstr where
  "retry_line = lit ''^mapi:merovingian://proxy''"

lemma attempt_retry:
  assumes "healthy t s incoming outgoing"
    and "incoming w = text_message sample_line @ text_message retry_line @ rest"
  shows "\<exists>w'. incoming w' = rest \<and>
    attempt t sample_digests c (host, port, Some s, w) =
      Some (Inr (Continue host port (Some s)), w')"
proof -
  obtain hash where hash:
    "compute_password_hash sample_digests sample_challenge (cr_password c) = Inr hash"
    using sample_hash by blast
  have "parse_login_response retry_line = LoginRedirect (lit ''mapi:merovingian://proxy'')"
    "parse_redirect (lit ''mapi:merovingian://proxy'') = Inr LocalRetry"
    by (simp_all add: retry_line_def parse_login_response_def parse_redirect_def starts_with_def)
  moreover have "scalars sample_line" "scalars retry_line"
    unfolding sample_line_def retry_line_def by (rule scalars_lit)+
  ultimately show ?thesis
    using attempt_exchange [OF assms _ _ sample_parse hash, of host port] by auto
qed

lemma redirected_retry:
  assumes "healthy t s incoming outgoing"
    and "incoming w = concat (replicate n (text_message sample_line @ text_message retry_line))"
  shows "\<exists>w'. redirected t sample_digests c n (host, port, Some s, w) (host, port, Some s, w')"
  using assms(2)
proof (induction n arbitrary: w)
  case 0
  then show ?case by (auto simp: redirected_0_iff)
next
  case (Suc n)
  obtain w1 where w1: "attempt t sample_digests c (host, port, Some s, w) =
      Some (Inr (Continue host port (Some s)), w1)"
    "incoming w1 = concat (replicate n (text_message sample_line @ text_message retry_line))"
  proof -
    have "incoming w = text_message sample_line @ text_message retry_line @
        concat (replicate n (text_message sample_line @ text_message retry_line))"
      using Suc.prems by simp
    from attempt_retry [OF assms(1) this, of c host port] show ?thesis using that by blast
  qed
  with Suc.IH show ?case by (blast intro: redirected_Suc)
qed

theorem handshake_redirect_limit_witness:
  "\<exists>w10. perform_handshake script_transport sample_digests (lit ''db'') 50000
      (cr_username sample_credentials) (cr_password sample_credentials)
      (cr_database sample_credentials)
      (one_server (lit ''db'') 50000
        (concat (replicate 10 (text_message sample_line @ text_message retry_line)))) =
    Some (Inl (Failed too_many_redirects), w10)"
proof -
  let ?in = "concat (replicate 10 (text_message sample_line @ text_message retry_line))"
  let ?w = "one_server (lit ''db'') 50000 ?in"
  obtain w1 where w1: "t_connect script_transport (lit ''db'') 50000 ?w = Some (Inr 0, w1)"
    "script_in 0 w1 = ?in"
    using script_connect_one by blast
  obtain w2 where w2: "script_in 0 w2 = ?in"
    "attempt script_transport sample_digests sample_credentials (lit ''db'', 50000, None, ?w) =
     attempt script_transport sample_digests sample_credentials (lit ''db'', 50000, Some 0, w2)"
    using attempt_connect [OF w1(1) script_healthy, of sample_digests sample_credentials]
    unfolding w1(2) by blast
  obtain w3 where "redirected script_transport sample_digests sample_credentials 10
      (lit ''db'', 50000, Some 0, w2) (lit ''db'', 50000, Some 0, w3)"
    using redirected_retry [OF script_healthy w2(1)] by blast
  then have "redirected script_transport sample_digests sample_credentials (Suc 9)
      (lit ''db'', 50000, None, ?w) (lit ''db'', 50000, Some 0, w3)"
    using w2(2) by (simp add: redirected_Suc_iff numeral_eq_Suc)
  then have "redirected script_transport sample_digests sample_credentials 10
      (lit ''db'', 50000, None, ?w) (lit ''db'', 50000, Some 0, w3)" by simp
  with handshake_redirect_limit [of script_transport sample_digests "lit ''db''" 50000
      sample_credentials ?w] show ?thesis by blast
qed

lemma attempt_perform:
  assumes "attempt t d c (host, port, None, w) = Some (Inr (Authenticated s), w')"
  shows "perform_handshake t d host port (cr_username c) (cr_password c) (cr_database c) w =
    Some (Inr s, w')"
  using assms loop_Suc [of 9 t d c "(host, port, None, w)"]
  unfolding perform_handshake_loop by (simp add: numeral_eq_Suc)

lemma attempt_perform_error:
  assumes "attempt t d c (host, port, None, w) = Some (Inl e, w')"
  shows "perform_handshake t d host port (cr_username c) (cr_password c) (cr_database c) w =
    Some (Inl e, w')"
  using assms loop_Suc [of 9 t d c "(host, port, None, w)"]
  unfolding perform_handshake_loop by (simp add: numeral_eq_Suc)

lemma attempt_succeeds:
  assumes "t_connect t host port w = Some (Inr s, w1)" and "healthy t s incoming outgoing"
    and "incoming w1 = text_message line @ text_message answer @ text_message reply @ rest"
    and "scalars line" and "scalars answer" and "scalars reply"
    and "parse_challenge line = Inr chal"
    and "compute_password_hash d chal (cr_password c) = Inr hash"
    and "parse_login_response answer = LoginOk"
  shows "\<exists>w'. attempt t d c (host, port, None, w) = Some (Inr (Authenticated s), w') \<and>
    incoming w' = rest \<and>
    outgoing w' = outgoing w1 @ replicate 8 0 @ text_message (login_line d c chal hash) @
      text_message (lit ''Xreply_size -1'')"
proof -
  obtain w2 where w2: "incoming w2 = incoming w1" "outgoing w2 = outgoing w1 @ replicate 8 0"
    "attempt t d c (host, port, None, w) = attempt t d c (host, port, Some s, w2)"
    using attempt_connect [OF assms(1,2)] by blast
  have inc: "incoming w2 = text_message line @ text_message answer @ (text_message reply @ rest)"
    using w2(1) assms(3) by simp
  obtain w3 where w3: "incoming w3 = text_message reply @ rest"
    "outgoing w3 = outgoing w2 @ text_message (login_line d c chal hash)"
    "attempt t d c (host, port, Some s, w2) = finish_login t s w3"
    using attempt_exchange [OF assms(2) inc assms(4,5,7,8)] unfolding assms(9) login_response.case
    by blast
  obtain w4 where "finish_login t s w3 = Some (Inr (Authenticated s), w4)" "incoming w4 = rest"
    "outgoing w4 = outgoing w3 @ text_message (lit ''Xreply_size -1'')"
    using finish_login_healthy [OF assms(2) w3(1) assms(6)] by blast
  moreover from this(1) have
    "attempt t d c (host, port, None, w) = Some (Inr (Authenticated s), w4)"
    by (simp only: w2(3) w3(3))
  ultimately show ?thesis using w2(2) w3(2) by (intro exI [of _ w4]) simp
qed

lemma login_succeeds:
  assumes "t_connect t host port w = Some (Inr s, w1)" and "healthy t s incoming outgoing"
    and "incoming w1 = text_message line @ text_message answer @ text_message reply @ rest"
    and "scalars line" and "scalars answer" and "scalars reply"
    and "parse_challenge line = Inr chal"
    and "compute_password_hash d chal (cr_password c) = Inr hash"
    and "parse_login_response answer = LoginOk"
  shows "\<exists>w'. perform_handshake t d host port (cr_username c) (cr_password c) (cr_database c) w =
      Some (Inr s, w') \<and>
    incoming w' = rest \<and>
    outgoing w' = outgoing w1 @ replicate 8 0 @ text_message (login_line d c chal hash) @
      text_message (lit ''Xreply_size -1'')"
  using attempt_succeeds [OF assms] by (auto dest: attempt_perform)

text \<open>C7: A whole login over a healthy connection: if the server sends a readable
  challenge, an answer that accepts the login and one reply, the handshake returns the stream
  it opened. The server has then been sent eight zero bytes, the login line for its challenge
  and \<open>Xreply_size -1\<close>, each as one message, and nothing else, and everything the server sends
  after the reply is left for the first query. The reply itself may be anything, an error
  included: it is read and not looked at.\<close>

theorem handshake_success:
  assumes "t_connect t host port w = Some (Inr s, w1)" and "healthy t s incoming outgoing"
    and "incoming w1 = text_message line @ text_message answer @ text_message reply @ rest"
    and "scalars line" and "scalars answer" and "scalars reply"
    and "parse_challenge line = Inr chal"
    and "compute_password_hash d chal (cr_password c) = Inr hash"
    and "parse_login_response answer = LoginOk"
  shows "\<exists>w'. perform_handshake t d host port (cr_username c) (cr_password c) (cr_database c) w =
      Some (Inr s, w') \<and>
    incoming w' = rest \<and>
    outgoing w' = outgoing w1 @ replicate 8 0 @ text_message (login_line d c chal hash) @
      text_message (lit ''Xreply_size -1'')"
  by (rule login_succeeds [OF assms])

theorem handshake_success_witness:
  "\<exists>hash w'. compute_password_hash sample_digests sample_challenge
       (cr_password sample_credentials) = Inr hash \<and>
    perform_handshake script_transport sample_digests (lit ''db'') 50000
      (cr_username sample_credentials) (cr_password sample_credentials)
      (cr_database sample_credentials)
      (one_server (lit ''db'') 50000
        (text_message sample_line @ text_message [] @ text_message (lit ''!no'') @ [1, 0])) =
      Some (Inr 0, w') \<and>
    script_in 0 w' = [1, 0] \<and>
    script_out 0 w' = [] @ replicate 8 0 @
      text_message (login_line sample_digests sample_credentials sample_challenge hash) @
      text_message (lit ''Xreply_size -1'')"
proof -
  obtain hash where hash: "compute_password_hash sample_digests sample_challenge
       (cr_password sample_credentials) = Inr hash"
    using sample_hash by blast
  obtain w1 where w1: "t_connect script_transport (lit ''db'') 50000 (one_server (lit ''db'') 50000
        (text_message sample_line @ text_message [] @ text_message (lit ''!no'') @ [1, 0])) =
      Some (Inr 0, w1)"
    "script_in 0 w1 = text_message sample_line @ text_message [] @ text_message (lit ''!no'') @ [1, 0]"
    "script_out 0 w1 = []"
    using script_connect_one by blast
  have sc: "scalars sample_line" "scalars ([] :: rstr)" "scalars (lit ''!no'')"
    unfolding sample_line_def by (rule scalars_lit, simp, rule scalars_lit)
  have ok: "parse_login_response [] = LoginOk" by (simp add: parse_login_response_def)
  from handshake_success [OF w1(1) script_healthy w1(2) sc sample_parse hash ok] hash w1(3)
  show ?thesis by (simp only:) blast
qed

lemma login_rejected:
  assumes "t_connect t host port w = Some (Inr s, w1)" and "healthy t s incoming outgoing"
    and "incoming w1 = text_message line @ text_message answer @ rest"
    and "scalars line" and "scalars answer"
    and "parse_challenge line = Inr chal"
    and "compute_password_hash d chal (cr_password c) = Inr hash"
    and "answer \<noteq> []" and "answer \<noteq> lit ''=OK''" and "hd answer \<noteq> 35" and "hd answer \<noteq> 94"
  shows "\<exists>m w'. perform_handshake t d host port (cr_username c) (cr_password c) (cr_database c) w =
      Some (Inl (Failed (SqlxProtocol (Lit ''handshake failed: '' # m))), w') \<and>
    (hd answer = 33 \<longrightarrow> m = [Disp (tl answer)]) \<and>
    outgoing w' = outgoing w1 @ replicate 8 0 @ text_message (login_line d c chal hash)"
proof -
  obtain w2 where w2: "incoming w2 = incoming w1" "outgoing w2 = outgoing w1 @ replicate 8 0"
    "attempt t d c (host, port, None, w) = attempt t d c (host, port, Some s, w2)"
    using attempt_connect [OF assms(1,2)] by blast
  obtain x xs where x: "answer = x # xs" using assms(8) by (cases answer) auto
  define m where "m = (if x = 33 then [Disp xs]
    else [Lit ''unexpected login response: '', Dbg answer])"
  have m: "parse_login_response answer = LoginError m"
    using assms(9-11) x by (auto simp: parse_login_response_def starts_with_def m_def)
  have inc: "incoming w2 = text_message line @ text_message answer @ rest"
    using w2(1) assms(3) by simp
  obtain w3 where w3: "outgoing w3 = outgoing w2 @ text_message (login_line d c chal hash)"
    "attempt t d c (host, port, Some s, w2) =
       Some (Inl (Failed (sqlx_from_monet (Handshake m))), w3)"
    using attempt_exchange [OF assms(2) inc assms(4-7)] unfolding m login_response.case by blast
  then have "perform_handshake t d host port (cr_username c) (cr_password c) (cr_database c) w =
      Some (Inl (Failed (sqlx_from_monet (Handshake m))), w3)"
    by (intro attempt_perform_error) (simp only: w2(3))
  with w2(2) w3(1) x show ?thesis
    by (intro exI [of _ m] exI [of _ w3]) (simp add: m_def)
qed

text \<open>A login the server rejects is an error with the server's message, and
  no command is sent after the login line; an answer of no known form is an error too, never a
  login.\<close>

theorem handshake_rejected:
  assumes "t_connect t host port w = Some (Inr s, w1)" and "healthy t s incoming outgoing"
    and "incoming w1 = text_message line @ text_message answer @ rest"
    and "scalars line" and "scalars answer"
    and "parse_challenge line = Inr chal"
    and "compute_password_hash d chal (cr_password c) = Inr hash"
    and "answer \<noteq> []" and "answer \<noteq> lit ''=OK''" and "hd answer \<noteq> 35" and "hd answer \<noteq> 94"
  shows "\<exists>m w'. perform_handshake t d host port (cr_username c) (cr_password c) (cr_database c) w =
      Some (Inl (Failed (SqlxProtocol (Lit ''handshake failed: '' # m))), w') \<and>
    (hd answer = 33 \<longrightarrow> m = [Disp (tl answer)]) \<and>
    outgoing w' = outgoing w1 @ replicate 8 0 @ text_message (login_line d c chal hash)"
  by (rule login_rejected [OF assms])

theorem handshake_rejected_witness:
  "\<exists>m w'. perform_handshake script_transport sample_digests (lit ''db'') 50000
      (cr_username sample_credentials) (cr_password sample_credentials)
      (cr_database sample_credentials)
      (one_server (lit ''db'') 50000 (text_message sample_line @ text_message (lit ''!no'') @ [])) =
      Some (Inl (Failed (SqlxProtocol (Lit ''handshake failed: '' # m))), w') \<and>
    (hd (lit ''!no'') = 33 \<longrightarrow> m = [Disp (tl (lit ''!no''))])"
proof -
  obtain hash where hash: "compute_password_hash sample_digests sample_challenge
       (cr_password sample_credentials) = Inr hash"
    using sample_hash by blast
  obtain w1 where w1: "t_connect script_transport (lit ''db'') 50000 (one_server (lit ''db'') 50000
        (text_message sample_line @ text_message (lit ''!no'') @ [])) = Some (Inr 0, w1)"
    "script_in 0 w1 = text_message sample_line @ text_message (lit ''!no'') @ []"
    using script_connect_one by blast
  have sc: "scalars sample_line" "scalars (lit ''!no'')"
    unfolding sample_line_def by (rule scalars_lit)+
  have "lit ''!no'' \<noteq> []" "lit ''!no'' \<noteq> lit ''=OK''" "hd (lit ''!no'') \<noteq> 35" "hd (lit ''!no'') \<noteq> 94"
    by simp_all
  from handshake_rejected [OF w1(1) script_healthy w1(2) sc sample_parse hash this]
  show ?thesis by blast
qed

text \<open>C36: The password leaves the driver only through its digest: two passwords
  with the same digests under every algorithm lead to the same handshake, with the same bytes
  sent to any servers and the same result.\<close>

theorem password_only_hashed:
  assumes "\<And>algorithm. hash_hex d algorithm (as_bytes password) = hash_hex d algorithm (as_bytes password')"
  shows "perform_handshake t d host port username password database =
    perform_handshake t d host port username password' database"
proof -
  have hash: "compute_password_hash d chal password = compute_password_hash d chal password'" for chal
    by (simp add: compute_password_hash_def assms)
  have attempt: "handshake_attempt t d username password database h p reused =
      handshake_attempt t d username password' database h p reused" for h p reused
    by (simp add: handshake_attempt_def hash)
  have "handshake_loop n t d username password database h p reused =
      handshake_loop n t d username password' database h p reused" for n h p reused
  proof (induction n arbitrary: h p reused)
    case (Suc n)
    show ?case unfolding handshake_loop.simps attempt
      by (rule arg_cong [where f = "io_bind m" for m])
        (auto simp: Suc split: handshake_step.split)
  qed simp
  then show ?thesis by (simp add: perform_handshake_def)
qed

theorem password_only_hashed_witness:
  "perform_handshake script_transport (sample_digests\<lparr>hex_encode := \<lambda>_. lit ''00''\<rparr>) (lit ''db'') 50000
      (lit ''monetdb'') (lit ''a'') (lit ''demo'') =
    perform_handshake script_transport (sample_digests\<lparr>hex_encode := \<lambda>_. lit ''00''\<rparr>) (lit ''db'') 50000
      (lit ''monetdb'') (lit ''b'') (lit ''demo'')"
  by (rule password_only_hashed) (simp add: hash_hex_def)

end
