(* ===== verification/Connection.thy ===== *)
theory Connection
  imports Protocol Arguments Rows
begin

text \<open>
  The connection and what sqlx calls on it (\<open>src/connection.rs\<close>, \<open>src/database.rs\<close>,
  \<open>src/statement.rs\<close>, \<open>src/transaction.rs\<close>): pinging and closing, running one query and turning
  its response into the stream of rows and results, and the operations that are not
  implemented yet, which panic.
\<close>

section \<open>Query results\<close>

record monet_query_result =
  rows_affected :: u64

definition monet_query_result_default :: monet_query_result where
  "monet_query_result_default = \<lparr>rows_affected = 0\<rparr>"

text \<open>The \<open>+=\<close> of a release build wraps; a debug build panics on overflow instead.\<close>

definition extend_query_result ::
    "monet_query_result \<Rightarrow> monet_query_result list \<Rightarrow> monet_query_result" where
  "extend_query_result self iter =
     fold (\<lambda>result self. self\<lparr>rows_affected := rows_affected self + rows_affected result\<rparr>) iter self"

definition database_name :: rstr where
  "database_name = lit ''monetdb''"

definition url_schemes :: "rstr list" where
  "url_schemes = [lit ''monetdb'']"

section \<open>The connection\<close>

record 's monet_connection =
  conn_stream :: 's

definition connection_new :: "'s \<Rightarrow> 's monet_connection" where
  "connection_new stream = \<lparr>conn_stream = stream\<rparr>"

text \<open>The \<open>Debug\<close> form (\<open>finish_non_exhaustive\<close> of no fields).\<close>

definition debug_connection :: "'s monet_connection \<Rightarrow> rstr" where
  "debug_connection conn = lit ''MonetConnection { .. }''"

text \<open>An operation that is not implemented: polling it panics.\<close>

definition unimplemented :: "string \<Rightarrow> ('w, 'a) io" where
  "unimplemented msg = io_fail (Panicked msg)"

definition connection_close :: "('w, 's) transport \<Rightarrow> 's monet_connection \<Rightarrow> ('w, unit) io" where
  "connection_close t conn =
     io_bind (io_os (t_flush t (conn_stream conn))) (\<lambda>_. io_os (t_shutdown t (conn_stream conn)))"

definition connection_close_hard ::
    "('w, 's) transport \<Rightarrow> 's monet_connection \<Rightarrow> ('w, unit) io" where
  "connection_close_hard t conn = io_os (t_shutdown t (conn_stream conn))"

definition connection_ping :: "('w, 's) transport \<Rightarrow> 's monet_connection \<Rightarrow> ('w, unit) io" where
  "connection_ping t conn =
     io_bind (execute_query t (conn_stream conn) (lit ''SELECT 1'')) (\<lambda>_. io_return ())"

definition connection_begin :: "'s monet_connection \<Rightarrow> ('w, 'tx) io" where
  "connection_begin conn = unimplemented ''stage H: begin transaction via TransactionManager''"

definition connection_shrink_buffers ::
    "('w, 's) transport \<Rightarrow> 's monet_connection \<Rightarrow> ('w, unit) io" where
  "connection_shrink_buffers t conn w =
     Some (Inr (), t_shrink_buffers t (conn_stream conn) w)"

definition connection_flush :: "('w, 's) transport \<Rightarrow> 's monet_connection \<Rightarrow> ('w, unit) io" where
  "connection_flush t conn = io_os (t_flush t (conn_stream conn))"

definition connection_should_flush :: "'s monet_connection \<Rightarrow> bool" where
  "connection_should_flush conn \<longleftrightarrow> False"

section \<open>Queries\<close>

text \<open>An item of the stream: \<open>Either::Left\<close> is a result, \<open>Either::Right\<close> a row.\<close>

type_synonym query_item = "sqlx_error + monet_query_result + monet_row"

text \<open>A \<open>match\<close> on the result of an \<open>await\<close>: an error is a value, a panic still unwinds.\<close>

fun caught :: "sqlx_error fault + 'a \<Rightarrow> sqlx_error fault + (sqlx_error + 'a)" where
  "caught (Inl (Failed e)) = Inr (Inl e)"
| "caught (Inl (Panicked p)) = Inl (Panicked p)"
| "caught (Inr a) = Inr (Inr a)"

definition io_match :: "('w, 'a) io \<Rightarrow> ('w, sqlx_error + 'a) io" where
  "io_match m w = map_option (\<lambda>(r, w). (caught r, w)) (m w)"

definition run_query ::
    "('w, 's) transport \<Rightarrow> 's monet_connection \<Rightarrow> rstr \<Rightarrow> box_error + monet_arguments option \<Rightarrow>
     ('w, query_item list) io" where
  "run_query t conn sql arguments =
     (case arguments of
        Inl err \<Rightarrow> io_return [Inl (SqlxEncode err)]
      | Inr arguments \<Rightarrow>
     (case (case arguments of
              Some arguments \<Rightarrow> substitute_into arguments sql
            | None \<Rightarrow> Inr sql) of
        Inl err \<Rightarrow> io_return [Inl err]
      | Inr sql_text \<Rightarrow>
     io_bind (io_match (execute_query t (conn_stream conn) sql_text)) (\<lambda>response.
     case response of
       Inl err \<Rightarrow> io_return [Inl err]
     | Inr response \<Rightarrow>
         io_return
           (case response of
              QTable table \<Rightarrow>
                (let rows_affected = row_count table;
                     items = map (\<lambda>row. Inr (Inr row)) (from_table_result table)
                 in items @ [Inr (Inl \<lparr>rows_affected = rows_affected\<rparr>)])
            | QUpdate affected _ \<Rightarrow> [Inr (Inl \<lparr>rows_affected = affected\<rparr>)]
            | QSchema \<Rightarrow> [Inr (Inl monet_query_result_default)]
            | QTransaction _ \<Rightarrow> [Inr (Inl monet_query_result_default)]
            | QOk \<Rightarrow> [Inr (Inl monet_query_result_default)]))))"

text \<open>
  \<open>fetch_many\<close> gives the items of \<open>run_query\<close> one by one; the query has its text and, once,
  its arguments.
\<close>

definition fetch_many ::
    "('w, 's) transport \<Rightarrow> 's monet_connection \<Rightarrow> rstr \<Rightarrow> box_error + monet_arguments option \<Rightarrow>
     ('w, query_item list) io" where
  "fetch_many t conn sql arguments = run_query t conn sql arguments"

fun first_row :: "query_item list \<Rightarrow> sqlx_error + monet_row option" where
  "first_row [] = Inr None"
| "first_row (Inl e # items) = Inl e"
| "first_row (Inr (Inr row) # items) = Inr (Some row)"
| "first_row (Inr (Inl result) # items) = first_row items"

definition fetch_optional ::
    "('w, 's) transport \<Rightarrow> 's monet_connection \<Rightarrow> rstr \<Rightarrow> box_error + monet_arguments option \<Rightarrow>
     ('w, monet_row option) io" where
  "fetch_optional t conn sql arguments =
     io_bind (fetch_many t conn sql arguments) (\<lambda>items. io_lift (\<lambda>e. e) (first_row items))"

definition prepare_with ::
    "'s monet_connection \<Rightarrow> rstr \<Rightarrow> monet_type_info list \<Rightarrow> ('w, 'stmt) io" where
  "prepare_with conn sql parameters = unimplemented
     ''stage J: explicit conn.prepare() is not supported in v1; use sqlx::query() instead''"

section \<open>Statements and transactions\<close>

record monet_statement =
  st_sql :: rstr
  st_columns :: "monet_column list"
  st_parameters :: "monet_type_info list option"

definition monet_statement_new :: "rstr \<Rightarrow> monet_statement" where
  "monet_statement_new sql = \<lparr>st_sql = sql, st_columns = [], st_parameters = None\<rparr>"

definition statement_into_sql :: "monet_statement \<Rightarrow> rstr" where
  "statement_into_sql self = st_sql self"

definition statement_sql :: "monet_statement \<Rightarrow> rstr" where
  "statement_sql self = st_sql self"

definition statement_parameters ::
    "monet_statement \<Rightarrow> (monet_type_info list + nat) option" where
  "statement_parameters self = map_option Inl (st_parameters self)"

definition statement_columns :: "monet_statement \<Rightarrow> monet_column list" where
  "statement_columns self = st_columns self"

text \<open>The six \<open>query\<close> methods of a statement, by their name.\<close>

datatype statement_query =
  Query | QueryWith | QueryAs | QueryAsWith | QueryScalar | QueryScalarWith

fun statement_query_panic :: "statement_query \<Rightarrow> string" where
  "statement_query_panic Query = ''stage G: implement query_statement helper''"
| "statement_query_panic QueryWith = ''stage G: implement query_statement_with helper''"
| "statement_query_panic QueryAs = ''stage G: implement query_statement_as helper''"
| "statement_query_panic QueryAsWith = ''stage G: implement query_statement_as_with helper''"
| "statement_query_panic QueryScalar = ''stage G: implement query_statement_scalar helper''"
| "statement_query_panic QueryScalarWith =
     ''stage G: implement query_statement_scalar_with helper''"

definition statement_query_call ::
    "statement_query \<Rightarrow> monet_statement \<Rightarrow> 'e fault + 'q" where
  "statement_query_call kind self = Inl (Panicked (statement_query_panic kind))"

definition transaction_begin :: "'s monet_connection \<Rightarrow> rstr option \<Rightarrow> ('w, unit) io" where
  "transaction_begin conn statement = unimplemented ''stage H: send BEGIN or SAVEPOINT command''"

definition transaction_commit :: "'s monet_connection \<Rightarrow> ('w, unit) io" where
  "transaction_commit conn = unimplemented ''stage H: send COMMIT command''"

definition transaction_rollback :: "'s monet_connection \<Rightarrow> ('w, unit) io" where
  "transaction_rollback conn =
     unimplemented ''stage H: send ROLLBACK or ROLLBACK TO SAVEPOINT command''"

definition transaction_start_rollback :: "'s monet_connection \<Rightarrow> ('w, unit) io" where
  "transaction_start_rollback conn =
     unimplemented ''stage H: queue a rollback to be executed on next async operation''"

definition transaction_depth :: "'s monet_connection \<Rightarrow> ('w, nat) io" where
  "transaction_depth conn = unimplemented
     ''stage H: return current transaction depth (0=no txn, 1+=active txn or savepoint)''"

end
