(* ===== verification/Connection_Laws.thy ===== *)
theory Connection_Laws
  imports Connection Login Response_Laws
begin

text \<open>
  What a caller of the connection can rely on: the shape of the stream a query yields, what is
  refused before anything is sent, that responses go to their queries, and how the results of
  several statements add up.
\<close>

section \<open>The items of one query\<close>

lemma query_items:
  assumes "run_query t conn sql arguments w = Some (Inr items, w')"
  shows "(\<exists>e. items = [Inl e]) \<or>
    (\<exists>rows r. items = map (\<lambda>row. Inr (Inr row)) rows @ [Inr (Inl r)])"
proof -
  have left: "\<exists>rows r. [Inr (Inl q)] = map (\<lambda>row. Inr (Inr row)) rows @ [Inr (Inl r)]"
    for q :: monet_query_result
    by (intro exI [of _ "[]"]) simp
  from assms show ?thesis
    unfolding run_query_def
    by (auto simp: io_return_def io_bind_def io_match_def left Let_def
        split: sum.splits option.splits query_response.splits bind_splits elim!: caught.elims) blast+
qed

text \<open>Whatever the server does, a query that yields its stream yields either
  one error and nothing else, or the rows of the response followed by exactly one result: no
  row comes after an error or after the result, and the stream is never empty.\<close>

theorem query_items_shape:
  assumes "run_query t conn sql arguments w = Some (Inr items, w')"
  shows "(\<exists>e. items = [Inl e]) \<or>
    (\<exists>rows r. items = map (\<lambda>row. Inr (Inr row)) rows @ [Inr (Inl r)])"
  by (rule query_items [OF assms])

text \<open>A query whose arguments could not be encoded, or whose question
  marks do not match the number of arguments, is refused before anything is sent or read: its
  only item is the encoding error, and the world is as it was.\<close>

theorem query_refused_locally:
  "run_query t conn sql (Inl err) w = Some (Inr [Inl (SqlxEncode err)], w) \<and>
   (placeholders sql \<noteq> length (literals args) \<longrightarrow>
     (\<exists>m. run_query t conn sql (Inr (Some args)) w =
        Some (Inr [Inl (SqlxEncode (BoxMessage m))], w)))"
  by (simp add: run_query_def io_return_def substitute_into_def)

lemma first_row_rows:
  "first_row (map (\<lambda>row. Inr (Inr row)) rs @ [Inr (Inl r)]) =
     Inr (case rs of [] \<Rightarrow> None | row # _ \<Rightarrow> Some row)"
  by (cases rs) simp_all

section \<open>Several results\<close>

lemma extend_sum:
  "rows_affected (extend_query_result self iter) =
     rows_affected self + sum_list (map rows_affected iter)"
proof (induction iter arbitrary: self)
  case (Cons r iter)
  from Cons.IH [of "self\<lparr>rows_affected := rows_affected self + rows_affected r\<rparr>"]
  show ?case by (simp add: extend_query_result_def add.assoc)
qed (simp add: extend_query_result_def)

lemma unat_sum_list:
  "unat (x + sum_list ws) = (unat x + sum_list (map unat ws)) mod 2 ^ LENGTH('a)"
  for x :: "'a::len word"
proof (induction ws arbitrary: x)
  case Nil
  then show ?case using unsigned_less [of x, where ?'a = nat] by simp
next
  case (Cons w ws)
  have "unat (x + sum_list (w # ws)) = unat ((x + w) + sum_list ws)" by (simp add: add.assoc)
  also have "\<dots> = (unat (x + w) + sum_list (map unat ws)) mod 2 ^ LENGTH('a)" by (rule Cons.IH)
  also have "\<dots> = (unat x + unat w + sum_list (map unat ws)) mod 2 ^ LENGTH('a)"
    by (simp add: unat_word_ariths mod_simps)
  finally show ?case by (simp add: add.assoc)
qed

text \<open>Collecting results adds up their row counts modulo \<open>2 ^ 64\<close>: the total is
  exact as long as it fits in 64 bits, and wraps beyond (in a release build).\<close>

theorem extend_wraps:
  "unat (rows_affected (extend_query_result self iter)) =
     (unat (rows_affected self) + sum_list (map (unat \<circ> rows_affected) iter)) mod 2 ^ 64"
  unfolding extend_sum by (simp add: unat_sum_list)

section \<open>One query and its reply\<close>

lemma execute_text:
  assumes h: "healthy t s incoming outgoing" and "scalars reply"
    and "incoming w = text_message reply @ rest"
  obtains w' where "execute_query t s sql w =
      Some (map_err (\<lambda>e. Failed (sqlx_from_response e)) (parse_response reply), w')"
    "incoming w' = rest" "outgoing w' = outgoing w @ encode_message (encode_query sql) []"
proof -
  obtain w1 where w1: "write_message t s (encode_query sql) w = Some (Inr (), w1)"
    "incoming w1 = incoming w" "outgoing w1 = outgoing w @ encode_message (encode_query sql) []"
    by (rule write_message_healthy [OF h])
  have "incoming w1 = encode_message (as_bytes reply) [] @ rest"
    using w1(2) assms(3) by (simp add: text_message_def)
  then obtain w2 where w2: "read_text_message t s w1 = Some (Inr reply, w2)"
    "incoming w2 = rest" "outgoing w2 = outgoing w1"
    by (rule read_text_sent [OF h assms(2)])
  from w1(1) w2(1) have "execute_query t s sql w =
      Some (map_err (\<lambda>e. Failed (sqlx_from_response e)) (parse_response reply), w2)"
    by (simp add: execute_query_def io_bind_def io_lift_def)
  with w1(3) w2(2,3) show ?thesis by (intro that [of w2]) simp_all
qed

theorem query_items_shape_witness:
  "\<exists>items. run_query script_transport (connection_new 0) (lit ''x'') (Inl BoxFromUtf8)
      (one_server [] 0 []) = Some (Inr items, one_server [] 0 []) \<and>
    ((\<exists>e. items = [Inl e]) \<or>
     (\<exists>rows r. items = map (\<lambda>row. Inr (Inr row)) rows @ [Inr (Inl r)]))"
proof -
  have "run_query script_transport (connection_new 0) (lit ''x'') (Inl BoxFromUtf8)
      (one_server [] 0 []) = Some (Inr [Inl (SqlxEncode BoxFromUtf8)], one_server [] 0 [])"
    by (simp add: run_query_def io_return_def)
  from this query_items_shape [OF this] show ?thesis by blast
qed

text \<open>\<open>fetch_optional\<close> returns the first row the query yields, no row if
  its response has none, and the query's error if it fails; it sends and reads what the query
  does and nothing more.\<close>

theorem fetch_optional_first:
  assumes "run_query t conn sql arguments w = Some (Inr items, w')"
  shows "\<exists>r. fetch_optional t conn sql arguments w = Some (r, w') \<and>
    ((\<exists>e. items = [Inl e] \<and> r = Inl (Failed e)) \<or>
     (\<exists>rows q. items = map (\<lambda>row. Inr (Inr row)) rows @ [Inr (Inl q)] \<and>
        r = Inr (case rows of [] \<Rightarrow> None | row # _ \<Rightarrow> Some row)))"
proof -
  have "fetch_optional t conn sql arguments w = Some (map_err Failed (first_row items), w')"
    using assms by (simp add: fetch_optional_def fetch_many_def io_bind_def io_lift_def)
  moreover from query_items [OF assms] consider (err) e where "items = [Inl e]"
    | (rows) rs q where "items = map (\<lambda>row. Inr (Inr row)) rs @ [Inr (Inl q)]" by blast
  then have "(\<exists>e. items = [Inl e] \<and> map_err Failed (first_row items) = Inl (Failed e)) \<or>
     (\<exists>rows q. items = map (\<lambda>row. Inr (Inr row)) rows @ [Inr (Inl q)] \<and>
        map_err Failed (first_row items) = Inr (case rows of [] \<Rightarrow> None | row # _ \<Rightarrow> Some row))"
  proof cases
    case (rows rs q)
    then have "map_err Failed (first_row items) = Inr (case rs of [] \<Rightarrow> None | row # _ \<Rightarrow> Some row)"
      by (simp only: first_row_rows map_err.simps)
    with rows show ?thesis by blast
  qed simp
  ultimately show ?thesis by blast
qed

theorem fetch_optional_first_witness:
  "\<exists>r. fetch_optional script_transport (connection_new 0) (lit ''x'') (Inl BoxFromUtf8)
      (one_server [] 0 []) = Some (r, one_server [] 0 [])"
proof -
  have "run_query script_transport (connection_new 0) (lit ''x'') (Inl BoxFromUtf8)
      (one_server [] 0 []) = Some (Inr [Inl (SqlxEncode BoxFromUtf8)], one_server [] 0 [])"
    by (simp add: run_query_def io_return_def)
  from fetch_optional_first [OF this] show ?thesis by blast
qed

end
