(* ===== verification/Connect_Options.thy ===== *)
theory Connect_Options
  imports Connection Login
begin

text \<open>
  The connection options (\<open>src/options.rs\<close>): defaults, builder methods, their text form, reading
  them from a URL, and connecting. \<open>Url\<close> belongs to another crate: its parser is an argument,
  and a parsed URL is the record of what the accessors the driver calls return. \<open>LogSettings\<close>
  is sqlx's, a type argument with its two setters.
\<close>

section \<open>Options\<close>

definition DEFAULT_PORT :: u16 where
  "DEFAULT_PORT = 50000"

record 'l connect_options =
  opt_host :: rstr
  opt_port :: u16
  opt_username :: rstr
  opt_password :: rstr
  opt_database :: rstr
  opt_log_settings :: 'l

definition options_default :: "'l \<Rightarrow> 'l connect_options" where
  "options_default log_default =
     \<lparr>opt_host = lit ''localhost'', opt_port = DEFAULT_PORT, opt_username = lit ''monetdb'',
      opt_password = lit ''monetdb'', opt_database = lit ''monetdb'',
      opt_log_settings = log_default\<rparr>"

definition options_new :: "'l \<Rightarrow> 'l connect_options" where
  "options_new log_default = options_default log_default"

definition set_host :: "rstr \<Rightarrow> 'l connect_options \<Rightarrow> 'l connect_options" where
  "set_host host self = self\<lparr>opt_host := host\<rparr>"

definition set_port :: "u16 \<Rightarrow> 'l connect_options \<Rightarrow> 'l connect_options" where
  "set_port port self = self\<lparr>opt_port := port\<rparr>"

definition set_username :: "rstr \<Rightarrow> 'l connect_options \<Rightarrow> 'l connect_options" where
  "set_username username self = self\<lparr>opt_username := username\<rparr>"

definition set_password :: "rstr \<Rightarrow> 'l connect_options \<Rightarrow> 'l connect_options" where
  "set_password password self = self\<lparr>opt_password := password\<rparr>"

definition set_database :: "rstr \<Rightarrow> 'l connect_options \<Rightarrow> 'l connect_options" where
  "set_database database self = self\<lparr>opt_database := database\<rparr>"

definition display_options :: "'l connect_options \<Rightarrow> rstr" where
  "display_options self =
     lit ''monetdb://'' @ opt_username self @ lit ''@'' @ opt_host self @ lit '':'' @
       show_uint (opt_port self) @ lit ''/'' @ opt_database self"

text \<open>\<open>log_statements\<close> and \<open>log_slow_statements\<close> call the setter of the settings.\<close>

definition log_statements ::
    "('level \<Rightarrow> 'l \<Rightarrow> 'l) \<Rightarrow> 'level \<Rightarrow> 'l connect_options \<Rightarrow> 'l connect_options" where
  "log_statements setter level self = self\<lparr>opt_log_settings := setter level (opt_log_settings self)\<rparr>"

definition log_slow_statements ::
    "('level \<Rightarrow> 'duration \<Rightarrow> 'l \<Rightarrow> 'l) \<Rightarrow> 'level \<Rightarrow> 'duration \<Rightarrow> 'l connect_options \<Rightarrow>
     'l connect_options" where
  "log_slow_statements setter level duration self =
     self\<lparr>opt_log_settings := setter level duration (opt_log_settings self)\<rparr>"

section \<open>URLs\<close>

record url =
  url_host_str :: "rstr option"
  url_port :: "u16 option"
  url_username :: rstr
  url_password :: "rstr option"
  url_path :: rstr

definition options_from_url :: "'l \<Rightarrow> url \<Rightarrow> sqlx_error + 'l connect_options" where
  "options_from_url log_default url =
     (let options = options_default log_default;
          options = (case url_host_str url of
            Some host \<Rightarrow> options\<lparr>opt_host := host\<rparr> | None \<Rightarrow> options);
          options = (case url_port url of
            Some port \<Rightarrow> options\<lparr>opt_port := port\<rparr> | None \<Rightarrow> options);
          options = (if url_username url \<noteq> []
            then options\<lparr>opt_username := url_username url\<rparr> else options);
          options = (case url_password url of
            Some password \<Rightarrow> options\<lparr>opt_password := password\<rparr> | None \<Rightarrow> options);
          database = trim_start_matches (\<lambda>c. c = ch CHR ''/'') (url_path url);
          options = (if database \<noteq> [] then options\<lparr>opt_database := database\<rparr> else options)
      in Inr options)"

definition options_from_str ::
    "(rstr \<Rightarrow> rstr + url) \<Rightarrow> 'l \<Rightarrow> rstr \<Rightarrow> sqlx_error + 'l connect_options" where
  "options_from_str url_parse log_default s =
     res_bind
       (map_err (\<lambda>e. sqlx_from_monet (Handshake [Lit ''invalid connection URL: '', Disp e]))
         (url_parse s)) (\<lambda>url.
     options_from_url log_default url)"

definition options_connect ::
    "('w, 's) transport \<Rightarrow> digests \<Rightarrow> 'l connect_options \<Rightarrow> ('w, 's monet_connection) io" where
  "options_connect t d self =
     io_bind (perform_handshake t d (opt_host self) (opt_port self) (opt_username self)
       (opt_password self) (opt_database self)) (\<lambda>stream.
     io_return (connection_new stream))"

section \<open>Properties\<close>

text \<open>Reading a URL never fails, and every option comes from its own part of
  the URL, unchanged and not decoded, or is the default where the URL leaves it out; of the path
  the leading slashes are dropped and inner ones kept.\<close>

theorem from_url_complete:
  "options_from_url l u = Inr
     \<lparr>opt_host = (case url_host_str u of None \<Rightarrow> lit ''localhost'' | Some h \<Rightarrow> h),
      opt_port = (case url_port u of None \<Rightarrow> 50000 | Some p \<Rightarrow> p),
      opt_username = (if url_username u = [] then lit ''monetdb'' else url_username u),
      opt_password = (case url_password u of None \<Rightarrow> lit ''monetdb'' | Some p \<Rightarrow> p),
      opt_database = (if list_all (\<lambda>c. c = 47) (url_path u) then lit ''monetdb''
         else dropWhile (\<lambda>c. c = 47) (url_path u)),
      opt_log_settings = l\<rparr>"
proof -
  have "dropWhile (\<lambda>c. c = 47) (url_path u) = [] \<longleftrightarrow> list_all (\<lambda>c. c = 47) (url_path u)"
    by (simp add: dropWhile_eq_Nil_conv list_all_iff)
  then show ?thesis
    by (simp add: options_from_url_def Let_def options_default_def DEFAULT_PORT_def
        trim_start_matches_def split: option.splits)
qed

section \<open>The text of a URL\<close>

text \<open>
  What RFC 3986 and the \<open>url\<close> crate say of \<open>monetdb://[user[:password]@]host[:port][/database]\<close>
  when the parts are of letters, digits, minus and underscore (in a host dots too), which need
  no encoding: the parser gives each part as it stands. It is stated for every choice of the
  parts and says nothing of the driver.
\<close>

definition plain_char :: "rchar \<Rightarrow> bool" where
  "plain_char c \<longleftrightarrow> is_digit c \<or> 65 \<le> c \<and> c \<le> 90 \<or> 97 \<le> c \<and> c \<le> 122 \<or> c = 45 \<or> c = 95"

definition plain_part :: "rstr \<Rightarrow> bool" where
  "plain_part s \<longleftrightarrow> s \<noteq> [] \<and> list_all plain_char s"

definition plain_host :: "rstr \<Rightarrow> bool" where
  "plain_host s \<longleftrightarrow> s \<noteq> [] \<and> list_all (\<lambda>c. plain_char c \<or> c = 46) s"

fun plain_user :: "(rstr \<times> rstr option) option \<Rightarrow> bool" where
  "plain_user None = True"
| "plain_user (Some (user, None)) = plain_part user"
| "plain_user (Some (user, Some password)) = (plain_part user \<and> plain_part password)"

fun user_text :: "(rstr \<times> rstr option) option \<Rightarrow> rstr" where
  "user_text None = []"
| "user_text (Some (user, None)) = user @ [64]"
| "user_text (Some (user, Some password)) = user @ 58 # password @ [64]"

definition url_text :: "(rstr \<times> rstr option) option \<Rightarrow> rstr \<Rightarrow> u16 option \<Rightarrow> rstr option \<Rightarrow> rstr" where
  "url_text info host port db =
     lit ''monetdb://'' @ user_text info @ host @
       (case port of None \<Rightarrow> [] | Some p \<Rightarrow> 58 # show_uint p) @
       (case db of None \<Rightarrow> [] | Some d \<Rightarrow> 47 # d)"

definition url_reader :: "(rstr \<Rightarrow> rstr + url) \<Rightarrow> bool" where
  "url_reader url_parse \<longleftrightarrow>
     (\<forall>info host port db. plain_user info \<longrightarrow> plain_host host \<longrightarrow> pred_option plain_part db \<longrightarrow>
        url_parse (url_text info host port db) = Inr
          \<lparr>url_host_str = Some host, url_port = port,
           url_username = (case info of None \<Rightarrow> [] | Some (user, _) \<Rightarrow> user),
           url_password = Option.bind info snd,
           url_path = (case db of None \<Rightarrow> [] | Some d \<Rightarrow> 47 # d)\<rparr>)"

definition plain_options :: "'l connect_options \<Rightarrow> bool" where
  "plain_options opts \<longleftrightarrow> plain_part (opt_username opts) \<and> plain_host (opt_host opts) \<and> plain_part (opt_database opts)"

lemma display_is_url:
  "display_options opts =
     url_text (Some (opt_username opts, None)) (opt_host opts) (Some (opt_port opts)) (Some (opt_database opts))"
  by (simp add: display_options_def url_text_def)

text \<open>The driver's reading of such a URL, and of the text form of plain options.\<close>

lemma plain_path: "plain_part d \<Longrightarrow> dropWhile (\<lambda>c. c = 47) (47 # d) = d \<and> \<not> list_all (\<lambda>c. c = 47) (47 # d) \<and> d \<noteq> []"
  by (cases d) (auto simp: plain_part_def plain_char_def is_digit_def)

lemma from_plain_url:
  assumes "url_reader url_parse" "plain_user info" "plain_host host" "pred_option plain_part db"
  shows "options_from_str url_parse l (url_text info host port db) = Inr
    \<lparr>opt_host = host, opt_port = (case port of None \<Rightarrow> 50000 | Some p \<Rightarrow> p),
     opt_username = (case info of None \<Rightarrow> lit ''monetdb'' | Some (user, _) \<Rightarrow> user),
     opt_password = (case Option.bind info snd of None \<Rightarrow> lit ''monetdb'' | Some p \<Rightarrow> p),
     opt_database = (case db of None \<Rightarrow> lit ''monetdb'' | Some d \<Rightarrow> d), opt_log_settings = l\<rparr>"
proof -
  have "url_parse (url_text info host port db) = Inr
      \<lparr>url_host_str = Some host, url_port = port,
       url_username = (case info of None \<Rightarrow> [] | Some (user, _) \<Rightarrow> user),
       url_password = Option.bind info snd,
       url_path = (case db of None \<Rightarrow> [] | Some d \<Rightarrow> 47 # d)\<rparr>"
    using assms unfolding url_reader_def by blast
  then have "options_from_str url_parse l (url_text info host port db) = options_from_url l
      \<lparr>url_host_str = Some host, url_port = port,
       url_username = (case info of None \<Rightarrow> [] | Some (user, _) \<Rightarrow> user),
       url_password = Option.bind info snd,
       url_path = (case db of None \<Rightarrow> [] | Some d \<Rightarrow> 47 # d)\<rparr>"
    by (simp add: options_from_str_def)
  moreover have "user \<noteq> []" if "info = Some (user, p)" for user p
    using that assms(2) by (cases p) (simp_all add: plain_part_def)
  moreover have "dropWhile (\<lambda>c. c = 47) (47 # d) = d" "\<not> list_all (\<lambda>c. c = 47) (47 # d)" if "db = Some d" for d
    using that assms(4) plain_path [of d] by simp_all
  ultimately show ?thesis
    by (cases db; cases info) (auto simp: from_url_complete simp del: lit.simps)
qed

lemma from_displayed:
  assumes "url_reader url_parse" "plain_options opts"
  shows "options_from_str url_parse l (display_options opts) = Inr
    \<lparr>opt_host = opt_host opts, opt_port = opt_port opts, opt_username = opt_username opts,
     opt_password = lit ''monetdb'', opt_database = opt_database opts, opt_log_settings = l\<rparr>"
proof -
  have "plain_user (Some (opt_username opts, None))" "plain_host (opt_host opts)"
    "pred_option plain_part (Some (opt_database opts))" using assms(2) by (simp_all add: plain_options_def)
  from from_plain_url [OF assms(1) this, of l "Some (opt_port opts)"] show ?thesis
    unfolding display_is_url by simp
qed

text \<open>C40: The text form of the options and the URLs they are read from, for
  options of plain parts and any parser that reads such URLs as documented. Reading a URL gives
  each option from its own part, the password and every absent part at its default or as the
  URL says. The text form read back gives the options again, with the default password and new
  log settings; two options have the same text form exactly when their hosts, ports, users and
  databases are the same, so it shows all four and nothing of the password and log settings.\<close>

theorem options_display_roundtrip:
  assumes "url_reader url_parse" and "plain_options opts" and "plain_options opts'"
    and "plain_user info" and "plain_host host" and "pred_option plain_part db"
  shows "options_from_str url_parse l (url_text info host port db) = Inr
      \<lparr>opt_host = host, opt_port = (case port of None \<Rightarrow> 50000 | Some p \<Rightarrow> p),
       opt_username = (case info of None \<Rightarrow> lit ''monetdb'' | Some (user, _) \<Rightarrow> user),
       opt_password = (case Option.bind info snd of None \<Rightarrow> lit ''monetdb'' | Some p \<Rightarrow> p),
       opt_database = (case db of None \<Rightarrow> lit ''monetdb'' | Some d \<Rightarrow> d), opt_log_settings = l\<rparr> \<and>
    options_from_str url_parse l (display_options opts) =
      Inr (opts\<lparr>opt_password := lit ''monetdb'', opt_log_settings := l\<rparr>) \<and>
    (display_options opts = display_options opts' \<longleftrightarrow>
       opt_host opts = opt_host opts' \<and> opt_port opts = opt_port opts' \<and>
       opt_username opts = opt_username opts' \<and> opt_database opts = opt_database opts')"
proof (intro conjI)
  show "display_options opts = display_options opts' \<longleftrightarrow>
       opt_host opts = opt_host opts' \<and> opt_port opts = opt_port opts' \<and>
       opt_username opts = opt_username opts' \<and> opt_database opts = opt_database opts'"
  proof
    assume "display_options opts = display_options opts'"
    then show "opt_host opts = opt_host opts' \<and> opt_port opts = opt_port opts' \<and>
        opt_username opts = opt_username opts' \<and> opt_database opts = opt_database opts'"
      using from_displayed [OF assms(1,2), of "()"] from_displayed [OF assms(1,3), of "()"]
      by (simp only: sum.inject connect_options.ext_inject)
  qed (simp add: display_options_def)
  show "options_from_str url_parse l (display_options opts) =
      Inr (opts\<lparr>opt_password := lit ''monetdb'', opt_log_settings := l\<rparr>)"
    using from_displayed [OF assms(1,2), of l] by (cases opts) simp
qed (rule from_plain_url [OF assms(1,4,5,6)])

text \<open>A parser of such URLs, for the witness.\<close>

definition simple_url_parse :: "rstr \<Rightarrow> rstr + url" where
  "simple_url_parse s =
     (case strip_prefix (lit ''monetdb://'') s of
        None \<Rightarrow> Inl (lit ''bad scheme'')
      | Some rest \<Rightarrow>
          let authority = takeWhile (\<lambda>c. c \<noteq> 47) rest;
              (info, hp) = (case rsplit_once 64 authority of
                None \<Rightarrow> (None, authority) | Some (info, hp) \<Rightarrow> (Some info, hp));
              (user, password) = (case info of
                None \<Rightarrow> ([], None)
              | Some i \<Rightarrow> (case rsplit_once 58 i of None \<Rightarrow> (i, None) | Some (u, p) \<Rightarrow> (u, Some p)))
          in (case (case rsplit_once 58 hp of
                 None \<Rightarrow> Inr (hp, None)
               | Some (host, port) \<Rightarrow> map_sum id (\<lambda>p. (host, Some p)) (parse_uint port)) of
                Inl _ \<Rightarrow> Inl (lit ''bad port'')
              | Inr (host, port) \<Rightarrow> Inr \<lparr>url_host_str = Some host, url_port = port,
                  url_username = user, url_password = password,
                  url_path = dropWhile (\<lambda>c. c \<noteq> 47) rest\<rparr>))"

lemma plain_marks: "plain_part s \<Longrightarrow> 47 \<notin> set s \<and> 64 \<notin> set s \<and> 58 \<notin> set s"
  "plain_host s \<Longrightarrow> 47 \<notin> set s \<and> 64 \<notin> set s \<and> 58 \<notin> set s"
  by (auto simp: plain_part_def plain_host_def plain_char_def is_digit_def list_all_iff)

lemma port_marks: "47 \<notin> set (show_uint p) \<and> 64 \<notin> set (show_uint p) \<and> 58 \<notin> set (show_uint p)"
  by (auto simp: show_uint_def is_digit_def dest!: show_nat_digit)

definition user_info :: "rstr \<times> rstr option \<Rightarrow> rstr" where
  "user_info up = (case up of (u, None) \<Rightarrow> u | (u, Some p) \<Rightarrow> u @ 58 # p)"

lemma user_text_info: "user_text info = (case info of None \<Rightarrow> [] | Some up \<Rightarrow> user_info up @ [64])"
  by (cases info rule: user_text.cases) (simp_all add: user_info_def)

lemma split_user:
  assumes "64 \<notin> set hp"
  shows "rsplit_once 64 (user_text info @ hp) = map_option (\<lambda>up. (user_info up, hp)) info"
proof (cases info)
  case None
  with assms show ?thesis by (simp add: rsplit_once_None)
next
  case (Some up)
  with rsplit_once_append [OF assms, of "user_info up"] show ?thesis by (simp add: user_text_info)
qed

lemma split_info:
  assumes "plain_user (Some (u, p))"
  shows "rsplit_once 58 (user_info (u, p)) = map_option (\<lambda>p. (u, p)) p"
proof (cases p)
  case None
  with assms plain_marks(1) show ?thesis by (simp add: user_info_def rsplit_once_None)
next
  case (Some q)
  with assms have "58 \<notin> set q" using plain_marks(1) by simp
  from rsplit_once_append [OF this, of u] Some show ?thesis by (simp add: user_info_def)
qed

lemma slash_cut:
  assumes "47 \<notin> set a" "path = [] \<or> hd path = 47"
  shows "takeWhile (\<lambda>c. c \<noteq> 47) (a @ path) = a \<and> dropWhile (\<lambda>c. c \<noteq> 47) (a @ path) = path"
  using assms(1) by (induction a) (use assms(2) in \<open>cases path; simp\<close>, simp)

lemma simple_url_reader: "url_reader simple_url_parse"
  unfolding url_reader_def
proof (intro allI impI)
  fix info host db and port :: "u16 option"
  assume i: "plain_user info" and h: "plain_host host" and d: "pred_option plain_part db"
  define hp where "hp = host @ (case port of None \<Rightarrow> [] | Some p \<Rightarrow> 58 # show_uint p)"
  define path where "path = (case db of None \<Rightarrow> [] | Some d \<Rightarrow> 47 # d)"
  have hp47: "47 \<notin> set hp" and hp64: "64 \<notin> set hp"
    using plain_marks(2) [OF h] by (auto simp: hp_def port_marks split: option.splits)
  have split_hp: "rsplit_once 58 hp = map_option (\<lambda>p. (host, show_uint p)) port"
    using plain_marks(2) [OF h]
    by (auto simp: hp_def rsplit_once_append rsplit_once_None port_marks split: option.splits)
  have i47: "47 \<notin> set (user_text info)"
    using i by (cases info rule: user_text.cases) (auto dest!: plain_marks(1))
  have url: "url_text info host port db = lit ''monetdb://'' @ (user_text info @ hp) @ path"
    by (simp add: url_text_def hp_def path_def)
  have "path = [] \<or> hd path = 47" by (auto simp: path_def split: option.splits)
  moreover have "47 \<notin> set (user_text info @ hp)" using hp47 i47 by simp
  ultimately have cut: "takeWhile (\<lambda>c. c \<noteq> 47) ((user_text info @ hp) @ path) = user_text info @ hp"
    "dropWhile (\<lambda>c. c \<noteq> 47) ((user_text info @ hp) @ path) = path"
    using slash_cut by blast+
  have ends: "(case (case rsplit_once 58 hp of
        None \<Rightarrow> Inr (hp, None)
      | Some (host, port) \<Rightarrow> map_sum id (\<lambda>p. (host, Some p)) (parse_uint port)) of
        Inl (_ :: int_error) \<Rightarrow> Inl (lit ''bad port'')
      | Inr (host, port) \<Rightarrow> Inr (f host port)) = Inr (f host port)" for f :: "rstr \<Rightarrow> u16 option \<Rightarrow> url"
    by (cases port) (simp_all add: split_hp, simp add: hp_def)
  show "simple_url_parse (url_text info host port db) = Inr
      \<lparr>url_host_str = Some host, url_port = port,
       url_username = (case info of None \<Rightarrow> [] | Some (user, _) \<Rightarrow> user),
       url_password = Option.bind info snd, url_path = path\<rparr>"
  proof (cases info)
    case None
    then show ?thesis
      unfolding simple_url_parse_def url strip_prefix_append option.case cut Let_def split_user [OF hp64]
      by (simp only: option.map option.case prod.case user_text.simps append_Nil ends bind.bind_lzero)
  next
    case (Some up)
    obtain u p where up: "up = (u, p)" by fastforce
    have info: "rsplit_once 58 (user_info (u, p)) = map_option (\<lambda>p. (u, p)) p"
      by (rule split_info) (use i Some up in simp)
    show ?thesis
      unfolding simple_url_parse_def url strip_prefix_append option.case cut Let_def split_user [OF hp64]
      unfolding Some up option.map option.case prod.case info
      by (cases p) (simp_all only: option.map option.case prod.case ends bind.bind_lunit snd_conv,
        simp add: user_info_def)
  qed
qed

theorem options_display_roundtrip_witness:
  "options_from_str simple_url_parse 7
      (url_text (Some (lit ''alice'', Some (lit ''secret''))) (lit ''example.com'') (Some 12345) (Some (lit ''mydb''))) =
      Inr \<lparr>opt_host = lit ''example.com'', opt_port = 12345, opt_username = lit ''alice'',
        opt_password = lit ''secret'', opt_database = lit ''mydb'', opt_log_settings = (7 :: nat)\<rparr> \<and>
    options_from_str simple_url_parse 7 (display_options (options_default (0 :: nat))) =
      Inr (options_default (0 :: nat)\<lparr>opt_password := lit ''monetdb'', opt_log_settings := 7\<rparr>)"
proof -
  have o: "plain_options (options_default (0 :: nat))" by code_simp
  have parts: "plain_user (Some (lit ''alice'', Some (lit ''secret'')))" "plain_host (lit ''example.com'')"
    "pred_option plain_part (Some (lit ''mydb''))"
    by (simp_all add: plain_part_def plain_host_def plain_char_def is_digit_def)
  from options_display_roundtrip [OF simple_url_reader o o parts, of 7 "Some 12345"]
  show ?thesis by (simp only: option.case prod.case bind.bind_lunit snd_conv)
qed

end
