(* ===== verification/Float_Laws.thy ===== *)
theory Float_Laws
  imports Complex_Main Rust_Float
begin

text \<open>
  What parsing and printing of floats compute, in terms of real numbers: the parsed float is
  the nearest one to the number the text denotes, and the printed text denotes a number whose
  nearest float is the printed one, so that printing and parsing undo each other.
\<close>

section \<open>Fractions\<close>

lemma bit_length_bounds: "0 < n \<Longrightarrow> 0 < bit_length n \<and> 2 ^ (bit_length n - 1) \<le> n \<and> n < 2 ^ bit_length n"
proof (induction n rule: bit_length.induct)
  case (1 n)
  show ?case
  proof (cases "n = 1")
    case True
    then show ?thesis by (simp add: bit_length.simps)
  next
    case False
    with 1 have "0 < n div 2" "n \<noteq> 0" by auto
    with 1 have ih: "0 < bit_length (n div 2)" "2 ^ (bit_length (n div 2) - 1) \<le> n div 2"
      "n div 2 < 2 ^ bit_length (n div 2)" by auto
    have bl: "bit_length n = Suc (bit_length (n div 2))"
      using \<open>n \<noteq> 0\<close> by (simp add: bit_length.simps [of n])
    have "(2 :: nat) ^ (bit_length n - 1) = 2 * 2 ^ (bit_length (n div 2) - 1)"
      using ih(1) unfolding bl by (metis Suc_diff_1 diff_Suc_1 power_Suc)
    moreover have "(2 :: nat) ^ bit_length n = 2 * 2 ^ bit_length (n div 2)" unfolding bl by simp
    ultimately have "2 ^ (bit_length n - 1) \<le> n" "n < 2 ^ bit_length n" using ih by linarith+
    then show ?thesis unfolding bl by simp
  qed
qed

lemma scale_pos: "0 < b \<Longrightarrow> 0 < d \<Longrightarrow> 0 < snd (scale b e n d)"
  by (simp add: scale_def)

lemma scale_value:
  assumes "0 < b" "0 < d"
  shows "real (fst (scale b e n d)) / real (snd (scale b e n d)) = real n / real d / real b powi e"
  by (simp add: scale_def power_int_def divide_simps)

lemma half_even_cancel: "0 < c \<Longrightarrow> half_even (c * n, c * d) = half_even (n, d)"
proof -
  assume c: "0 < c"
  have "(c * d < 2 * (c * n mod (c * d))) = (d < 2 * (n mod d))"
    "(2 * (c * n mod (c * d)) = c * d) = (2 * (n mod d) = d)"
    using c by (simp_all add: mult_mod_right [symmetric] mult.left_commute [of 2 c])
  then show ?thesis using c by (simp add: half_even_def Let_def)
qed

lemma half_even_same_value:
  assumes "0 < d" "0 < d'" "real n / real d = real n' / real d'"
  shows "half_even (n, d) = half_even (n', d')"
proof -
  have "real (n * d') = real (n' * d)" using assms by (simp add: field_simps)
  then have eq: "n * d' = n' * d" unfolding of_nat_eq_iff .
  have "half_even (n, d) = half_even (d' * n, d' * d)"
    by (rule half_even_cancel [OF assms(2), symmetric])
  also have "(d' * n, d' * d) = (d * n', d * d')" using eq by (simp add: mult.commute)
  also have "half_even (d * n', d * d') = half_even (n', d')" by (rule half_even_cancel [OF assms(1)])
  finally show ?thesis .
qed

lemma half_even_exact: "0 < d \<Longrightarrow> half_even (q * d, d) = q"
  by (simp add: half_even_def)

lemma half_even_near:
  assumes "0 < d"
  shows "\<bar>real (half_even (n, d)) - real n / real d\<bar> \<le> 1 / 2"
proof -
  have nd: "real n / real d = real (n div d) + real (n mod d) / real d"
    using assms by (simp add: field_simps flip: of_nat_mult of_nat_add)
  have r: "real (n mod d) < real d" using assms by simp
  show ?thesis
  proof (cases "d < 2 * (n mod d) \<or> (2 * (n mod d) = d \<and> odd (n div d))")
    case True
    then have "half_even (n, d) = n div d + 1" by (auto simp: half_even_def)
    moreover have "real d \<le> 2 * real (n mod d)" using True by linarith
    then have "1 / 2 \<le> real (n mod d) / real d" "real (n mod d) / real d < 1"
      using assms r by (simp_all add: field_simps)
    ultimately show ?thesis unfolding nd by simp
  next
    case False
    then have "half_even (n, d) = n div d" by (auto simp: half_even_def)
    moreover have "2 * real (n mod d) \<le> real d" using False by linarith
    then have "real (n mod d) / real d \<le> 1 / 2" "0 \<le> real (n mod d) / real d"
      using assms by (simp_all add: field_simps)
    ultimately show ?thesis unfolding nd by simp
  qed
qed

lemma half_even_nearest:
  assumes "0 < d"
  shows "\<bar>real (half_even (n, d)) - real n / real d\<bar> \<le> \<bar>of_int y - real n / real d\<bar>"
proof (cases "y = int (half_even (n, d))")
  case False
  then have "1 \<le> \<bar>y - int (half_even (n, d))\<bar>" by linarith
  then have "1 \<le> \<bar>of_int y - real (half_even (n, d))\<bar>"
    by (metis of_int_1_le_iff of_int_abs of_int_diff of_int_of_nat_eq)
  with half_even_near [OF assms, of n] show ?thesis by linarith
qed simp

section \<open>The binary exponent\<close>

lemma powi_split: "(2 :: real) powi (a + b) = 2 powi a * 2 powi b"
  by (simp add: power_int_add)

lemma powi_le: "a \<le> b \<Longrightarrow> (2 :: real) powi a \<le> 2 powi b"
  by (rule power_int_increasing) simp_all

lemma bit_length_powi:
  assumes "0 < n"
  shows "2 powi (int (bit_length n) - 1) \<le> real n \<and> real n < 2 powi int (bit_length n)"
proof -
  note b = bit_length_bounds [OF assms]
  have "real (2 ^ (bit_length n - 1)) \<le> real n" "real n < real (2 ^ bit_length n)"
    using b by (simp_all only: of_nat_le_iff of_nat_less_iff)
  moreover have "int (bit_length n) - 1 = int (bit_length n - 1)" using b by simp
  ultimately show ?thesis by (simp only: power_int_of_nat) simp
qed

lemma binary_exponent_bounds:
  assumes "0 < n" "0 < d" "0 < p"
  shows "2 powi (int p - 1 + binary_exponent p n d) \<le> real n / real d"
    and "real n / real d < 2 powi (int p + binary_exponent p n d)"
proof -
  let ?x = "real n / real d" and ?a = "int (bit_length n)" and ?b = "int (bit_length d)"
  define e where "e = ?a - ?b - int p"
  have n: "2 powi (?a - 1) \<le> real n" "real n < 2 powi ?a"
    using bit_length_powi [OF assms(1)] by simp_all
  have d: "2 powi (?b - 1) \<le> real d" "real d < 2 powi ?b"
    using bit_length_powi [OF assms(2)] by simp_all
  have lo: "2 powi (int p - 1 + e) \<le> ?x"
  proof -
    have "2 powi (int p - 1 + e) * real d \<le> 2 powi (int p - 1 + e) * 2 powi ?b"
      using d by (intro mult_left_mono) simp_all
    also have "\<dots> = 2 powi (?a - 1)" unfolding powi_split [symmetric] e_def by simp
    finally show ?thesis using n(1) assms(2) by (simp add: pos_le_divide_eq)
  qed
  have hi: "?x < 2 powi (int p + 1 + e)"
  proof -
    have "real n < 2 powi (int p + 1 + e) * 2 powi (?b - 1)"
      using n(2) unfolding powi_split [symmetric] e_def by simp
    also have "\<dots> \<le> 2 powi (int p + 1 + e) * real d"
      using d by (intro mult_left_mono) simp_all
    finally show ?thesis using assms(2) by (simp add: pos_divide_less_eq)
  qed
  let ?nd = "scale 2 e n d"
  have pos: "0 < snd ?nd" by (rule scale_pos [OF _ assms(2)]) simp
  have "fst ?nd div snd ?nd < 2 ^ p \<longleftrightarrow> fst ?nd < 2 ^ p * snd ?nd"
    using pos by (simp add: div_less_iff_less_mult)
  also have "\<dots> \<longleftrightarrow> real (fst ?nd) / real (snd ?nd) < 2 ^ p"
  proof -
    have "fst ?nd < 2 ^ p * snd ?nd \<longleftrightarrow> real (fst ?nd) < real (2 ^ p * snd ?nd)"
      by (rule of_nat_less_iff [symmetric])
    then show ?thesis using pos by (simp add: pos_divide_less_eq)
  qed
  also have "\<dots> \<longleftrightarrow> ?x / 2 powi e < 2 ^ p"
    by (subst scale_value) (use assms in simp_all)
  also have "\<dots> \<longleftrightarrow> ?x < 2 powi (int p + e)"
    by (subst pos_divide_less_eq) (simp_all add: powi_split)
  finally have test: "fst ?nd div snd ?nd < 2 ^ p \<longleftrightarrow> ?x < 2 powi (int p + e)" .
  have be: "binary_exponent p n d = (if ?x < 2 powi (int p + e) then e else e + 1)"
    unfolding binary_exponent_def Let_def e_def [symmetric] test ..
  show "2 powi (int p - 1 + binary_exponent p n d) \<le> ?x"
    using lo unfolding be by (simp add: add.commute)
  show "?x < 2 powi (int p + binary_exponent p n d)"
    using hi unfolding be by (simp add: algebra_simps)
qed

lemma binade_unique:
  assumes "2 powi (p - 1 + e) \<le> x" "x < 2 powi (p + e)"
    and "2 powi (p - 1 + e') \<le> x" "x < (2 :: real) powi (p + e')"
  shows "e = (e' :: int)"
proof -
  have "\<not> e < e'"
  proof
    assume "e < e'"
    then have "(2 :: real) powi (p + e) \<le> 2 powi (p - 1 + e')" by (intro powi_le) simp
    with assms(2,3) show False by simp
  qed
  moreover have "\<not> e' < e"
  proof
    assume "e' < e"
    then have "(2 :: real) powi (p + e') \<le> 2 powi (p - 1 + e)" by (intro powi_le) simp
    with assms(1,4) show False by simp
  qed
  ultimately show ?thesis by simp
qed

section \<open>Rounding\<close>

fun float_value :: "rust_float \<Rightarrow> real" where
  "float_value (Finite s m e) = (if s then - 1 else 1) * (real m * 2 powi e)"
| "float_value _ = 0"

text \<open>The mantissa and exponent before the carry.\<close>

definition rounded_exponent :: "float_format \<Rightarrow> nat \<Rightarrow> nat \<Rightarrow> int" where
  "rounded_exponent f n d = max (e_min f) (binary_exponent (precision f) n d)"

definition rounded_mantissa :: "float_format \<Rightarrow> nat \<Rightarrow> nat \<Rightarrow> nat" where
  "rounded_mantissa f n d = half_even (scale 2 (rounded_exponent f n d) n d)"

lemma round_fraction_eq:
  assumes "0 < n"
  shows "round_fraction f n d =
    (let e = rounded_exponent f n d; m = rounded_mantissa f n d in
     if m = 2 ^ precision f
     then if e_max f < e + 1 then Infinite False else Finite False (2 ^ (precision f - 1)) (e + 1)
     else if e_max f < e then Infinite False else Finite False m e)"
  using assms by (simp add: round_fraction_def rounded_exponent_def rounded_mantissa_def Let_def)

lemma rounded_exponent_same:
  assumes "format_ok f" "0 < n" "0 < d" "0 < n'" "0 < d'" "real n / real d = real n' / real d'"
  shows "rounded_exponent f n d = rounded_exponent f n' d'"
proof -
  have p: "0 < precision f" using assms(1) by (simp add: format_ok_def)
  have "binary_exponent (precision f) n d = binary_exponent (precision f) n' d'"
    using binary_exponent_bounds [OF assms(2,3) p] binary_exponent_bounds [OF assms(4,5) p] assms(6)
    by (intro binade_unique [of "int (precision f)" _ "real n / real d"]) simp_all
  then show ?thesis by (simp add: rounded_exponent_def)
qed

lemma round_fraction_same:
  assumes "format_ok f" "0 < d" "0 < d'" "real n / real d = real n' / real d'"
  shows "round_fraction f n d = round_fraction f n' d'"
proof (cases "n = 0")
  case True
  with assms have "n' = 0" by auto
  with True show ?thesis by (simp add: round_fraction_def)
next
  case False
  with assms have n: "0 < n" "0 < n'" by (auto intro: gr0I)
  note e = rounded_exponent_same [OF assms(1) n(1) assms(2) n(2) assms(3,4)]
  have "half_even (scale 2 e n d) = half_even (scale 2 e n' d')" for e
    using half_even_same_value [of "snd (scale 2 e n d)" "snd (scale 2 e n' d')"
        "fst (scale 2 e n d)" "fst (scale 2 e n' d')"]
    by (simp add: scale_pos scale_value assms)
  then have "rounded_mantissa f n d = rounded_mantissa f n' d'"
    by (simp add: rounded_mantissa_def e)
  with e show ?thesis by (simp add: round_fraction_eq n)
qed

text \<open>The number in units of the last place.\<close>

lemma rounded_bounds:
  assumes "format_ok f" "0 < n" "0 < d"
  defines "u \<equiv> real n / real d / 2 powi rounded_exponent f n d"
  shows "u < 2 ^ precision f"
    and "rounded_exponent f n d = e_min f \<or> 2 ^ (precision f - 1) \<le> u"
    and "\<bar>real (rounded_mantissa f n d) - u\<bar> \<le> \<bar>of_int y - u\<bar>"
    and "\<bar>real (rounded_mantissa f n d) - u\<bar> \<le> 1 / 2"
    and "rounded_mantissa f n d \<le> 2 ^ precision f"
proof -
  let ?p = "precision f" and ?be = "binary_exponent (precision f) n d"
    and ?e = "rounded_exponent f n d" and ?x = "real n / real d"
  have p: "0 < ?p" using assms(1) by (simp add: format_ok_def)
  note be = binary_exponent_bounds [OF assms(2,3) p]
  have "?x < 2 powi (int ?p + ?e)"
    using be(2) powi_le [of "int ?p + ?be" "int ?p + ?e"] by (simp add: rounded_exponent_def)
  then have "u * 2 powi ?e < 2 ^ ?p * 2 powi ?e"
    unfolding powi_split by (simp add: u_def)
  then show u: "u < 2 ^ ?p" by simp
  show "?e = e_min f \<or> 2 ^ (?p - 1) \<le> u"
  proof (cases "?e = e_min f")
    case False
    then have "?e = ?be" by (auto simp: rounded_exponent_def)
    with be(1) have "2 powi (int ?p - 1) * 2 powi ?e \<le> u * 2 powi ?e"
      unfolding powi_split by (simp add: u_def)
    then have "2 powi (int ?p - 1) \<le> u" by simp
    moreover have "int ?p - 1 = int (?p - 1)" using p by simp
    ultimately have "2 ^ (?p - 1) \<le> u" by (simp only: power_int_of_nat)
    then show ?thesis ..
  qed simp
  let ?nd = "scale 2 ?e n d"
  have pos: "0 < snd ?nd" by (rule scale_pos [OF _ assms(3)]) simp
  have val: "real (fst ?nd) / real (snd ?nd) = u"
    unfolding u_def by (subst scale_value) (use assms in simp_all)
  show "\<bar>real (rounded_mantissa f n d) - u\<bar> \<le> \<bar>of_int y - u\<bar>"
    using half_even_nearest [OF pos, of "fst ?nd" y] by (simp add: val rounded_mantissa_def)
  show near: "\<bar>real (rounded_mantissa f n d) - u\<bar> \<le> 1 / 2"
    using half_even_near [OF pos, of "fst ?nd"] by (simp add: val rounded_mantissa_def)
  have "real (rounded_mantissa f n d) < 2 ^ ?p + 1" using u near by linarith
  then have "real (rounded_mantissa f n d) < real (2 ^ ?p + 1)" by simp
  then show "rounded_mantissa f n d \<le> 2 ^ ?p" unfolding of_nat_less_iff by simp
qed

text \<open>
  A fraction within half a unit of a float is rounded to it, unless the float is the least of
  its exponent and the fraction lies below it, where the units are half as large.
\<close>

lemma round_fraction_near:
  assumes "format_ok f" "float_ok f (Finite False m e)" "0 < m" "0 < n" "0 < d"
  defines "u \<equiv> real n / real d / 2 powi e"
  assumes "\<bar>u - real m\<bar> < 1 / 2" "2 ^ (precision f - 1) < m \<or> e = e_min f \<or> real m \<le> u"
  shows "round_fraction f n d = Finite False m e"
proof -
  let ?p = "precision f" and ?be = "binary_exponent (precision f) n d"
  have p: "0 < ?p" using assms(1) by (simp add: format_ok_def)
  have p1: "int ?p - 1 = int (?p - 1)" using p by simp
  have x: "real n / real d = u * 2 powi e" by (simp add: u_def)
  have "m + 1 \<le> 2 ^ ?p" using assms(2) by simp
  then have "real (m + 1) \<le> real (2 ^ ?p)" unfolding of_nat_le_iff .
  then have m: "real m + 1 \<le> 2 ^ ?p" by simp
  then have "u < 2 powi int ?p" using assms(7) unfolding power_int_of_nat by linarith
  then have hi: "real n / real d < 2 powi (int ?p + e)"
    unfolding x powi_split by (simp add: mult_strict_right_mono)
  note be = binary_exponent_bounds [OF assms(4,5) p]
  have e: "rounded_exponent f n d = e"
  proof (cases "2 powi (int ?p - 1) \<le> u")
    case True
    then have "2 powi (int ?p - 1 + e) \<le> real n / real d"
      unfolding x powi_split by (simp add: mult_right_mono)
    with hi be have "?be = e" by (intro binade_unique)
    with assms(2) show ?thesis by (simp add: rounded_exponent_def)
  next
    case False
    have "e = e_min f"
    proof (rule ccontr)
      assume e: "e \<noteq> e_min f"
      with assms(2) have "2 ^ (?p - 1) \<le> m" by simp
      then have "real (2 ^ (?p - 1)) \<le> real m" unfolding of_nat_le_iff .
      then have "2 ^ (?p - 1) \<le> real m" by simp
      moreover have "2 ^ (?p - 1) + 1 \<le> real m" if "2 ^ (?p - 1) < m"
      proof -
        have "2 ^ (?p - 1) + 1 \<le> m" using that by simp
        then have "real (2 ^ (?p - 1) + 1) \<le> real m" unfolding of_nat_le_iff .
        then show ?thesis by simp
      qed
      ultimately have "2 ^ (?p - 1) \<le> u" using assms(7,8) e by linarith
      with False show False unfolding p1 power_int_of_nat by blast
    qed
    moreover have "real n / real d < 2 powi (int ?p - 1 + e)"
      using False unfolding x powi_split by (simp add: mult_strict_right_mono)
    with be(1) have "(2 :: real) powi (int ?p - 1 + ?be) < 2 powi (int ?p - 1 + e)" by simp
    then have "?be < e" using powi_le [of "int ?p - 1 + e" "int ?p - 1 + ?be"] by linarith
    ultimately show ?thesis by (simp add: rounded_exponent_def)
  qed
  have "\<bar>real (rounded_mantissa f n d) - u\<bar> \<le> \<bar>real m - u\<bar>"
    using rounded_bounds(3) [OF assms(1,4,5), of "int m"] by (simp add: e u_def)
  then have "\<bar>real (rounded_mantissa f n d) - real m\<bar> < 1" using assms(7) by linarith
  then have "rounded_mantissa f n d = m" by linarith
  then show ?thesis using assms(2,4) e by (simp add: round_fraction_eq)
qed

lemma round_fraction_exact:
  assumes "format_ok f" "float_ok f (Finite False m e)" "0 < m" "0 < n" "0 < d"
    and "real n / real d = real m * 2 powi e"
  shows "round_fraction f n d = Finite False m e"
  by (rule round_fraction_near [OF assms(1-5)]) (simp_all add: assms(6))

lemma round_fraction_ok:
  assumes "format_ok f" "0 < d"
  shows "float_ok f (round_fraction f n d)"
proof (cases "n = 0")
  case True
  with assms show ?thesis by (simp add: round_fraction_def format_ok_def)
next
  case False
  then have n: "0 < n" by simp
  let ?e = "rounded_exponent f n d" and ?m = "rounded_mantissa f n d"
  note b = rounded_bounds [OF assms(1) n assms(2)]
  have e: "e_min f \<le> ?e" by (simp add: rounded_exponent_def)
  have "2 ^ (precision f - 1) \<le> ?m" if "?e \<noteq> e_min f"
  proof -
    define u where "u = real n / real d / 2 powi ?e"
    have "2 ^ (precision f - 1) \<le> u" "\<bar>real ?m - u\<bar> \<le> 1 / 2"
      using b(2,4) that by (simp_all add: u_def)
    then have "2 ^ (precision f - 1) < real ?m + 1" by linarith
    then have "real (2 ^ (precision f - 1)) < real (?m + 1)" by simp
    then have "2 ^ (precision f - 1) < ?m + 1" unfolding of_nat_less_iff .
    then show ?thesis by simp
  qed
  then show ?thesis
    using b(5) e assms(1) by (auto simp: round_fraction_eq [OF n] Let_def format_ok_def)
qed

text \<open>No float is nearer to the fraction than the one it is rounded to.\<close>

lemma round_fraction_nearest:
  assumes "format_ok f" "0 < n" "0 < d" and r: "round_fraction f n d = Finite s m e"
    and y: "float_ok f (Finite t k i)"
  shows "\<bar>float_value (Finite s m e) - real n / real d\<bar> \<le>
    \<bar>float_value (Finite t k i) - real n / real d\<bar>"
proof -
  let ?x = "real n / real d" and ?E = "rounded_exponent f n d" and ?M = "rounded_mantissa f n d"
    and ?v = "float_value (Finite t k i)"
  define u where "u = ?x / 2 powi ?E"
  note b = rounded_bounds [OF assms(1-3), folded u_def]
  have p: "0 < precision f" using assms(1) by (simp add: format_ok_def)
  have x: "?x = u * 2 powi ?E" by (simp add: u_def)
  have carry: "(2 :: real) ^ precision f = 2 ^ (precision f - 1) * 2" using p by (simp flip: power_Suc2)
  have val: "float_value (Finite s m e) = real ?M * 2 powi ?E"
    using r unfolding round_fraction_eq [OF assms(2)] Let_def
    by (auto split: if_splits simp: power_int_add carry)
  have unit: "\<bar>real ?M - u\<bar> * 2 powi ?E = \<bar>float_value (Finite s m e) - ?x\<bar>"
    unfolding val x by (simp add: abs_mult left_diff_distrib [symmetric])
  have near: "\<bar>float_value (Finite s m e) - ?x\<bar> \<le> \<bar>of_int z * 2 powi ?E - ?x\<bar>" for z
  proof -
    have "\<bar>of_int z - u\<bar> * 2 powi ?E = \<bar>of_int z * 2 powi ?E - ?x\<bar>"
      unfolding x by (simp add: abs_mult left_diff_distrib [symmetric])
    moreover have "\<bar>real ?M - u\<bar> * 2 powi ?E \<le> \<bar>of_int z - u\<bar> * 2 powi ?E"
      using b(3) by (intro mult_right_mono) simp_all
    ultimately show ?thesis using unit by linarith
  qed
  show ?thesis
  proof (cases "?E \<le> i")
    case True
    define z where "z = (if t then - 1 else 1) * int (k * 2 ^ nat (i - ?E))"
    have "(2 :: real) powi i = 2 ^ nat (i - ?E) * 2 powi ?E"
    proof -
      have "(2 :: real) ^ nat (i - ?E) = 2 powi (i - ?E)" using True by (simp add: power_int_def)
      then show ?thesis by (simp flip: power_int_add)
    qed
    then have "?v = of_int z * 2 powi ?E" by (simp add: z_def)
    then show ?thesis using near by (simp only:)
  next
    case False
    then have "?E \<noteq> e_min f" using y by auto
    then have u: "2 ^ (precision f - 1) \<le> u" using b(2) by blast
    have "real k \<le> 2 ^ precision f"
      using y by simp
    then have "real k * 2 powi i \<le> 2 ^ precision f * 2 powi i" by (rule mult_right_mono) simp
    also have "\<dots> = 2 ^ (precision f - 1) * 2 powi (i + 1)"
      unfolding carry by (simp add: power_int_add)
    also have "\<dots> \<le> 2 ^ (precision f - 1) * 2 powi ?E"
      using False by (intro mult_left_mono powi_le) simp_all
    finally have v: "?v \<le> 2 ^ (precision f - 1) * 2 powi ?E"
      by (auto intro: order.trans [of _ 0])
    have "2 ^ (precision f - 1) * 2 powi ?E \<le> ?x"
      unfolding x using u by (intro mult_right_mono) simp_all
    with v near [of "2 ^ (precision f - 1)"] show ?thesis by simp
  qed
qed

section \<open>Decimals\<close>

lemma round_decimal_fraction:
  obtains n d where "0 < d" "real n / real d = real c * 10 powi k"
    "round_decimal f c k = round_fraction f n d"
proof -
  obtain n d where nd: "scale 10 (- k) c 1 = (n, d)" by fastforce
  have "0 < d" using scale_pos [of 10 1 "- k" c] unfolding nd by simp
  moreover have "real n / real d = real c * 10 powi k"
    using scale_value [of 10 1 "- k" c] unfolding nd by (simp add: power_int_minus divide_simps)
  moreover have "round_decimal f c k = round_fraction f n d"
    unfolding round_decimal_def nd by simp
  ultimately show ?thesis by (rule that)
qed

lemma round_decimal_same:
  assumes "format_ok f" "real c * 10 powi k = real c' * 10 powi k'"
  shows "round_decimal f c k = round_decimal f c' k'"
proof -
  obtain n d where nd: "0 < d" "real n / real d = real c * 10 powi k"
    "round_decimal f c k = round_fraction f n d" by (rule round_decimal_fraction)
  obtain n' d' where nd': "0 < d'" "real n' / real d' = real c' * 10 powi k'"
    "round_decimal f c' k' = round_fraction f n' d'" by (rule round_decimal_fraction)
  show ?thesis using round_fraction_same [OF assms(1) nd(1) nd'(1)] nd nd' assms(2) by simp
qed

lemma round_decimal_near:
  assumes "format_ok f" "float_ok f (Finite False m e)" "0 < m"
    and "\<bar>real c * 10 powi k - real m * 2 powi e\<bar> < 2 powi e / 2"
    and "2 ^ (precision f - 1) < m \<or> e = e_min f \<or> real m * 2 powi e \<le> real c * 10 powi k"
  shows "round_decimal f c k = Finite False m e"
proof -
  obtain n d where nd: "0 < d" "real n / real d = real c * 10 powi k"
    "round_decimal f c k = round_fraction f n d" by (rule round_decimal_fraction)
  let ?u = "real c * 10 powi k / 2 powi e"
  have "(?u - real m) * 2 powi e = real c * 10 powi k - real m * 2 powi e"
    by (simp add: left_diff_distrib)
  then have "\<bar>?u - real m\<bar> * 2 powi e = \<bar>real c * 10 powi k - real m * 2 powi e\<bar>"
    by (metis abs_mult abs_of_pos zero_less_numeral zero_less_power_int)
  with assms(4) have "\<bar>?u - real m\<bar> * 2 powi e < 1 / 2 * 2 powi e" by simp
  then have u: "\<bar>?u - real m\<bar> < 1 / 2" by (simp only: mult_less_cancel_right_pos zero_less_power_int zero_less_numeral)
  moreover have "0 < n"
  proof (rule gr0I)
    assume "n = 0"
    then have "real c * 10 powi k = 0" using nd(2) by simp
    then have "?u = 0" by (simp only: div_0)
    with u assms(3) show False by simp
  qed
  moreover have "2 ^ (precision f - 1) < m \<or> e = e_min f \<or> real m \<le> ?u"
    using assms(5) by (simp add: pos_le_divide_eq)
  ultimately show ?thesis
    unfolding nd(3) nd(2) [symmetric] by (intro round_fraction_near [OF assms(1-3) _ nd(1)])
qed

lemma exact_decimal_value:
  assumes "exact_decimal m e = (c, k)"
  shows "real c * 10 powi k = real m * 2 powi e"
proof (cases "0 \<le> e")
  case True
  with assms show ?thesis by (auto simp: exact_decimal_def power_int_def)
next
  case False
  then have "(10 :: real) powi e = 2 powi e * 5 powi e" by (simp flip: power_int_mult_distrib)
  moreover have "(5 :: real) ^ nat (- e) * 5 powi e = 1"
  proof -
    have "(5 :: real) ^ nat (- e) = 5 powi (- e)" using False by (simp add: power_int_def)
    then show ?thesis by (simp flip: power_int_add)
  qed
  ultimately show ?thesis using assms False by (auto simp: exact_decimal_def)
qed

lemma round_exact_decimal:
  assumes "format_ok f" "float_ok f (Finite False m e)" "0 < m" "exact_decimal m e = (c, k)"
  shows "round_decimal f c k = Finite False m e"
  using exact_decimal_value [OF assms(4)] by (intro round_decimal_near [OF assms(1-3)]) simp_all

lemma candidate_reads_back: "candidate f x n d j = Some c \<Longrightarrow> round_decimal f c j = x"
  by (auto simp: candidate_def Let_def split: if_splits)

lemma shortest_reads_back:
  assumes "format_ok f" "float_ok f (Finite False m e)" "0 < m"
  shows "shortest f m e fuel j = (c, k) \<Longrightarrow> round_decimal f c k = Finite False m e"
proof (induction fuel arbitrary: j)
  case 0
  then show ?case using round_exact_decimal [OF assms] by simp
next
  case (Suc fuel)
  then show ?case
    by (auto split: prod.splits option.splits dest: candidate_reads_back)
qed

lemma strip_zeros_value: "strip_zeros c k = (c', k') \<Longrightarrow> real c' * 10 powi k' = real c * 10 powi k"
proof (induction c k rule: strip_zeros.induct)
  case (1 c k)
  show ?case
  proof (cases "0 < c \<and> c mod 10 = 0")
    case True
    with 1 have "real c' * 10 powi k' = real (c div 10) * 10 powi (k + 1)"
      by (simp add: strip_zeros.simps [of c k])
    also have "\<dots> = real (c div 10 * 10) * 10 powi k" by (simp add: power_int_add)
    also have "c div 10 * 10 = c" using True by (metis add.right_neutral div_mult_mod_eq)
    finally show ?thesis .
  next
    case False
    with 1(2) show ?thesis by (simp add: strip_zeros.simps [of c k])
  qed
qed

section \<open>Positional notation\<close>

lemma digits_nat_show_nat: "digits_nat (show_nat n) = n"
  by (simp add: digits_nat_def digits_value_show_nat)

lemma digits_value_zeros: "digits_value a (replicate n 48) = a * 10 ^ n"
  by (induction n arbitrary: a) (simp_all add: algebra_simps)

lemma all_digits_parse:
  assumes "ds \<noteq> []" "list_all is_digit ds"
  shows "parse_number ds = Some (digits_nat ds, 0)"
proof -
  have "takeWhile is_digit ds = ds" "dropWhile is_digit ds = []"
    using assms(2) by (simp_all add: list_all_iff)
  note ds = this
  show ?thesis using assms(1) by (simp add: parse_number_def Let_def ds)
qed

lemma point_parse:
  assumes "ds \<noteq> []" "list_all is_digit ds" "list_all is_digit fs"
  shows "parse_number (ds @ 46 # fs) = Some (digits_nat (ds @ fs), - int (length fs))"
proof -
  have "takeWhile is_digit (ds @ 46 # fs) = ds" "dropWhile is_digit (ds @ 46 # fs) = 46 # fs"
    "takeWhile is_digit fs = fs" "dropWhile is_digit fs = []"
    using assms(2,3) by (simp_all add: list_all_iff takeWhile_append dropWhile_append is_digit_def)
  note ds = this
  show ?thesis using assms(1) by (simp add: parse_number_def Let_def ds)
qed

lemma positional_parse:
  "\<exists>c' k'. parse_number (positional c k) = Some (c', k') \<and> real c' * 10 powi k' = real c * 10 powi k"
proof -
  let ?ds = "show_nat c" and ?n = "nat (- k)"
  note digits = show_nat_digits [of c]
  consider "0 \<le> k" | "k < 0" "?n < length ?ds" | "k < 0" "length ?ds \<le> ?n" by linarith
  then show ?thesis
  proof cases
    case 1
    have "digits_nat (?ds @ replicate (nat k) 48) = c * 10 ^ nat k"
      by (simp add: digits_nat_def digits_value_append digits_value_show_nat digits_value_zeros
          nat_mult_distrib nat_power_eq)
    moreover have "list_all is_digit (?ds @ replicate (nat k) 48)"
      using digits by (auto simp: list_all_iff is_digit_def)
    then have "parse_number (?ds @ replicate (nat k) 48) =
        Some (digits_nat (?ds @ replicate (nat k) 48), 0)"
      by (intro all_digits_parse) simp_all
    moreover have "positional c k = ?ds @ replicate (nat k) 48"
      using 1 by (simp add: positional_def Let_def)
    ultimately show ?thesis using 1 by (simp add: power_int_def)
  next
    case 2
    let ?w = "take (length ?ds - ?n) ?ds" and ?f = "drop (length ?ds - ?n) ?ds"
    have "list_all is_digit ?w" "list_all is_digit ?f"
      using digits by (auto simp: list_all_iff dest: in_set_takeD in_set_dropD)
    moreover have "?w \<noteq> []" using 2 by simp
    ultimately have "parse_number (?w @ 46 # ?f) = Some (digits_nat (?w @ ?f), - int (length ?f))"
      by (intro point_parse)
    moreover have "positional c k = ?w @ 46 # ?f" using 2 by (simp add: positional_def Let_def)
    moreover have "- int (length ?f) = k" using 2 by simp
    ultimately show ?thesis unfolding append_take_drop_id digits_nat_show_nat by metis
  next
    case 3
    let ?f = "replicate (?n - length ?ds) 48 @ ?ds"
    have "list_all is_digit ?f" using digits by (auto simp: list_all_iff is_digit_def)
    then have "parse_number ([48] @ 46 # ?f) = Some (digits_nat ([48] @ ?f), - int (length ?f))"
      by (intro point_parse) (simp_all add: is_digit_def)
    moreover have "positional c k = [48] @ 46 # ?f" using 3 by (simp add: positional_def Let_def)
    moreover have "- int (length ?f) = k" using 3 by simp
    moreover have "digits_nat ([48] @ ?f) = c"
      by (simp add: digits_nat_def digits_value_append digits_value_zeros digits_value_show_nat)
    ultimately show ?thesis by simp
  qed
qed

lemma positional_head: "positional c k \<noteq> [] \<and> is_digit (hd (positional c k))"
proof -
  have "show_nat c \<noteq> []" "is_digit (hd (show_nat c))" by (simp_all add: show_nat_head)
  then show ?thesis by (simp add: positional_def Let_def is_digit_def)
qed

section \<open>Printing is undone by parsing\<close>

lemma show_magnitude_parse:
  assumes "format_ok f" "float_ok f (Finite False m e)"
  shows "\<exists>c k. parse_number (show_magnitude f m e) = Some (c, k) \<and>
    round_decimal f c k = Finite False m e"
proof (cases "m = 0")
  case True
  have "\<not> 2 ^ (precision f - 1) \<le> (0 :: nat)" by simp
  with True assms(2) have "e = e_min f" by auto
  moreover have "parse_number [48] = Some (0, 0)"
    by (simp add: parse_number_def Let_def is_digit_def digits_nat_def)
  ultimately show ?thesis
    using True by (simp add: show_magnitude_def round_decimal_def scale_def round_fraction_def)
next
  case False
  obtain n d where nd: "scale 2 (- e) m 1 = (n, d)" by fastforce
  obtain c k where ck: "shortest f m e 17 (decimal_exponent n d - 1) = (c, k)" by fastforce
  obtain c1 k1 where c1: "strip_zeros c k = (c1, k1)" by fastforce
  have shown: "show_magnitude f m e = positional c1 k1"
    using False unfolding show_magnitude_def nd prod.case ck c1 by simp
  obtain c2 k2 where c2: "parse_number (positional c1 k1) = Some (c2, k2)"
    "real c2 * 10 powi k2 = real c1 * 10 powi k1" using positional_parse by blast
  have "round_decimal f c2 k2 = round_decimal f c k"
    using strip_zeros_value [OF c1] c2(2) by (intro round_decimal_same [OF assms(1)]) simp
  also have "\<dots> = Finite False m e" using shortest_reads_back [OF assms _ ck] False by simp
  finally show ?thesis using c2(1) shown by auto
qed

lemma show_magnitude_head: "show_magnitude f m e \<noteq> [] \<and> is_digit (hd (show_magnitude f m e))"
proof -
  have "is_digit 48" by (simp add: is_digit_def)
  then show ?thesis by (auto simp: show_magnitude_def positional_head split: prod.split)
qed

lemma parse_show_float:
  assumes "format_ok f" "float_ok f x"
  shows "parse_float f (show_float f x) = Inr x"
proof (cases x)
  case NaN
  then show ?thesis
    by (simp add: parse_float_def parse_number_def parse_inf_nan_def run_simps is_digit_def)
next
  case (Infinite s)
  then show ?thesis
    by (cases s) (simp_all add: parse_float_def parse_number_def parse_inf_nan_def run_simps
        is_digit_def eq_ignore_ascii_case_def to_ascii_lower_def)
next
  case (Finite s m e)
  then have ok: "float_ok f (Finite False m e)" using assms(2) by simp
  obtain c k where ck: "parse_number (show_magnitude f m e) = Some (c, k)"
    "round_decimal f c k = Finite False m e"
    using show_magnitude_parse [OF assms(1) ok] by blast
  obtain h t where h: "show_magnitude f m e = h # t" "is_digit h"
    using show_magnitude_head [of f m e] by (cases "show_magnitude f m e") auto
  then have "h \<noteq> 43" "h \<noteq> 45" by (auto simp: is_digit_def)
  with h ck Finite show ?thesis
    by (cases s) (simp_all add: parse_float_def Let_def)
qed

section \<open>The decimal exponent\<close>

lemma show_nat_length: "0 < n \<Longrightarrow> 10 ^ (length (show_nat n) - 1) \<le> n"
proof (induction n rule: show_nat.induct)
  case (1 n)
  show ?case
  proof (cases "n < 10")
    case False
    obtain l where l: "length (show_nat (n div 10)) = Suc l"
      by (metis length_0_conv not0_implies_Suc show_nat_not_Nil)
    with 1 False have "10 ^ l \<le> n div 10" by simp
    then have "10 * 10 ^ l \<le> n" by linarith
    moreover have "length (show_nat n) = Suc (Suc l)"
      using False l by (subst show_nat.simps) simp
    ultimately show ?thesis by simp
  qed (use 1 in \<open>simp add: show_nat.simps\<close>)
qed

lemma show_nat_bound: "n < 10 ^ length (show_nat n)"
proof (induction n rule: show_nat.induct)
  case (1 n)
  show ?case
  proof (cases "n < 10")
    case False
    then have "n div 10 < 10 ^ length (show_nat (n div 10))" using 1 by simp
    then have "n < 10 * 10 ^ length (show_nat (n div 10))" by linarith
    with False show ?thesis by (subst show_nat.simps) simp
  qed (simp add: show_nat.simps)
qed

lemma small_digits_bounds:
  "0 < n \<Longrightarrow> 0 < d \<Longrightarrow> d \<le> n * 10 ^ small_digits n d \<and>
     (n < d \<longrightarrow> 0 < small_digits n d \<and> n * 10 ^ (small_digits n d - 1) < d)"
proof (induction n d rule: small_digits.induct)
  case (1 n d)
  show ?case
  proof (cases "d \<le> n")
    case True
    with 1 show ?thesis by (simp add: small_digits.simps)
  next
    case False
    have s: "small_digits n d = Suc (small_digits (10 * n) d)"
      using False 1(2) by (simp add: small_digits.simps [of n])
    have "d \<le> 10 * n * 10 ^ small_digits (10 * n) d \<and> (10 * n < d \<longrightarrow>
        0 < small_digits (10 * n) d \<and> 10 * n * 10 ^ (small_digits (10 * n) d - 1) < d)"
      using 1 False by simp
    moreover have "small_digits (10 * n) d = 0" if "\<not> 10 * n < d"
      using that by (simp add: small_digits.simps)
    moreover have "10 * 10 ^ (k - 1) = (10 :: nat) ^ k" if "0 < k" for k
      using that by (cases k) simp_all
    ultimately show ?thesis using False s
      by (cases "10 * n < d") (auto simp: mult.assoc mult.left_commute)
  qed
qed

lemma decimal_exponent_bounds:
  assumes "0 < n" "0 < d"
  shows "10 powi (decimal_exponent n d - 1) \<le> real n / real d"
    and "real n / real d < 10 powi decimal_exponent n d"
proof -
  have "10 powi (decimal_exponent n d - 1) \<le> real n / real d \<and>
    real n / real d < 10 powi decimal_exponent n d"
  proof (cases "d \<le> n")
    case True
    let ?q = "n div d" and ?l = "length (show_nat (n div d))"
    have q: "0 < ?q" using True assms by (simp add: div_greater_zero_iff)
    have "real (10 ^ (?l - 1)) \<le> real ?q" using show_nat_length [OF q] unfolding of_nat_le_iff .
    also have "\<dots> \<le> real n / real d" by (rule of_nat_div_le_of_nat)
    finally have lo: "10 powi int (?l - 1) \<le> real n / real d" unfolding power_int_of_nat by simp
    have "n < (?q + 1) * d"
      using assms(2) by (metis Suc_eq_plus1 dividend_less_div_times mult.commute mult_Suc add.commute)
    then have "real n < real ((?q + 1) * d)" unfolding of_nat_less_iff .
    then have "real n / real d < real (?q + 1)"
      using assms(2) by (simp only: of_nat_mult) (simp add: pos_divide_less_eq)
    also have "\<dots> \<le> real (10 ^ ?l)" unfolding of_nat_le_iff using show_nat_bound [of ?q] by simp
    finally have hi: "real n / real d < 10 powi int ?l" unfolding power_int_of_nat by simp
    have "int ?l - 1 = int (?l - 1)" by (cases "show_nat ?q") simp_all
    then have k: "decimal_exponent n d = int ?l" "decimal_exponent n d - 1 = int (?l - 1)"
      using True by (simp_all only: decimal_exponent_def if_True)
    show ?thesis unfolding k(2) unfolding k(1) using lo hi by blast
  next
    case False
    define s where "s = small_digits n d"
    have s: "d \<le> n * 10 ^ s" "0 < s" "n * 10 ^ (s - 1) < d"
      using small_digits_bounds [OF assms] False by (simp_all add: s_def)
    have "real d \<le> real (n * 10 ^ s)" using s(1) unfolding of_nat_le_iff .
    then have "10 powi (- int s) \<le> real n / real d"
      using assms(2) by (simp add: power_int_minus field_simps)
    moreover have "real (n * 10 ^ (s - 1)) < real d" using s(3) unfolding of_nat_less_iff .
    then have "real n / real d < 10 powi (- int (s - 1))"
      using assms(2) by (simp add: power_int_minus field_simps)
    moreover have "- int (s - 1) = 1 - int s" using s(2) by simp
    ultimately show ?thesis using False by (simp add: decimal_exponent_def s_def)
  qed
  then show "10 powi (decimal_exponent n d - 1) \<le> real n / real d"
    and "real n / real d < 10 powi decimal_exponent n d" by auto
qed

section \<open>The two decimals next to a fraction\<close>

definition below :: "nat \<Rightarrow> nat \<Rightarrow> int \<Rightarrow> nat" where
  "below n d j = fst (scale 10 j n d) div snd (scale 10 j n d)"

lemma below_bounds:
  assumes "0 < d"
  shows "real (below n d j) * 10 powi j \<le> real n / real d"
    and "real n / real d < real (below n d j + 1) * 10 powi j"
proof -
  let ?nd = "scale 10 j n d"
  have pos: "0 < snd ?nd" by (rule scale_pos [OF _ assms]) simp
  have val: "real (fst ?nd) / real (snd ?nd) = real n / real d / 10 powi j"
    by (subst scale_value) (use assms in simp_all)
  have "real (below n d j) \<le> real (fst ?nd) / real (snd ?nd)"
    unfolding below_def by (rule of_nat_div_le_of_nat)
  then have "real (below n d j) \<le> real n / real d / 10 powi j" by (simp only: val)
  then show "real (below n d j) * 10 powi j \<le> real n / real d"
    by (subst (asm) pos_le_divide_eq) simp_all
  have "fst ?nd < (below n d j + 1) * snd ?nd"
    unfolding below_def using pos by (metis Suc_eq_plus1 dividend_less_div_times mult.commute mult_Suc add.commute)
  then have "real (fst ?nd) < real ((below n d j + 1) * snd ?nd)" unfolding of_nat_less_iff .
  then have "real (fst ?nd) / real (snd ?nd) < real (below n d j + 1)"
    using pos by (simp only: of_nat_mult) (simp add: pos_divide_less_eq)
  then have "real n / real d / 10 powi j < real (below n d j + 1)" by (simp only: val)
  then show "real n / real d < real (below n d j + 1) * 10 powi j"
    by (subst (asm) pos_divide_less_eq) simp_all
qed

lemma candidate_None:
  "candidate f x n d j = None \<longleftrightarrow>
     round_decimal f (below n d j) j \<noteq> x \<and> round_decimal f (below n d j + 1) j \<noteq> x"
  by (auto simp: candidate_def below_def Let_def)

lemma candidate_Some: "candidate f x n d j = Some c \<Longrightarrow> c \<le> below n d j + 1"
  by (auto simp: candidate_def below_def Let_def split: if_splits)

text \<open>A float as a fraction.\<close>

lemma float_fraction:
  assumes "scale 2 (- e) m 1 = (n, d)" "0 < m"
  shows "0 < d" "0 < n" "real n / real d = real m * 2 powi e"
proof -
  show d: "0 < d" using scale_pos [of 2 1 "- e" m] unfolding assms(1) by simp
  show x: "real n / real d = real m * 2 powi e"
    using scale_value [of 2 1 "- e" m] unfolding assms(1)
    by (simp add: power_int_minus divide_simps)
  then show "0 < n" using assms(2) by (intro gr0I) simp
qed

text \<open>With seventeen digits one of the two reads back.\<close>

lemma candidate_seventeen:
  assumes "format_ok f" "2 ^ precision f < (10 ^ 16 :: nat)"
    and ok: "float_ok f (Finite False m e)" "0 < m" and nd: "scale 2 (- e) m 1 = (n, d)"
  shows "candidate f (Finite False m e) n d (decimal_exponent n d - 17) \<noteq> None"
proof -
  let ?k = "decimal_exponent n d" let ?j = "?k - 17" and ?x = "real m * 2 powi e"
  note d = float_fraction(1) [OF nd ok(2)] and n = float_fraction(2) [OF nd ok(2)]
    and x = float_fraction(3) [OF nd ok(2)]
  have "real (2 ^ precision f) < real (10 ^ 16)" using assms(2) unfolding of_nat_less_iff .
  then have p: "(2 :: real) ^ precision f < 10 ^ 16" by simp
  have "(10 :: real) powi (?k - 1) = 10 powi (?j + int 16)" by simp
  also have "\<dots> = 10 powi ?j * 10 powi int 16" by (rule power_int_add) simp
  finally have "10 powi (?k - 1) = 10 powi ?j * (10 :: real) ^ 16" unfolding power_int_of_nat .
  then have s: "10 powi ?j * 10 ^ 16 \<le> ?x"
    using decimal_exponent_bounds(1) [OF n d] unfolding x by simp
  let ?b = "below n d ?j"
  note b = below_bounds [OF d, of n ?j, unfolded x]
  show ?thesis
  proof (cases "m = 2 ^ (precision f - 1)")
    case True
    have "real m * 2 = 2 ^ precision f"
      using True assms(1) by (simp add: format_ok_def flip: power_Suc2)
    then have "real m * 2 powi e * 2 < 10 ^ 16 * 2 powi e" using p by simp
    with s have "10 powi ?j * 10 ^ 16 * 2 < 10 ^ 16 * (2 :: real) powi e" by linarith
    then have "10 powi ?j < (2 :: real) powi e / 2" by simp
    moreover have "real (?b + 1) * 10 powi ?j - ?x \<le> 10 powi ?j"
      using b(1) by (simp add: algebra_simps)
    ultimately have "\<bar>real (?b + 1) * 10 powi ?j - ?x\<bar> < 2 powi e / 2" using b(2) by linarith
    then have "round_decimal f (?b + 1) ?j = Finite False m e"
      using b(2) by (intro round_decimal_near [OF assms(1) ok]) simp_all
    then show ?thesis unfolding candidate_None by blast
  next
    case False
    then have m: "2 ^ (precision f - 1) < m \<or> e = e_min f" using ok(1) by auto
    have "real m \<le> 2 ^ precision f" using ok(1) by simp
    then have "?x \<le> 2 ^ precision f * 2 powi e" by (intro mult_right_mono) simp_all
    also have "\<dots> < 10 ^ 16 * 2 powi e" using p by simp
    finally have "?x < 10 ^ 16 * 2 powi e" .
    with s have "10 powi ?j * 10 ^ 16 < 10 ^ 16 * (2 :: real) powi e" by linarith
    then have j: "10 powi ?j < (2 :: real) powi e" by simp
    have "\<bar>real ?b * 10 powi ?j - ?x\<bar> < 2 powi e / 2 \<or>
        \<bar>real (?b + 1) * 10 powi ?j - ?x\<bar> < 2 powi e / 2"
    proof -
      have "real (?b + 1) * 10 powi ?j - real ?b * 10 powi ?j = 10 powi ?j"
        by (simp add: algebra_simps)
      with b j show ?thesis by linarith
    qed
    then have "round_decimal f ?b ?j = Finite False m e \<or> round_decimal f (?b + 1) ?j = Finite False m e"
      using m round_decimal_near [OF assms(1) ok, of ?b ?j]
        round_decimal_near [OF assms(1) ok, of "?b + 1" ?j] by blast
    then show ?thesis unfolding candidate_None by blast
  qed
qed

section \<open>Rounding is monotone\<close>

definition rounded_value :: "float_format \<Rightarrow> nat \<Rightarrow> nat \<Rightarrow> real" where
  "rounded_value f n d = real (rounded_mantissa f n d) * 2 powi rounded_exponent f n d"

lemma rounded_value_mono:
  assumes "format_ok f" "0 < n" "0 < d" "0 < n'" "0 < d'" "real n / real d \<le> real n' / real d'"
  shows "rounded_value f n d \<le> rounded_value f n' d'"
proof -
  let ?p = "precision f" and ?e = "rounded_exponent f n d" and ?e' = "rounded_exponent f n' d'"
    and ?m = "rounded_mantissa f n d" and ?m' = "rounded_mantissa f n' d'"
  have p: "0 < ?p" using assms(1) by (simp add: format_ok_def)
  define u u' where "u = real n / real d / 2 powi ?e" and "u' = real n' / real d' / 2 powi ?e'"
  note b = rounded_bounds [OF assms(1-3), folded u_def]
    and b' = rounded_bounds [OF assms(1,4,5), folded u'_def]
  have "?e \<le> ?e'"
  proof -
    have "(2 :: real) powi (int ?p - 1 + binary_exponent ?p n d) <
        2 powi (int ?p + binary_exponent ?p n' d')"
      using binary_exponent_bounds(1) [OF assms(2,3) p] binary_exponent_bounds(2) [OF assms(4,5) p]
        assms(6) by linarith
    then have "binary_exponent ?p n d \<le> binary_exponent ?p n' d'"
      using powi_le [of "int ?p + binary_exponent ?p n' d'" "int ?p - 1 + binary_exponent ?p n d"]
      by linarith
    then show ?thesis by (simp add: rounded_exponent_def)
  qed
  then consider "?e = ?e'" | "?e + 1 \<le> ?e'" by linarith
  then show ?thesis
  proof cases
    case 1
    have "u \<le> u'" unfolding u_def u'_def 1 using assms(6) by (intro divide_right_mono) simp_all
    have "?m \<le> ?m'"
    proof (rule ccontr)
      assume "\<not> ?m \<le> ?m'"
      then have less: "real ?m' + 1 \<le> real ?m" by simp
      have "u' \<le> real ?m' + 1 / 2" "real ?m - 1 / 2 \<le> u" using b(4) b'(4) by linarith+
      with less \<open>u \<le> u'\<close> have eq: "u' = u" "u = real ?m - 1 / 2" by linarith+
      have "real n / real d = u * 2 powi ?e" "real n' / real d' = u' * 2 powi ?e'"
        by (simp_all add: u_def u'_def)
      then have "real n / real d = real n' / real d'" unfolding eq(1) 1 by simp
      then have "half_even (scale 2 ?e n d) = half_even (scale 2 ?e n' d')"
        using half_even_same_value [of "snd (scale 2 ?e n d)" "snd (scale 2 ?e n' d')"
            "fst (scale 2 ?e n d)" "fst (scale 2 ?e n' d')"]
        by (simp add: scale_pos scale_value assms)
      then have "?m = ?m'" unfolding rounded_mantissa_def 1 .
      with less show False by simp
    qed
    then show ?thesis unfolding rounded_value_def 1 by (intro mult_right_mono) simp_all
  next
    case 2
    have "real ?m \<le> real (2 ^ ?p)" using b(5) unfolding of_nat_le_iff .
    then have "rounded_value f n d \<le> 2 ^ ?p * 2 powi ?e"
      unfolding rounded_value_def by (intro mult_right_mono) simp_all
    also have "(2 :: real) ^ ?p = 2 ^ (?p - 1) * 2" using p by (simp flip: power_Suc2)
    also have "2 ^ (?p - 1) * 2 * 2 powi ?e = 2 ^ (?p - 1) * (2 :: real) powi (?e + 1)"
      by (simp add: power_int_add)
    also have "\<dots> \<le> 2 ^ (?p - 1) * 2 powi ?e'" using 2 by (intro mult_left_mono powi_le) simp_all
    also have "\<dots> \<le> rounded_value f n' d'"
    proof -
      have "?e' \<noteq> e_min f" using 2 by (auto simp: rounded_exponent_def)
      then have "2 ^ (?p - 1) \<le> u'" using b'(2) by blast
      moreover have "u' - 1 / 2 \<le> real ?m'" using b'(4) by linarith
      ultimately have "2 ^ (?p - 1) < real ?m' + 1" by linarith
      then have "real (2 ^ (?p - 1)) < real (?m' + 1)" by simp
      then have "2 ^ (?p - 1) \<le> ?m'" unfolding of_nat_less_iff by simp
      then have "real (2 ^ (?p - 1)) \<le> real ?m'" unfolding of_nat_le_iff .
      then show ?thesis unfolding rounded_value_def by (intro mult_right_mono) simp_all
    qed
    finally show ?thesis .
  qed
qed

lemma round_fraction_value:
  assumes "format_ok f" "0 < n" "round_fraction f n d = Finite s m e"
  shows "real m * 2 powi e = rounded_value f n d"
proof -
  have "0 < precision f" using assms(1) by (simp add: format_ok_def)
  then have carry: "(2 :: real) ^ precision f = 2 ^ (precision f - 1) * 2"
    by (simp flip: power_Suc2)
  show ?thesis
    using assms(3) unfolding round_fraction_eq [OF assms(2)] Let_def rounded_value_def
    by (auto split: if_splits simp: power_int_add carry)
qed

lemma float_value_unique:
  assumes "format_ok f" "float_ok f (Finite False m e)" "float_ok f (Finite False m' e')"
    and "0 < m" "real m * 2 powi e = real m' * 2 powi e'"
  shows "m = m' \<and> e = e'"
proof -
  obtain n d where nd: "scale 2 (- e) m 1 = (n, d)" by fastforce
  note d = float_fraction(1) [OF nd assms(4)] and n = float_fraction(2) [OF nd assms(4)]
    and x = float_fraction(3) [OF nd assms(4)]
  have "0 < m'" using assms(4,5) by (intro gr0I) simp
  then have "round_fraction f n d = Finite False m' e'"
    using x unfolding assms(5) by (intro round_fraction_exact [OF assms(1,3) _ n d]) simp_all
  with round_fraction_exact [OF assms(1,2,4) n d x] show ?thesis by simp
qed

lemma round_decimal_between:
  assumes "format_ok f" "round_decimal f c k = Finite False m e" "0 < m"
    and "round_decimal f c' k' = Finite False m e"
    and "real c * 10 powi k \<le> real c1 * 10 powi k1" "real c1 * 10 powi k1 \<le> real c' * 10 powi k'"
  shows "round_decimal f c1 k1 = Finite False m e"
proof -
  obtain n d where nd: "0 < d" "real n / real d = real c * 10 powi k"
    "round_decimal f c k = round_fraction f n d" by (rule round_decimal_fraction)
  obtain n' d' where nd': "0 < d'" "real n' / real d' = real c' * 10 powi k'"
    "round_decimal f c' k' = round_fraction f n' d'" by (rule round_decimal_fraction)
  obtain n1 d1 where nd1: "0 < d1" "real n1 / real d1 = real c1 * 10 powi k1"
    "round_decimal f c1 k1 = round_fraction f n1 d1" by (rule round_decimal_fraction)
  have r: "round_fraction f n d = Finite False m e" "round_fraction f n' d' = Finite False m e"
    using assms(2,4) nd(3) nd'(3) by simp_all
  have n: "0 < n" using r(1) assms(3) by (intro gr0I) (simp add: round_fraction_def)
  have n': "0 < n'" using r(2) assms(3) by (intro gr0I) (simp add: round_fraction_def)
  have "0 < real n / real d" using n nd(1) by simp
  then have "0 < real n1 / real d1" using assms(5) nd(2) nd1(2) by linarith
  then have n1: "0 < n1" by (simp add: zero_less_divide_iff)
  have "rounded_value f n d \<le> rounded_value f n1 d1" "rounded_value f n1 d1 \<le> rounded_value f n' d'"
    using assms(5,6) nd nd1 nd' n n1 n' by (auto intro!: rounded_value_mono [OF assms(1)])
  moreover have v: "rounded_value f n d = real m * 2 powi e" "rounded_value f n' d' = real m * 2 powi e"
    using round_fraction_value [OF assms(1) n r(1)] round_fraction_value [OF assms(1) n' r(2)]
    by simp_all
  ultimately have v1: "rounded_value f n1 d1 = real m * 2 powi e" by simp
  have ok: "float_ok f (Finite False m e)" using round_fraction_ok [OF assms(1) nd(1), of n] r(1) by simp
  show ?thesis
  proof (cases "round_fraction f n1 d1")
    case (Finite s m1 e1)
    have s: "s = False" using Finite n1 by (auto simp: round_fraction_eq Let_def split: if_splits)
    have "float_ok f (Finite False m1 e1)"
      using round_fraction_ok [OF assms(1) nd1(1), of n1] Finite s by simp
    from float_value_unique [OF assms(1) ok this assms(3)]
    have "m = m1 \<and> e = e1" unfolding round_fraction_value [OF assms(1) n1 Finite] v1 by blast
    with Finite s nd1(3) show ?thesis by simp
  next
    case NaN
    then show ?thesis using n1 by (auto simp: round_fraction_eq Let_def split: if_splits)
  next
    case (Infinite s)
    have p: "0 < precision f" using assms(1) by (simp add: format_ok_def)
    let ?M = "rounded_mantissa f n1 d1" and ?E = "rounded_exponent f n1 d1"
    from Infinite consider "?M = 2 ^ precision f" "e_max f < ?E + 1" | "e_max f < ?E"
      using n1 by (auto simp: round_fraction_eq Let_def split: if_splits)
    then have "2 ^ precision f * 2 powi e_max f \<le> rounded_value f n1 d1"
    proof cases
      case 1
      then have "(2 :: real) powi e_max f \<le> 2 powi ?E" by (intro powi_le) simp
      then show ?thesis unfolding rounded_value_def 1(1) by simp
    next
      case 2
      let ?u = "real n1 / real d1 / 2 powi ?E"
      have "?E \<noteq> e_min f" using 2 ok by auto
      then have "2 ^ (precision f - 1) \<le> ?u" "?u - 1 / 2 \<le> real ?M"
        using rounded_bounds(2,4) [OF assms(1) n1 nd1(1)] by linarith+
      then have "2 ^ (precision f - 1) < real ?M + 1" by linarith
      then have "real (2 ^ (precision f - 1)) < real (?M + 1)" by simp
      then have "2 ^ (precision f - 1) \<le> ?M" unfolding of_nat_less_iff by simp
      then have M: "real (2 ^ (precision f - 1)) \<le> real ?M" unfolding of_nat_le_iff .
      have "(2 :: real) ^ precision f * 2 powi e_max f = 2 ^ (precision f - 1) * 2 powi (e_max f + 1)"
        using p by (simp add: power_int_add flip: power_Suc2)
      also have "\<dots> \<le> real ?M * 2 powi ?E"
        using M 2 by (intro mult_mono powi_le) simp_all
      finally show ?thesis unfolding rounded_value_def .
    qed
    moreover have "real m * 2 powi e < 2 ^ precision f * 2 powi e_max f"
    proof -
      have "real m < 2 ^ precision f" "e \<le> e_max f" using ok by simp_all
      then show ?thesis by (intro mult_less_le_imp_less powi_le) simp_all
    qed
    ultimately show ?thesis using v1 by simp
  qed
qed

section \<open>The printed decimal is the shortest\<close>

lemma decimal_scale: "real c * 10 powi k = real (c * 10 ^ nat (k - j)) * 10 powi j" if "j \<le> k"
proof -
  have "(10 :: real) powi k = 10 powi (k - j) * 10 powi j" by (simp flip: power_int_add)
  also have "(10 :: real) powi (k - j) = 10 ^ nat (k - j)" using that by (simp add: power_int_def)
  finally show ?thesis by simp
qed

lemma unit_less: "real a * 10 powi j < real b * 10 powi (j :: int) \<longleftrightarrow> a < b"
  by simp

lemma unit_le: "real a * 10 powi j \<le> real b * 10 powi (j :: int) \<longleftrightarrow> a \<le> b"
  by simp

lemma powi_units:
  assumes "0 < N"
  shows "(10 :: real) powi (K - 1) = real (10 ^ (N - 1)) * 10 powi (K - int N)"
proof -
  have "K - 1 = int (N - 1) + (K - int N)" using assms by simp
  then have "(10 :: real) powi (K - 1) = 10 powi (int (N - 1) + (K - int N))" by (rule arg_cong)
  also have "\<dots> = 10 powi int (N - 1) * 10 powi (K - int N)" by (rule power_int_add) simp
  finally show ?thesis unfolding power_int_of_nat by simp
qed

lemma short_decimal_le:
  assumes "c < 10 ^ N" "k < K - int N"
  shows "real c * 10 powi k \<le> 10 powi (K - 1)"
proof -
  have "real c \<le> real (10 ^ N)" using assms(1) by (intro of_nat_mono) simp
  then have "real c * 10 powi k \<le> 10 powi int N * 10 powi k"
    unfolding power_int_of_nat by (intro mult_right_mono) simp_all
  also have "\<dots> = 10 powi (int N + k)" by (rule power_int_add [symmetric]) simp
  also have "\<dots> \<le> 10 powi (K - 1)" using assms(2) by (intro power_int_increasing) simp_all
  finally show ?thesis .
qed

text \<open>
  A decimal of at most \<open>N\<close> digits on one side of a fraction, which has its first digit at
  \<open>K - 1\<close>, is not nearer to it than the multiple of \<open>10 ^ (K - N)\<close> on the same side.
\<close>

lemma short_decimal_below:
  assumes "0 < d" "10 powi (K - 1) \<le> real n / real d" "c < 10 ^ N" "0 < N"
    and "real c * 10 powi k \<le> real n / real d"
  shows "real c * 10 powi k \<le> real (below n d (K - int N)) * 10 powi (K - int N)"
proof (cases "K - int N \<le> k")
  case True
  note scaled = decimal_scale [OF True, of c]
  have "real (c * 10 ^ nat (k - (K - int N))) * 10 powi (K - int N) <
      real (below n d (K - int N) + 1) * 10 powi (K - int N)"
    using below_bounds(2) [OF assms(1), of n "K - int N"] assms(5) unfolding scaled by linarith
  then show ?thesis unfolding scaled unit_less unit_le by simp
next
  case False
  have "real (10 ^ (N - 1)) * 10 powi (K - int N) <
      real (below n d (K - int N) + 1) * 10 powi (K - int N)"
    using below_bounds(2) [OF assms(1), of n "K - int N"] assms(2)
    unfolding powi_units [OF assms(4)] by linarith
  then have "real (10 ^ (N - 1)) * 10 powi (K - int N) \<le>
      real (below n d (K - int N)) * 10 powi (K - int N)"
    unfolding unit_less unit_le by simp
  with short_decimal_le [OF assms(3), of k K] False show ?thesis
    unfolding powi_units [OF assms(4)] by linarith
qed

lemma short_decimal_above:
  assumes "0 < d" "10 powi (K - 1) \<le> real n / real d" "c < 10 ^ N"
    and "real n / real d < real c * 10 powi k"
  shows "real (below n d (K - int N) + 1) * 10 powi (K - int N) \<le> real c * 10 powi k"
proof -
  have "K - int N \<le> k"
    using short_decimal_le [OF assms(3), of k K] assms(2,4) by linarith
  note scaled = decimal_scale [OF this, of c]
  have "real (below n d (K - int N)) * 10 powi (K - int N) <
      real (c * 10 ^ nat (k - (K - int N))) * 10 powi (K - int N)"
    using below_bounds(1) [OF assms(1), of n "K - int N"] assms(4)
    unfolding scaled [symmetric] by linarith
  then show ?thesis unfolding scaled unit_less unit_le by simp
qed

lemma candidate_exists:
  assumes "format_ok f" "float_ok f (Finite False m e)" "0 < m" and nd: "scale 2 (- e) m 1 = (n, d)"
    and r: "round_decimal f c k = Finite False m e" and "c < 10 ^ N" "0 < N"
  shows "candidate f (Finite False m e) n d (decimal_exponent n d - int N) \<noteq> None"
proof -
  note x = float_fraction [OF nd assms(3)]
  note K = decimal_exponent_bounds(1) [OF x(2,1)]
  let ?j = "decimal_exponent n d - int N"
  note b = below_bounds [OF x(1), of n ?j]
  obtain cx kx where ex: "exact_decimal m e = (cx, kx)" by fastforce
  note rx = round_exact_decimal [OF assms(1-3) ex]
  have vx: "real cx * 10 powi kx = real n / real d"
    using exact_decimal_value [OF ex] x(3) by (simp only:)
  show ?thesis
  proof (cases "real c * 10 powi k \<le> real n / real d")
    case True
    have "round_decimal f (below n d ?j) ?j = Finite False m e"
      by (rule round_decimal_between [OF assms(1) r assms(3) rx
            short_decimal_below [OF x(1) K assms(6,7) True]]) (simp only: vx b(1))
    then show ?thesis unfolding candidate_None by blast
  next
    case False
    then have above: "real n / real d < real c * 10 powi k" by simp
    have "real cx * 10 powi kx \<le> real (below n d ?j + 1) * 10 powi ?j"
      unfolding vx by (rule less_imp_le [OF b(2)])
    then have "round_decimal f (below n d ?j + 1) ?j = Finite False m e"
      by (rule round_decimal_between [OF assms(1) rx assms(3) r])
        (rule short_decimal_above [OF x(1) K assms(6) above])
    then show ?thesis unfolding candidate_None by blast
  qed
qed

lemma shortest_stops:
  assumes "scale 2 (- e) m 1 = (n, d)" "candidate f (Finite False m e) n d (j - int t) \<noteq> None" "t < fuel"
    and "shortest f m e fuel j = (c, k)"
  shows "candidate f (Finite False m e) n d k = Some c \<and> j - int t \<le> k \<and> k \<le> j"
  using assms(2-4)
proof (induction fuel arbitrary: j t)
  case (Suc fuel)
  show ?case
  proof (cases "candidate f (Finite False m e) n d j")
    case None
    with Suc.prems(1) obtain t' where t: "t = Suc t'" by (cases t) auto
    have "shortest f m e fuel (j - 1) = (c, k)"
      using Suc.prems(3) None assms(1) by simp
    moreover have "candidate f (Finite False m e) n d (j - 1 - int t') \<noteq> None"
      using Suc.prems(1) unfolding t by (simp add: algebra_simps)
    ultimately show ?thesis using Suc.IH [of "j - 1" t'] Suc.prems(2) t by simp
  next
    case (Some c')
    with Suc.prems(3) assms(1) have "c' = c" "j = k" by simp_all
    with Some show ?thesis by simp
  qed
qed simp

lemma strip_zeros_power:
  "strip_zeros c k = (c1, k1) \<Longrightarrow> 0 < c \<Longrightarrow> \<exists>i. c = c1 * 10 ^ i \<and> c1 mod 10 \<noteq> 0"
proof (induction c k rule: strip_zeros.induct)
  case (1 c k)
  show ?case
  proof (cases "c mod 10 = 0")
    case True
    then have "c = c div 10 * 10" "0 < c div 10" using 1(3) by auto
    moreover from this 1 True obtain i where "c div 10 = c1 * 10 ^ i" "c1 mod 10 \<noteq> 0"
      by (auto simp: strip_zeros.simps [of c k])
    ultimately show ?thesis by (intro exI [of _ "Suc i"]) simp
  next
    case False
    with 1 show ?thesis by (intro exI [of _ 0]) (simp add: strip_zeros.simps [of c k])
  qed
qed

lemma strip_zeros_bound:
  assumes "strip_zeros c k = (c1, k1)" "0 < c" "c \<le> 10 ^ N" "0 < N"
  shows "c1 mod 10 \<noteq> 0 \<and> c1 < 10 ^ N"
proof -
  obtain i where i: "c = c1 * 10 ^ i" "c1 mod 10 \<noteq> 0" using strip_zeros_power [OF assms(1,2)] by blast
  have "c1 \<le> c" unfolding i(1) by simp
  moreover have "c1 \<noteq> 10 ^ N"
  proof
    assume "c1 = 10 ^ N"
    then have "c1 mod 10 = 0" using assms(4) by (cases N) simp_all
    with i(2) show False by simp
  qed
  ultimately show ?thesis using assms(3) i(2) by simp
qed

lemma shown_shortest:
  assumes f: "format_ok f" "2 ^ precision f < (10 ^ 16 :: nat)"
    and ok: "float_ok f (Finite False m e)" "0 < m"
  shows "\<exists>c k. show_magnitude f m e = positional c k \<and> round_decimal f c k = Finite False m e \<and>
    c mod 10 \<noteq> 0 \<and> c < 10 ^ 17 \<and>
    (\<forall>c' k'. round_decimal f c' k' = Finite False m e \<longrightarrow>
       length (show_nat c) \<le> length (show_nat c'))"
proof -
  obtain n d where nd: "scale 2 (- e) m 1 = (n, d)" by fastforce
  note d = float_fraction(1) [OF nd ok(2)] and n = float_fraction(2) [OF nd ok(2)]
  let ?K = "decimal_exponent n d"
  obtain c k where ck: "shortest f m e 17 (?K - 1) = (c, k)" by fastforce
  obtain c1 k1 where c1: "strip_zeros c k = (c1, k1)" by fastforce
  have read: "round_decimal f c1 k1 = Finite False m e"
    using round_decimal_same [OF f(1) strip_zeros_value [OF c1]] shortest_reads_back [OF f(1) ok ck]
    by simp
  have "c \<noteq> 0"
  proof
    assume "c = 0"
    then have "round_decimal f c k = Finite False 0 (e_min f)"
      by (simp add: round_decimal_def scale_def round_fraction_def)
    with shortest_reads_back [OF f(1) ok ck] ok(2) show False by simp
  qed
  have digits: "c1 mod 10 \<noteq> 0 \<and> c1 < 10 ^ N"
    if N: "0 < N" "N \<le> 17" "candidate f (Finite False m e) n d (?K - int N) \<noteq> None" for N
  proof -
    have "?K - 1 - int (N - 1) = ?K - int N" using N(1) by simp
    then have "candidate f (Finite False m e) n d (?K - 1 - int (N - 1)) \<noteq> None" using N(3) by simp
    from shortest_stops [OF nd this _ ck] N(1,2)
    have s: "candidate f (Finite False m e) n d k = Some c" "?K - int N \<le> k" "k \<le> ?K - 1" by auto
    have "real (below n d k) * 10 powi k < 10 powi ?K"
      using below_bounds(1) [OF d, of n k] decimal_exponent_bounds(2) [OF n d] by linarith
    also have "(10 :: real) powi ?K \<le> 10 powi (int N + k)"
      using s(2) by (intro power_int_increasing) simp_all
    also have "\<dots> = 10 powi int N * 10 powi k" by (rule power_int_add) simp
    finally have "real (below n d k) * 10 powi k < real (10 ^ N) * 10 powi k"
      unfolding power_int_of_nat by simp
    then have "below n d k < 10 ^ N" unfolding unit_less .
    then have "c \<le> 10 ^ N" using candidate_Some [OF s(1)] by simp
    with strip_zeros_bound [OF c1] \<open>c \<noteq> 0\<close> N(1) show ?thesis by simp
  qed
  have seventeen: "c1 mod 10 \<noteq> 0 \<and> c1 < 10 ^ 17"
    using digits [of 17] candidate_seventeen [OF f ok nd] by simp
  have "length (show_nat c1) \<le> length (show_nat c')"
    if r: "round_decimal f c' k' = Finite False m e" for c' k'
  proof -
    let ?N = "length (show_nat c')"
    have N: "0 < ?N" by simp
    have c1_len: "length (show_nat c1) \<le> M" if "c1 < 10 ^ M" "0 < c1" for M
    proof (rule ccontr)
      assume "\<not> length (show_nat c1) \<le> M"
      then have "(10 :: nat) ^ M \<le> 10 ^ (length (show_nat c1) - 1)" by (intro power_increasing) simp_all
      with show_nat_length [OF that(2)] that(1) show False by linarith
    qed
    have c1_pos: "0 < c1" using seventeen by (intro gr0I) simp
    show ?thesis
    proof (cases "?N \<le> 17")
      case True
      from candidate_exists [OF f(1) ok nd r show_nat_bound N] digits [OF N True] c1_len c1_pos
      show ?thesis by blast
    next
      case False
      with c1_len [of 17] seventeen c1_pos show ?thesis by simp
    qed
  qed
  moreover have "show_magnitude f m e = positional c1 k1"
    using ok(2) unfolding show_magnitude_def nd prod.case ck c1 by simp
  ultimately show ?thesis using read seventeen by blast
qed

section \<open>Rounding a decimal\<close>

text \<open>The least number that is rounded to infinity: half a unit above the largest float.\<close>

definition overflow_bound :: "float_format \<Rightarrow> real" where
  "overflow_bound f = (2 ^ precision f - 1 / 2) * 2 powi e_max f"

lemma round_fraction_overflow:
  assumes "format_ok f" "0 < n" "0 < d" "round_fraction f n d = Infinite s"
  shows "overflow_bound f \<le> real n / real d"
proof -
  let ?M = "rounded_mantissa f n d" and ?E = "rounded_exponent f n d"
  define u where "u = real n / real d / 2 powi ?E"
  have p: "0 < precision f" and e: "e_min f < e_max f" using assms(1) by (simp_all add: format_ok_def)
  note b = rounded_bounds [OF assms(1-3), folded u_def]
  have x: "real n / real d = u * 2 powi ?E" by (simp add: u_def)
  from assms(4) consider "?M = 2 ^ precision f" "e_max f \<le> ?E" | "e_max f + 1 \<le> ?E"
    using assms(2) by (auto simp: round_fraction_eq Let_def split: if_splits)
  then show ?thesis
  proof cases
    case 1
    then have "real ?M = 2 ^ precision f" by simp
    then have "2 ^ precision f - 1 / 2 \<le> u" using b(4) by linarith
    moreover have "0 \<le> (2 :: real) ^ precision f - 1 / 2"
      using one_le_power [of "2 :: real" "precision f"] by linarith
    ultimately show ?thesis
      unfolding x overflow_bound_def using 1(2) by (intro mult_mono powi_le) simp_all
  next
    case 2
    then have "2 ^ (precision f - 1) \<le> u" using b(2) e by auto
    then have "2 ^ (precision f - 1) * 2 powi (e_max f + 1) \<le> u * 2 powi ?E"
      using 2 by (intro mult_mono powi_le) (simp_all add: order.trans [of 0 "2 ^ (precision f - 1)"])
    moreover have "2 ^ (precision f - 1) * 2 powi (e_max f + 1) =
        (2 :: real) ^ precision f * 2 powi e_max f"
      using p by (simp add: power_int_add flip: power_Suc2)
    moreover have "overflow_bound f \<le> 2 ^ precision f * 2 powi e_max f"
      unfolding overflow_bound_def by (intro mult_right_mono) simp_all
    ultimately show ?thesis unfolding x by linarith
  qed
qed

lemma round_fraction_positive:
  "round_fraction f n d \<noteq> NaN" "round_fraction f n d = Infinite s \<Longrightarrow> \<not> s"
  "round_fraction f n d = Finite s m e \<Longrightarrow> \<not> s"
  by (cases "n = 0"; auto simp: round_fraction_def Let_def split: if_splits)+

lemma round_decimal_spec:
  assumes "format_ok f"
  shows "float_ok f (round_decimal f c k) \<and>
    (case round_decimal f c k of
       Finite s m e \<Rightarrow> \<not> s \<and> (\<forall>t a i. float_ok f (Finite t a i) \<longrightarrow>
         \<bar>float_value (Finite False m e) - real c * 10 powi k\<bar> \<le>
         \<bar>float_value (Finite t a i) - real c * 10 powi k\<bar>)
     | Infinite s \<Rightarrow> \<not> s \<and> overflow_bound f \<le> real c * 10 powi k
     | NaN \<Rightarrow> False)"
proof -
  obtain n d where nd: "0 < d" "real n / real d = real c * 10 powi k"
    "round_decimal f c k = round_fraction f n d" by (rule round_decimal_fraction)
  show ?thesis
  proof (cases "n = 0")
    case True
    then have "round_fraction f n d = Finite False 0 (e_min f)" by (simp add: round_fraction_def)
    moreover have "real c * 10 powi k = 0" using nd(2) True by simp
    ultimately show ?thesis using round_fraction_ok [OF assms nd(1), of n] nd(3) by simp
  next
    case False
    then have n: "0 < n" by simp
    note near = round_fraction_nearest [OF assms n nd(1)]
      and over = round_fraction_overflow [OF assms n nd(1)]
    show ?thesis
    proof (cases "round_fraction f n d")
      case NaN
      then show ?thesis using round_fraction_positive(1) by blast
    next
      case (Infinite s)
      then show ?thesis
        using over [of s] round_fraction_positive(2) [of f n d s] by (simp add: nd(3) flip: nd(2))
    next
      case (Finite s m e)
      have "\<not> s" by (rule round_fraction_positive(3) [OF Finite])
      with Finite near [of False m e] round_fraction_ok [OF assms nd(1), of n] show ?thesis
        by (simp add: nd(3) del: float_value.simps float_ok.simps flip: nd(2))
    qed
  qed
qed

end
