(* ===== verification/Float_Literals.thy ===== *)
theory Float_Literals
  imports Arguments Float_Laws
begin

text \<open>
  Floats as bound values and as values of a result: which texts are read, that a float bound
  and read back is the same float, that its literal is the shortest there is, and that only a
  finite float has a literal that SQL reads as a number.
\<close>

section \<open>The literal of a float\<close>

text \<open>\<open>f32\<close> and \<open>f64\<close>.\<close>

definition rust_format :: "float_format \<Rightarrow> bool" where
  "rust_format f \<longleftrightarrow> f = f32_format \<or> f = f64_format"

lemma rust_format_ok: "rust_format f \<Longrightarrow> format_ok f \<and> 2 ^ precision f < (10 ^ 16 :: nat)"
  by (auto simp: rust_format_def format_ok_def f32_format_def f64_format_def)

text \<open>An exact numeric literal of SQL, with its sign.\<close>

definition sql_number :: "rstr \<Rightarrow> bool" where
  "sql_number s =
     (let t = (if s \<noteq> [] \<and> hd s = 45 then tl s else s);
          rest = dropWhile is_digit t
      in t \<noteq> [] \<and> is_digit (hd t) \<and>
         (rest = [] \<or> (hd rest = 46 \<and> tl rest \<noteq> [] \<and> list_all is_digit (tl rest))))"

fun finite_float :: "rust_float \<Rightarrow> bool" where
  "finite_float (Finite s m e) = True"
| "finite_float _ = False"

lemma positional_shape:
  "\<exists>ds fs. ds \<noteq> [] \<and> list_all is_digit ds \<and> list_all is_digit fs \<and>
    (positional c k = ds \<or> (fs \<noteq> [] \<and> positional c k = ds @ 46 # fs))"
proof -
  let ?ds = "show_nat c" and ?n = "nat (- k)"
  have digits: "\<forall>x \<in> set ?ds. is_digit x" "is_digit 48"
    using show_nat_digits [of c] by (simp_all add: list_all_iff is_digit_def)
  consider "0 \<le> k" | "k < 0" "?n < length ?ds" | "k < 0" "length ?ds \<le> ?n" by linarith
  then show ?thesis
  proof cases
    case 1
    then show ?thesis using digits
      by (intro exI [of _ "?ds @ replicate (nat k) 48"] exI [of _ "[]"])
        (auto simp: positional_def Let_def list_all_iff [of is_digit])
  next
    case 2
    let ?w = "take (length ?ds - ?n) ?ds" and ?f = "drop (length ?ds - ?n) ?ds"
    have "?w \<noteq> []" "?f \<noteq> []" "list_all is_digit ?w" "list_all is_digit ?f"
      using 2 digits by (auto simp: list_all_iff [of is_digit] dest: in_set_takeD in_set_dropD)
    moreover have "positional c k = ?w @ 46 # ?f" using 2 by (simp add: positional_def Let_def)
    ultimately show ?thesis by blast
  next
    case 3
    let ?f = "replicate (?n - length ?ds) 48 @ ?ds"
    have "?f \<noteq> []" "list_all is_digit ?f" "list_all is_digit [48]"
      using digits by (auto simp: list_all_iff [of is_digit])
    moreover have "positional c k = [48] @ 46 # ?f" using 3 by (simp add: positional_def Let_def)
    ultimately show ?thesis by blast
  qed
qed

lemma magnitude_shape:
  "\<exists>ds fs. ds \<noteq> [] \<and> list_all is_digit ds \<and> list_all is_digit fs \<and>
    (show_magnitude f m e = ds \<or> (fs \<noteq> [] \<and> show_magnitude f m e = ds @ 46 # fs))"
proof (cases "m = 0")
  case True
  then have "show_magnitude f m e = [48]" by (simp add: show_magnitude_def)
  moreover have "list_all is_digit [48]" by (simp add: is_digit_def)
  ultimately show ?thesis by blast
next
  case False
  obtain n d where nd: "scale 2 (- e) m 1 = (n, d)" by fastforce
  obtain c k where ck: "shortest f m e 17 (decimal_exponent n d - 1) = (c, k)" by fastforce
  obtain c' k' where "strip_zeros c k = (c', k')" by fastforce
  then have "show_magnitude f m e = positional c' k'"
    using False unfolding show_magnitude_def nd prod.case ck by simp
  then show ?thesis using positional_shape by simp
qed

lemma magnitude_number: "sql_number (show_magnitude f m e)" "sql_number (45 # show_magnitude f m e)"
proof -
  obtain ds fs where s: "ds \<noteq> []" "list_all is_digit ds" "list_all is_digit fs"
    "show_magnitude f m e = ds \<or> (fs \<noteq> [] \<and> show_magnitude f m e = ds @ 46 # fs)"
    using magnitude_shape by blast
  have hd: "is_digit (hd ds)" using s(1,2) by (cases ds) simp_all
  then have h: "hd ds \<noteq> 45" by (auto simp: is_digit_def)
  have ds: "\<forall>c \<in> set ds. is_digit c" using s(2) by (simp add: list_all_iff)
  then have drop: "dropWhile is_digit ds = []" "dropWhile is_digit (ds @ 46 # fs) = 46 # fs"
    by (simp_all add: dropWhile_append2 is_digit_def [of 46])
  have "sql_number t \<and> sql_number (45 # t)" if "t = ds \<or> (fs \<noteq> [] \<and> t = ds @ 46 # fs)" for t
    using that s(1,3) hd h drop by (auto simp: sql_number_def Let_def)
  with s(4) show "sql_number (show_magnitude f m e)" "sql_number (45 # show_magnitude f m e)" by blast+
qed

lemma show_float_number: "sql_number (show_float f x) \<longleftrightarrow> finite_float x"
  by (cases x) (simp_all add: magnitude_number, simp_all add: sql_number_def is_digit_def Let_def)

lemma show_float_word: "show_float f x \<noteq> [] \<and> list_all word_char (show_float f x)"
proof (cases x)
  case (Finite s m e)
  obtain ds fs where "ds \<noteq> []" "list_all is_digit ds" "list_all is_digit fs"
    "show_magnitude f m e = ds \<or> (fs \<noteq> [] \<and> show_magnitude f m e = ds @ 46 # fs)"
    using magnitude_shape by blast
  then have "show_magnitude f m e \<noteq> [] \<and> (\<forall>c \<in> set (show_magnitude f m e). word_char c)"
    by (auto simp: list_all_iff [of is_digit] word_char_def)
  with Finite show ?thesis by (simp add: list_all_iff [of word_char] word_char_def [of 45])
qed (simp_all add: word_char_def)

lemma scalars_show_float: "scalars (show_float f x)"
proof -
  have "scalar c" if "word_char c" for c
    using that by (auto simp: word_char_def is_digit_def scalar_def)
  then show ?thesis using show_float_word [of f x] by (auto simp: list_all_iff)
qed

section \<open>The contract\<close>

lemma float_literal_codec:
  assumes "rust_format f"
  shows "literal_codec (decode_float f) (encode_float f) (show_float f) (show_float f)
    (float_ok f) (\<lambda>x. SWord (show_float f x))"
proof
  fix x y :: rust_float and rest buf ty
  note parse = parse_show_float [OF rust_format_ok [OF assms, THEN conjunct1]]
  show "encode_float f x buf = Inr (buf @ as_bytes (show_float f x), IsNull_No)"
    by (simp add: encode_float_def)
  show "scalars (show_float f x)" by (rule scalars_show_float)
  show "float_ok f x \<Longrightarrow> decode_float f (value_ref_new (show_float f x) ty) = Inr x"
    by (simp add: decode_float_def value_ref_text_def value_ref_new_def parse)
  show "decode_float f (value_ref_null ty) = Inl UnexpectedNull"
    by (simp add: decode_float_def value_ref_text_def value_ref_null_def)
  show "delimited rest \<Longrightarrow> read_token (show_float f x @ rest) = Some (SWord (show_float f x), rest)"
    using show_float_word by (intro read_token_word) auto
  show "float_ok f x \<Longrightarrow> float_ok f y \<Longrightarrow> SWord (show_float f x) = SWord (show_float f y) \<Longrightarrow> x = y"
    using parse [of x] parse [of y] by (metis sql_token.inject(2) sum.inject(2))
qed

interpretation f32_codec: literal_codec "decode_float f32_format" "encode_float f32_format"
    "show_float f32_format" "show_float f32_format" "float_ok f32_format"
    "\<lambda>x. SWord (show_float f32_format x)"
  by (rule float_literal_codec) (simp add: rust_format_def)

interpretation f64_codec: literal_codec "decode_float f64_format" "encode_float f64_format"
    "show_float f64_format" "show_float f64_format" "float_ok f64_format"
    "\<lambda>x. SWord (show_float f64_format x)"
  by (rule float_literal_codec) (simp add: rust_format_def)

section \<open>Properties\<close>

text \<open>C14: A float that is bound and comes back as the server would print it is the
  same float: for \<open>f32\<close> and \<open>f64\<close> and every value of theirs, the negative zero, the least
  subnormals, the infinities and NaN included, encoding appends the decimal text of the float
  and decoding that text gives the float again, with nothing lost to rounding on the way.\<close>

theorem float_roundtrip:
  assumes "f = f32_format \<or> f = f64_format" and "float_ok f x"
  shows "\<exists>text. arguments_add (encode_float f) x args =
      Inr (args\<lparr>literals := literals args @ [text]\<rparr>) \<and>
    decode_float f (value_ref_new text ty) = Inr x"
  using assms f32_codec.add_good f32_codec.decode_wire f64_codec.add_good f64_codec.decode_wire
  by blast

theorem float_roundtrip_witness:
  "\<exists>text. arguments_add (encode_float f64_format) (Finite True 1 (-1074)) \<lparr>literals = []\<rparr> =
      Inr \<lparr>literals = [text]\<rparr> \<and>
    decode_float f64_format (value_ref_new text type_info_f64) = Inr (Finite True 1 (-1074))"
  using float_roundtrip [of f64_format "Finite True 1 (-1074)" "\<lparr>literals = []\<rparr>" type_info_f64]
  by (simp add: f64_format_def)

text \<open>C31: The literal of a finite float has as few significant digits as it
  can: behind a minus for a negative one, the negative zero included, stands the positional form
  of a decimal of at most seventeen digits that reads back as the magnitude of the float, and no
  decimal with fewer digits does. Its digits do not end in a zero; zero is written \<open>0\<close>.\<close>

theorem float_literal_shortest:
  assumes "f = f32_format \<or> f = f64_format" and "float_ok f (Finite neg m e)"
  shows "\<exists>c k. encode_float f (Finite neg m e) buf =
      Inr (buf @ as_bytes ((if neg then lit ''-'' else []) @ positional c k), IsNull_No) \<and>
    round_decimal f c k = Finite False m e \<and> c < 10 ^ 17 \<and>
    (if m = 0 then positional c k = lit ''0'' else c mod 10 \<noteq> 0) \<and>
    (\<forall>c' k'. round_decimal f c' k' = Finite False m e \<longrightarrow>
       length (show_nat c) \<le> length (show_nat c'))"
proof -
  have f: "rust_format f" using assms(1) by (simp add: rust_format_def)
  have ok: "float_ok f (Finite False m e)" using assms(2) by simp
  show ?thesis
  proof (cases "m = 0")
    case True
    have "2 ^ (precision f - 1) \<noteq> (0 :: nat)" by simp
    then have e: "e = e_min f" using ok True by (auto simp: not_le)
    have "round_decimal f 0 0 = Finite False m e" "positional 0 0 = lit ''0''"
      by (simp_all add: True e round_decimal_def scale_def round_fraction_def positional_def show_nat.simps)
    moreover have "length (show_nat 0) \<le> length (show_nat c')" for c'
    proof -
      have "show_nat c' \<noteq> []" by simp
      then have "1 \<le> length (show_nat c')" by (cases "show_nat c'") simp_all
      moreover have "length (show_nat 0) = 1" by (simp add: show_nat.simps)
      ultimately show ?thesis by simp
    qed
    ultimately show ?thesis
      by (intro exI [of _ 0] exI [of _ "0 :: int"] conjI) (simp_all add: True encode_float_def show_magnitude_def)
  next
    case False
    with shown_shortest [OF _ _ ok] rust_format_ok [OF f] obtain c k where
      "show_magnitude f m e = positional c k" "round_decimal f c k = Finite False m e"
      "c mod 10 \<noteq> 0" "c < 10 ^ 17" "\<forall>c' k'. round_decimal f c' k' = Finite False m e \<longrightarrow>
         length (show_nat c) \<le> length (show_nat c')" by blast
    with False show ?thesis by (intro exI [of _ c] exI [of _ k]) (simp add: encode_float_def)
  qed
qed

theorem float_literal_shortest_witness:
  "(\<exists>c k. encode_float f64_format (Finite True 1 (-1074)) [] =
      Inr ([] @ as_bytes (lit ''-'' @ positional c k), IsNull_No) \<and>
    round_decimal f64_format c k = Finite False 1 (-1074) \<and> c mod 10 \<noteq> 0 \<and> c < 10 ^ 17) \<and>
   (\<exists>c k. encode_float f64_format (Finite True 0 (-1074)) [] =
      Inr ([] @ as_bytes (lit ''-'' @ positional c k), IsNull_No) \<and> positional c k = lit ''0'')"
proof
  have ok: "float_ok f64_format (Finite True 1 (-1074))" "float_ok f64_format (Finite True 0 (-1074))"
    by (simp_all add: f64_format_def)
  note one = float_literal_shortest [OF disjI2 [OF refl] ok(1), of "[]"]
  note zero = float_literal_shortest [OF disjI2 [OF refl] ok(2), of "[]"]
  from one show "\<exists>c k. encode_float f64_format (Finite True 1 (-1074)) [] =
      Inr ([] @ as_bytes (lit ''-'' @ positional c k), IsNull_No) \<and>
    round_decimal f64_format c k = Finite False 1 (-1074) \<and> c mod 10 \<noteq> 0 \<and> c < 10 ^ 17"
    unfolding if_True by (elim exE conjE, intro exI conjI) (assumption | simp)+
  from zero show "\<exists>c k. encode_float f64_format (Finite True 0 (-1074)) [] =
      Inr ([] @ as_bytes (lit ''-'' @ positional c k), IsNull_No) \<and> positional c k = lit ''0''"
    unfolding if_True by (elim exE conjE, intro exI conjI) (assumption | simp)+
qed

text \<open>C21: A decimal text is decoded to the float nearest to the number it
  denotes: no other float of the format is nearer, whatever its number of digits and however
  large or small its exponent. The result is infinite only for a number at least half a unit
  above the largest float, and a decimal text is never NaN.\<close>

theorem float_decoding_nearest:
  assumes "f = f32_format \<or> f = f64_format" and "parse_number u = Some (c, k)"
    and "t = u \<or> t = 43 # u \<or> t = 45 # u"
  defines "v \<equiv> (if hd t = 45 then - 1 else 1) * (real c * 10 powi k)"
  shows "\<exists>x. decode_float f (value_ref_new t ty) = Inr x \<and> float_ok f x \<and> x \<noteq> NaN \<and>
    (finite_float x \<longrightarrow> (\<forall>y. float_ok f y \<and> finite_float y \<longrightarrow>
       \<bar>float_value x - v\<bar> \<le> \<bar>float_value y - v\<bar>)) \<and>
    (\<not> finite_float x \<longrightarrow> overflow_bound f \<le> \<bar>v\<bar>)"
proof -
  have f: "format_ok f" using rust_format_ok assms(1) by (auto simp: rust_format_def)
  have "u \<noteq> []" using assms(2) by (auto simp: parse_number_def)
  moreover have u: "u \<noteq> [] \<Longrightarrow> hd u \<noteq> 45 \<and> hd u \<noteq> 43"
    using assms(2) by (cases u) (auto simp: parse_number_def Let_def is_digit_def split: if_splits)
  ultimately obtain h us where h: "u = h # us" "h \<noteq> 45" "h \<noteq> 43" by (cases u) auto
  let ?r = "round_decimal f c k"
  let ?x = "if hd t = 45 then float_neg ?r else ?r"
  note r = round_decimal_spec [OF f, of c k]
  have "parse_float f t = Inr ?x"
    using assms(2,3) h by (auto simp: parse_float_def Let_def)
  then have d: "decode_float f (value_ref_new t ty) = Inr ?x"
    by (simp add: decode_float_def value_ref_text_def value_ref_new_def)
  show ?thesis
  proof (cases ?r)
    case (Finite s m e)
    then have ok: "float_ok f (Finite False m e)" "\<not> s" using r by simp_all
    have near: "\<bar>float_value (Finite False m e) - real c * 10 powi k\<bar> \<le>
        \<bar>float_value y - real c * 10 powi k\<bar>" if "float_ok f y" "finite_float y" for y
      using r Finite that by (cases y) (simp_all del: float_value.simps float_ok.simps)
    have neg: "float_ok f (float_neg y)" "finite_float (float_neg y)"
      "float_value (float_neg y) = - float_value y" if "float_ok f y" "finite_float y" for y
      using that by (cases y; simp)+
    have "\<bar>float_value ?x - v\<bar> \<le> \<bar>float_value y - v\<bar>" if y: "float_ok f y" "finite_float y" for y
    proof (cases "hd t = 45")
      case True
      have x: "float_value ?x = - float_value (Finite False m e)" using True Finite ok(2) by simp
      have v: "v = - (real c * 10 powi k)" using True by (simp add: v_def)
      have "\<bar>float_value (Finite False m e) - real c * 10 powi k\<bar> \<le>
          \<bar>- float_value y - real c * 10 powi k\<bar>"
        using near [OF neg(1,2) [OF y]] neg(3) [OF y] by (simp only:)
      then show ?thesis unfolding x v by linarith
    next
      case False
      then show ?thesis using near [OF y] Finite ok(2) by (simp add: v_def del: float_value.simps)
    qed
    then show ?thesis using d ok Finite by (intro exI [of _ ?x]) (simp del: float_value.simps)
  next
    case (Infinite s)
    then show ?thesis using d r by (intro exI [of _ ?x]) (auto simp: v_def)
  qed (use r in simp)
qed

theorem float_decoding_nearest_witness:
  "\<exists>x. decode_float f32_format (value_ref_new (lit ''-0.1'') type_info_f32) = Inr x \<and>
    (finite_float x \<longrightarrow> (\<forall>y. float_ok f32_format y \<and> finite_float y \<longrightarrow>
       \<bar>float_value x - (- 1 * (real 1 * 10 powi (- 1)))\<bar> \<le>
       \<bar>float_value y - (- 1 * (real 1 * 10 powi (- 1)))\<bar>))"
proof -
  have p: "parse_number (lit ''0.1'') = Some (1, - 1)"
    by (simp add: parse_number_def is_digit_def Let_def digits_nat_def to_digit_def)
  have t: "lit ''-0.1'' = 45 # lit ''0.1''" and h: "hd (lit ''-0.1'') = 45" by simp_all
  from float_decoding_nearest [of f32_format, OF _ p, of "lit ''-0.1''" type_info_f32] t h
  show ?thesis by (simp only: simp_thms if_True) blast
qed

text \<open>C32: Only a finite float has a literal that SQL reads as a number: an
  optional minus, digits, and a point with digits behind it where there is a fraction, never an
  exponent. NaN and the infinities are encoded as the bare words \<open>NaN\<close>, \<open>inf\<close> and \<open>-inf\<close>,
  which are names of columns to a reader of the statement; encoding them is not an error.\<close>

theorem float_literal_numeric:
  "\<exists>text. encode_float f x buf = Inr (buf @ as_bytes text, IsNull_No) \<and>
    (sql_number text \<longleftrightarrow> finite_float x) \<and>
    (x = NaN \<longrightarrow> text = lit ''NaN'') \<and> (x = Infinite False \<longrightarrow> text = lit ''inf'') \<and>
    (x = Infinite True \<longrightarrow> text = lit ''-inf'')"
  by (intro exI [of _ "show_float f x"]) (auto simp: encode_float_def show_float_number)

theorem float_literal_numeric_witness:
  "\<exists>text. encode_float f64_format NaN [] = Inr ([] @ as_bytes text, IsNull_No) \<and>
    \<not> sql_number text \<and> text = lit ''NaN''"
  using float_literal_numeric [of f64_format NaN "[]"] by (metis finite_float.simps(2))

end
