(* ===== verification/Statements.thy ===== *)
theory Statements
  imports Float_Literals
begin

text \<open>
  The finished statement as the server reads it: a reader of whole statements
  (\<open>statement_tokens\<close>), and what binding a list of values does to what it reads.
\<close>

section \<open>Binding a list of values\<close>






section \<open>A reader of statements\<close>













section \<open>Literals in a statement\<close>










section \<open>Substitution in a statement\<close>






















section \<open>Properties\<close>



end
