(* ===== verification/Comments.thy ===== *)
theory Comments
  imports Arguments
begin

text \<open>
  Substitution and comments. A literal is put in place of its question mark with nothing around
  it, so it can join what stands before it: a minus in the statement and the minus of a bound
  negative number make the \<open>--\<close> that opens a comment in SQL.
\<close>

section \<open>What a server executes\<close>

text \<open>
  The text of a statement without its comments: string literals are kept whole, \<open>--\<close> outside
  them skips to the end of the line.
\<close>

fun code_text :: "rstr \<Rightarrow> rstr"
  and skip_comment :: "rstr \<Rightarrow> rstr"
  and string_text :: "rstr \<Rightarrow> rstr" where
  "code_text [] = []"
| "code_text (c # cs) =
     (if c = 39 then c # string_text cs
      else if c = 45 \<and> cs \<noteq> [] \<and> hd cs = 45 then skip_comment cs
      else c # code_text cs)"
| "skip_comment [] = []"
| "skip_comment (c # cs) = (if c = 10 then c # code_text cs else skip_comment cs)"
| "string_text [] = []"
| "string_text (c # cs) = (if c = 39 then c # code_text cs else c # string_text cs)"

lemma code_text_plain:
  "39 \<notin> set s \<Longrightarrow> 45 \<notin> set s \<Longrightarrow> code_text (s @ t) = s @ code_text t"
  by (induction s) auto

lemma skip_comment_line: "10 \<notin> set s \<Longrightarrow> skip_comment (s @ 10 # t) = 10 # code_text t"
  by (induction s) auto

lemma sql_string_no_quote: "39 \<notin> set s \<Longrightarrow> sql_string s = 39 # s @ [39]"
  by (induction s) (auto simp: sql_string_def double_quote_def)

lemma string_text_body: "39 \<notin> set s \<Longrightarrow> string_text (s @ 39 # t) = s @ 39 # code_text t"
  by (induction s) auto

section \<open>Properties\<close>

text \<open>C26: A bound string can become code. In a statement with a question
  mark right after a minus and a second one on the same line, a negative number bound to the
  first turns the rest of the line into a comment, the opening quote of the string bound to
  the second included; a line break in that string ends the comment, and what follows it is
  executed as SQL, though the driver encodes each value as one correct literal. With a blank
  between the minus and the question mark the same string stays a string.\<close>

theorem minus_placeholder_injects:
  fixes i :: "'a::len word"
  assumes "sint i < 0" and "scalars evil" and "39 \<notin> set evil"
    and "arguments_add encode_integer i arguments_new = Inr args1"
    and "arguments_add encode_string (10 # evil) args1 = Inr args"
  shows "(\<exists>out. substitute_into args (lit ''SELECT 7-?, ?'') = Inr out \<and>
      code_text out = lit ''SELECT 7'' @ 10 # code_text (evil @ [39])) \<and>
    (\<exists>out. substitute_into args (lit ''SELECT 7- ?, ?'') = Inr out \<and>
      code_text out = lit ''SELECT 7- '' @ show_sint i @ lit '', '' @ sql_string (10 # evil))"
proof -
  have "scalars (10 # evil)" using assms(2) by (simp add: scalar_def)
  then have lits: "literals args = [show_sint i, sql_string (10 # evil)]"
    using assms(4,5) by (auto simp: integer_codec.add_good string_codec.add_good arguments_new_def)
  define ds where "ds = show_nat (nat (- sint i))"
  have i: "show_sint i = 45 # ds" using assms(1) by (simp add: show_sint_def show_int_def ds_def)
  have digits: "39 \<notin> set ds" "45 \<notin> set ds" "10 \<notin> set ds"
    using show_nat_digit [of _ "nat (- sint i)"] by (force simp: ds_def is_digit_def)+
  have head: "ds \<noteq> [] \<and> hd ds \<noteq> 45"
    using show_nat_head [of "nat (- sint i)"] by (auto simp: ds_def is_digit_def)
  have s: "sql_string (10 # evil) = 39 # 10 # evil @ [39]"
    using sql_string_no_quote [of "10 # evil"] assms(3) by simp
  note code = code_text_plain [OF digits(1,2)] skip_comment_line [OF digits(3)]
    string_text_body [OF assms(3)]
  have "substitute_into args (lit ''SELECT 7-?, ?'') =
      Inr (lit ''SELECT 7-'' @ 45 # ds @ lit '', '' @ 39 # 10 # evil @ [39])"
    "substitute_into args (lit ''SELECT 7- ?, ?'') =
      Inr (lit ''SELECT 7- '' @ 45 # ds @ lit '', '' @ 39 # 10 # evil @ [39])"
    using lits i s by (simp_all add: substitute_into_def placeholders_def)
  moreover have "code_text (lit ''SELECT 7-'' @ 45 # ds @ lit '', '' @ 39 # 10 # evil @ [39]) =
      lit ''SELECT 7'' @ 10 # code_text (evil @ [39])"
    using skip_comment_line [of "ds @ lit '', '' @ [39]" "evil @ [39]"] digits by simp
  moreover have "code_text (lit ''SELECT 7- '' @ 45 # ds @ lit '', '' @ 39 # 10 # evil @ [39]) =
      lit ''SELECT 7- '' @ show_sint i @ lit '', '' @ sql_string (10 # evil)"
    using head by (simp add: i s code)
  ultimately show ?thesis by (intro conjI exI)
qed

theorem minus_placeholder_injects_witness:
  "\<exists>out. substitute_into
      \<lparr>literals = [show_sint (- 1 :: 32 word), sql_string (10 # lit ''; DROP TABLE t; --'')]\<rparr>
      (lit ''SELECT 7-?, ?'') = Inr out \<and>
    code_text out = lit ''SELECT 7'' @ 10 # code_text (lit ''; DROP TABLE t; --'' @ [39])"
proof -
  have sc: "scalars (lit ''; DROP TABLE t; --'')" "scalars (10 # lit ''; DROP TABLE t; --'')"
    by (simp_all add: scalar_def)
  have q: "39 \<notin> set (lit ''; DROP TABLE t; --'')" by simp
  have neg: "sint (- 1 :: 32 word) < 0" by simp
  have "arguments_add encode_integer (- 1 :: 32 word) arguments_new =
      Inr \<lparr>literals = [show_sint (- 1 :: 32 word)]\<rparr>"
    by (subst integer_codec.add_good) (simp_all add: arguments_new_def)
  moreover have "arguments_add encode_string (10 # lit ''; DROP TABLE t; --'')
      \<lparr>literals = [show_sint (- 1 :: 32 word)]\<rparr> =
      Inr \<lparr>literals = [show_sint (- 1 :: 32 word), sql_string (10 # lit ''; DROP TABLE t; --'')]\<rparr>"
    by (subst string_codec.add_good [OF sc(2)]) simp
  ultimately show ?thesis using minus_placeholder_injects [OF neg sc(1) q] by blast
qed

end
