(* ===== verification/Totality.thy ===== *)
theory Totality
  imports Connection_Laws
begin

text \<open>
  The operations return. Reading a message is a loop that the server ends, and the driver has
  no timeout; over a healthy socket, whatever finite sequence of bytes the peer sends before it
  closes the stream, every operation of the driver returns a value or an error, never a panic,
  and the handshake returns whatever the servers it is sent to answer.
\<close>

section \<open>Returning without a panic\<close>

definition returns :: "((sqlx_error fault + 'a) \<times> 'w) option \<Rightarrow> bool" where
  "returns r \<longleftrightarrow> (\<exists>v w. r = Some (v, w) \<and> (\<forall>p. v \<noteq> Inl (Panicked p)))"

lemma returns_bind:
  assumes "returns (m w)" and "\<And>a w'. m w = Some (Inr a, w') \<Longrightarrow> returns (f a w')"
  shows "returns (io_bind m f w)"
proof -
  obtain v w' where m: "m w = Some (v, w')" "\<forall>p. v \<noteq> Inl (Panicked p)"
    using assms(1) unfolding returns_def by blast
  show ?thesis
  proof (cases v)
    case (Inl e)
    with m have "io_bind m f w = Some (Inl e, w')" "\<forall>p. Inl e \<noteq> Inl (Panicked p)"
      by (simp_all add: io_bind_def)
    then show ?thesis unfolding returns_def by blast
  next
    case (Inr a)
    with assms(2) m show ?thesis by (simp add: io_bind_def)
  qed
qed

lemma returns_return [simp]: "returns (io_return a w)"
  by (simp add: returns_def io_return_def)

lemma returns_fail [simp]: "returns (io_fail (Failed e) w)"
  by (simp add: returns_def io_fail_def)

lemma returns_lift [simp]: "returns (io_lift conv r w)"
  by (cases r) (simp_all add: returns_def io_lift_def)

lemma returns_lift_fault:
  "(\<And>p. r \<noteq> Inl (Panicked p)) \<Longrightarrow> returns (io_lift_fault conv r w)"
proof (cases r)
  case (Inl f)
  then show "(\<And>p. r \<noteq> Inl (Panicked p)) \<Longrightarrow> ?thesis"
    by (cases f) (simp_all add: returns_def io_lift_fault_def)
qed (simp add: returns_def io_lift_fault_def)

lemma returns_match: "returns (m w) \<Longrightarrow> \<exists>r w'. io_match m w = Some (Inr r, w')"
  unfolding returns_def io_match_def
  by (auto elim!: caught.elims) (metis caught.simps(1) caught.simps(3) fault.exhaust sum.exhaust)

lemma returns_read_text:
  assumes "healthy t s incoming outgoing"
  shows "returns (read_text_message t s w)"
  unfolding read_text_message_def
proof (rule returns_bind)
  show "returns (read_message t s w)"
    using read_loop_decode [OF assms, where w = w and message = "[]"]
    unfolding read_message_def returns_def by (auto split: option.splits)
qed simp

lemma returns_write:
  assumes "healthy t s incoming outgoing"
  shows "returns (write_message t s payload w)"
proof -
  obtain w' where "write_message t s payload w = Some (Inr (), w')"
    by (rule write_message_healthy [OF assms])
  then show ?thesis by (simp add: returns_def)
qed

lemma returns_prime:
  assumes "healthy t s incoming outgoing"
  shows "returns (send_prime_bytes t s w)"
proof -
  obtain w' where "send_prime_bytes t s w = Some (Inr (), w')"
    by (rule send_prime_healthy [OF assms])
  then show ?thesis by (simp add: returns_def)
qed

section \<open>Queries\<close>

lemma returns_execute:
  assumes "healthy t s incoming outgoing"
  shows "returns (execute_query t s sql w)"
  unfolding execute_query_def
  by (intro returns_bind returns_write [OF assms] returns_read_text [OF assms]) simp

lemma run_query_returns:
  assumes "healthy t s incoming outgoing"
  obtains items w' where "run_query t (connection_new s) sql arguments w = Some (Inr items, w')"
proof -
  have sent: "\<exists>items w'. io_bind (io_match (execute_query t s out)) (\<lambda>response.
      case response of Inl err \<Rightarrow> io_return [Inl err] | Inr response \<Rightarrow> io_return (f response)) w =
      Some (Inr items, w')" for out and f :: "query_response \<Rightarrow> query_item list"
  proof -
    obtain r w' where "io_match (execute_query t s out) w = Some (Inr r, w')"
      using returns_match [where m = "execute_query t s out", OF returns_execute [OF assms]] by blast
    then show ?thesis by (cases r) (simp_all add: io_bind_def io_return_def)
  qed
  have "\<exists>items w'. run_query t (connection_new s) sql arguments w = Some (Inr items, w')"
    unfolding run_query_def connection_new_def monet_connection.select_convs
    by (simp split: sum.split add: sent) (simp add: io_return_def)
  then show ?thesis using that by blast
qed

text \<open>C17: A query always comes back: over a healthy socket, for every statement and
  arguments and whatever bytes the server sends before it closes the stream (an answer cut
  short, a malformed or endless-looking one, text that is not UTF-8, nothing at all),
  \<open>run_query\<close> yields its items, exactly one of which is last and not a row, and
  \<open>fetch_optional\<close> and \<open>ping\<close> return; none of them panics, and none waits for ever.\<close>

theorem queries_return:
  assumes "healthy t s incoming outgoing"
  shows "(\<exists>items w'. run_query t (connection_new s) sql arguments w = Some (Inr items, w') \<and>
      items \<noteq> [] \<and> (\<forall>row. last items \<noteq> Inr (Inr row)) \<and>
      list_all (\<lambda>item. \<exists>row. item = Inr (Inr row)) (butlast items) \<and>
      (\<exists>r. fetch_optional t (connection_new s) sql arguments w = Some (r, w') \<and>
        (\<forall>p. r \<noteq> Inl (Panicked p)))) \<and>
    (\<exists>r w'. connection_ping t (connection_new s) w = Some (r, w') \<and> (\<forall>p. r \<noteq> Inl (Panicked p)))"
proof
  obtain items w' where i: "run_query t (connection_new s) sql arguments w = Some (Inr items, w')"
    by (rule run_query_returns [OF assms])
  have "fetch_optional t (connection_new s) sql arguments w =
      Some (map_err Failed (first_row items), w')"
    using i by (simp add: fetch_optional_def fetch_many_def io_bind_def io_lift_def)
  moreover have "map_err Failed (first_row items) \<noteq> Inl (Panicked p)" for p
    by (cases "first_row items") auto
  moreover have "items \<noteq> [] \<and> (\<forall>row. last items \<noteq> Inr (Inr row)) \<and>
      list_all (\<lambda>item. \<exists>row. item = Inr (Inr row)) (butlast items)"
    using query_items [OF i] by (auto simp: list_all_iff butlast_append)
  ultimately show "\<exists>items w'. run_query t (connection_new s) sql arguments w = Some (Inr items, w') \<and>
      items \<noteq> [] \<and> (\<forall>row. last items \<noteq> Inr (Inr row)) \<and>
      list_all (\<lambda>item. \<exists>row. item = Inr (Inr row)) (butlast items) \<and>
      (\<exists>r. fetch_optional t (connection_new s) sql arguments w = Some (r, w') \<and>
        (\<forall>p. r \<noteq> Inl (Panicked p)))"
    using i by blast
next
  have "returns (connection_ping t (connection_new s) w)"
    unfolding connection_ping_def connection_new_def
    by (intro returns_bind) (simp_all add: returns_execute [OF assms])
  then show "\<exists>r w'. connection_ping t (connection_new s) w = Some (r, w') \<and>
      (\<forall>p. r \<noteq> Inl (Panicked p))"
    unfolding returns_def .
qed

theorem queries_return_witness:
  "\<exists>items w'. run_query script_transport (connection_new 0) (lit ''SELECT 1'') (Inr None)
      (one_server (lit ''db'') 50000 [1, 2, 3]) = Some (Inr items, w') \<and> items \<noteq> []"
  using queries_return [OF script_healthy, of 0 "lit ''SELECT 1''" "Inr None"
      "one_server (lit ''db'') 50000 [1, 2, 3]"] by blast

section \<open>The handshake\<close>

lemma returns_finish:
  assumes "healthy t s incoming outgoing"
  shows "returns (finish_login t s w)"
  unfolding finish_login_def
  by (intro returns_bind returns_write [OF assms] returns_read_text [OF assms]) simp

lemma hash_no_panic: "compute_password_hash d c password \<noteq> Inl (Panicked p)"
proof
  assume "compute_password_hash d c password = Inl (Panicked p)"
  then obtain algo pre where "select_hash_algorithm (hashes c) = Some algo"
    "hash_hex d algo (as_bytes (pre @ salt c)) = None"
    by (auto simp: compute_password_hash_def Let_def as_bytes_append res_simps)
  then show False using select_hash_supported hash_hex_supported by blast
qed

definition reliable :: "('w, 's) transport \<Rightarrow> bool" where
  "reliable t \<longleftrightarrow>
     (\<forall>host port w. \<exists>r w'. t_connect t host port w = Some (r, w')) \<and>
     (\<forall>s. \<exists>incoming outgoing. healthy t s incoming outgoing)"

lemma returns_open:
  assumes "reliable t"
  shows "returns (open_stream t host port reused w)"
proof (cases reused)
  case None
  show ?thesis
    unfolding open_stream_def None option.case
  proof (intro returns_bind)
    obtain r w' where "t_connect t host port w = Some (r, w')"
      using assms unfolding reliable_def by blast
    then show "returns (connect t host port w)"
      by (cases r) (simp_all add: connect_def returns_def)
    show "returns (send_prime_bytes t s w')" for s w'
      using assms unfolding reliable_def by (metis returns_prime)
  qed simp
qed (simp add: open_stream_def)

lemma returns_attempt:
  assumes "reliable t"
  shows "returns (handshake_attempt t d username password database host port reused w)"
proof -
  have ops: "returns (read_text_message t s w)" "returns (write_message t s payload w)"
    "returns (finish_login t s w)" for s w payload
    using assms returns_read_text returns_write returns_finish unfolding reliable_def by metis+
  show ?thesis
    unfolding handshake_attempt_def
    by (auto intro!: returns_bind returns_open [OF assms] ops returns_lift_fault
        simp: hash_no_panic Let_def split: prod.splits login_response.splits)
qed

text \<open>C15: Connecting always comes back: if every connection attempt of the socket
  layer returns and every stream is a healthy one, then whatever any of the servers sends, the
  whole handshake with all its redirects returns an authenticated stream or an error; it never
  panics and never goes round for ever.\<close>

theorem handshake_returns:
  assumes "reliable t"
  shows "\<exists>r w'. perform_handshake t d host port username password database w = Some (r, w') \<and>
    (\<forall>p. r \<noteq> Inl (Panicked p))"
proof -
  have "returns (handshake_loop n t d username password database host port reused w)"
    for n host port reused w
  proof (induction n arbitrary: host port reused w)
    case (Suc n)
    show ?case
      unfolding handshake_loop.simps
      by (rule returns_bind [OF returns_attempt [OF assms]])
        (auto simp: Suc split: handshake_step.splits)
  qed simp
  then show ?thesis unfolding perform_handshake_def returns_def .
qed

lemma script_reliable: "reliable script_transport"
  unfolding reliable_def using script_healthy
  by (auto simp: script_transport_def script_connect_def split: option.split)

theorem handshake_returns_witness:
  "\<exists>r w'. perform_handshake script_transport sample_digests (lit ''db'') 50000 (lit ''monetdb'')
      (lit ''secret'') (lit ''demo'') (one_server (lit ''db'') 50000 [9, 9]) = Some (r, w') \<and>
    (\<forall>p. r \<noteq> Inl (Panicked p))"
  by (rule handshake_returns [OF script_reliable])

end
