(* ===== verification/Redirects.thy ===== *)
theory Redirects
  imports Login
begin

text \<open>
  Redirects that lead somewhere: a proxy names another server, that one perhaps a third, and the
  last one accepts the login. \<open>Login\<close> bounds the number of redirects that are followed; here a
  chain within the bound ends in a connection to its last server.
\<close>

section \<open>A network of servers\<close>

text \<open>
  \<open>script (host, port)\<close> are the bytes the server there sends on a connection; connecting to it
  gives a healthy stream that nothing has been sent on.
\<close>

definition serves ::
    "('w, 's) transport \<Rightarrow> ('s \<Rightarrow> 'w \<Rightarrow> u8 list) \<Rightarrow> ('s \<Rightarrow> 'w \<Rightarrow> u8 list) \<Rightarrow>
     (rstr \<times> u16 \<Rightarrow> u8 list option) \<Rightarrow> bool" where
  "serves t incoming outgoing script \<longleftrightarrow>
     (\<forall>host port bytes w. script (host, port) = Some bytes \<longrightarrow>
       (\<exists>s w'. t_connect t host port w = Some (Inr s, w') \<and>
          healthy t s (incoming s) (outgoing s) \<and>
          incoming s w' = bytes \<and> outgoing s w' = []))"

definition redirect_target :: "rstr \<times> u16 \<Rightarrow> rstr \<Rightarrow> rstr" where
  "redirect_target b path = lit ''mapi:monetdb://'' @ fst b @ 58 # show_uint (snd b) @ path"

text \<open>The server at \<open>a\<close> sends a challenge and then names \<open>b\<close>.\<close>

definition directs ::
    "digests \<Rightarrow> credentials \<Rightarrow> (rstr \<times> u16 \<Rightarrow> u8 list option) \<Rightarrow> rstr \<times> u16 \<Rightarrow> rstr \<times> u16 \<Rightarrow> bool" where
  "directs d c script a b \<longleftrightarrow>
     (\<exists>line chal hash path rest.
        script a = Some (text_message line @ text_message (94 # redirect_target b path) @ rest) \<and>
        scalars line \<and> scalars (redirect_target b path) \<and>
        parse_challenge line = Inr chal \<and>
        compute_password_hash d chal (cr_password c) = Inr hash \<and>
        \<not> contains (lit ''merovingian'') (redirect_target b path) \<and>
        47 \<notin> set (fst b) \<and> (path = [] \<or> hd path = 47))"

lemma show_uint_digit: "x \<in> set (show_uint n) \<Longrightarrow> is_digit x"
  unfolding show_uint_def by (rule show_nat_digit)

lemma parse_redirect_target:
  assumes "\<not> contains (lit ''merovingian'') (redirect_target b path)"
    and "47 \<notin> set (fst b)" and "path = [] \<or> hd path = 47"
  shows "parse_redirect (redirect_target b path) = Inr (Reconnect (fst b) (snd b))"
proof -
  have digits: "58 \<notin> set (show_uint (snd b))" "47 \<notin> set (show_uint (snd b))"
    using show_uint_digit by (force simp: is_digit_def)+
  have "takeWhile (\<lambda>c. c \<noteq> 47) ((fst b @ 58 # show_uint (snd b)) @ path) = fst b @ 58 # show_uint (snd b)"
    using digits(2) assms(2,3) by (intro takeWhile_path) auto
  then show ?thesis
    using assms(1) digits(1) unfolding parse_redirect_def Let_def hd_split_on redirect_target_def
    by (simp only: if_False strip_prefix_append ok_or.simps res_bind.simps append.assoc append_Cons)
      (simp add: rsplit_once_append)
qed

lemma attempt_directed:
  assumes "serves t incoming outgoing script" and "directs d c script a b"
  shows "\<exists>w'. attempt t d c (fst a, snd a, None, w) = Some (Inr (Continue (fst b) (snd b) None), w')"
proof -
  from assms(2) obtain line chal hash path rest where
    script: "script (fst a, snd a) = Some (text_message line @ text_message (94 # redirect_target b path) @ rest)"
    and sc: "scalars line" "scalars (redirect_target b path)" and chal: "parse_challenge line = Inr chal"
    and hash: "compute_password_hash d chal (cr_password c) = Inr hash"
    and target: "\<not> contains (lit ''merovingian'') (redirect_target b path)"
      "47 \<notin> set (fst b)" "path = [] \<or> hd path = 47"
    unfolding directs_def by (auto simp del: lit.simps)
  obtain s w1 where w1: "t_connect t (fst a) (snd a) w = Some (Inr s, w1)"
    "healthy t s (incoming s) (outgoing s)"
    "incoming s w1 = text_message line @ text_message (94 # redirect_target b path) @ rest"
    using assms(1) script unfolding serves_def by blast
  obtain w2 where w2: "incoming s w2 = incoming s w1"
    "attempt t d c (fst a, snd a, None, w) = attempt t d c (fst a, snd a, Some s, w2)"
    using attempt_connect [OF w1(1,2)] by blast
  have answer: "parse_login_response (94 # redirect_target b path) =
      LoginRedirect (redirect_target b path)" for path
    by (simp add: parse_login_response_def starts_with_def)
  have "scalars (94 # redirect_target b path)" using sc(2) by (simp add: scalar_def)
  from attempt_exchange [OF w1(2) w2(1) [unfolded w1(3)] sc(1) this chal hash, of "fst a" "snd a"]
  show ?thesis
    unfolding w2(2) answer login_response.case parse_redirect_target [OF target] sum.case redirect.case
    by blast
qed

lemma redirected_chain:
  assumes "serves t incoming outgoing script" and "successively (directs d c script) (a # hops)"
  shows "\<exists>w'. redirected t d c (length hops) (fst a, snd a, None, w)
    (fst (last (a # hops)), snd (last (a # hops)), None, w')"
  using assms(2)
proof (induction hops arbitrary: a w)
  case Nil
  then show ?case by (auto simp: redirected_0_iff)
next
  case (Cons b hops)
  then have "directs d c script a b" "successively (directs d c script) (b # hops)" by simp_all
  from attempt_directed [OF assms(1) this(1)] obtain w1 where
    "attempt t d c (fst a, snd a, None, w) = Some (Inr (Continue (fst b) (snd b) None), w1)" by blast
  moreover from Cons.IH [OF \<open>successively (directs d c script) (b # hops)\<close>] obtain w2 where
    "redirected t d c (length hops) (fst b, snd b, None, w1)
      (fst (last (b # hops)), snd (last (b # hops)), None, w2)" by blast
  ultimately have "redirected t d c (Suc (length hops)) (fst a, snd a, None, w)
      (fst (last (b # hops)), snd (last (b # hops)), None, w2)"
    by (rule redirected_Suc)
  then show ?case unfolding last_ConsR [OF list.distinct(2)] list.size by auto
qed

text \<open>C20: A chain of redirects ends in a login: when each server of a list of at
  most ten sends a challenge the driver can answer and then names the next one with a
  \<open>mapi:monetdb://host:port\<close> target, and the last one sends a readable challenge and accepts the
  login, a handshake that starts at the first returns the stream to the last. That server has
  been sent eight zero bytes, the login line for its own challenge and \<open>Xreply_size -1\<close>, and
  nothing else. The host of a target holds no slash, what follows the port is nothing or starts
  with a slash, and the word \<open>merovingian\<close> stands nowhere in the target: for one that holds it
  the driver tries again on the connection it has.\<close>

theorem redirects_followed:
  assumes "serves t incoming outgoing script" and "hops \<noteq> []" and "length hops \<le> 10"
    and "successively (directs d c script) hops"
    and "script (last hops) = Some (text_message line @ text_message answer @ text_message reply @ rest)"
    and "scalars line" and "scalars answer" and "scalars reply"
    and "parse_challenge line = Inr chal"
    and "compute_password_hash d chal (cr_password c) = Inr hash"
    and "parse_login_response answer = LoginOk"
  shows "\<exists>s w'. perform_handshake t d (fst (hd hops)) (snd (hd hops)) (cr_username c)
      (cr_password c) (cr_database c) w = Some (Inr s, w') \<and>
    incoming s w' = rest \<and>
    outgoing s w' = replicate 8 0 @ text_message (login_line d c chal hash) @
      text_message (lit ''Xreply_size -1'')"
proof -
  obtain a hops' where hops: "hops = a # hops'" using assms(2) by (cases hops) auto
  obtain w0 where w0: "redirected t d c (length hops') (fst a, snd a, None, w)
      (fst (last hops), snd (last hops), None, w0)"
    using redirected_chain [OF assms(1) assms(4) [unfolded hops]] unfolding hops by blast
  obtain s w1 where w1: "t_connect t (fst (last hops)) (snd (last hops)) w0 = Some (Inr s, w1)"
    "healthy t s (incoming s) (outgoing s)"
    "incoming s w1 = text_message line @ text_message answer @ text_message reply @ rest"
    "outgoing s w1 = []"
    using assms(1,5) unfolding serves_def by (metis prod.collapse)
  obtain w' where w': "attempt t d c (fst (last hops), snd (last hops), None, w0) =
      Some (Inr (Authenticated s), w')"
    "incoming s w' = rest"
    "outgoing s w' = outgoing s w1 @ replicate 8 0 @ text_message (login_line d c chal hash) @
      text_message (lit ''Xreply_size -1'')"
    using attempt_succeeds [OF w1(1-3) assms(6-11)] by blast
  have "loop 10 t d c (fst a, snd a, None, w) = Some (Inr s, w')"
    unfolding loop_Inr using w0 w'(1) assms(3) hops by (intro exI [of _ "length hops'"]) auto
  then have "perform_handshake t d (fst (hd hops)) (snd (hd hops)) (cr_username c) (cr_password c)
      (cr_database c) w = Some (Inr s, w')"
    unfolding perform_handshake_loop hops list.sel .
  with w'(2,3) w1(4) show ?thesis by (metis append_Nil)
qed

section \<open>A proxy and a server\<close>

definition network :: "(rstr \<times> u16 \<Rightarrow> u8 list option) \<Rightarrow> (script_world, nat) transport" where
  "network script =
     script_transport\<lparr>t_connect := \<lambda>host port w. script_connect host port (w\<lparr>servers := script\<rparr>)\<rparr>"

lemma network_serves: "serves (network script) script_in script_out script"
proof -
  have "healthy (network script) s (script_in s) (script_out s)" for s
    using script_healthy [of s] unfolding healthy_def network_def by simp
  then show ?thesis
    by (auto simp: serves_def network_def script_connect_def set_conn_def script_in_def script_out_def)
qed

definition proxy_script :: "rstr \<times> u16 \<Rightarrow> u8 list option" where
  "proxy_script =
     [(lit ''proxy'', 50000) \<mapsto> text_message sample_line @
        text_message (94 # redirect_target (lit ''db'', 50001) (lit ''/demo'')) @ [],
      (lit ''db'', 50001) \<mapsto> text_message sample_line @ text_message [] @ text_message [] @ [7]]"

lemma proxy_directs:
  "directs sample_digests sample_credentials proxy_script (lit ''proxy'', 50000) (lit ''db'', 50001)"
proof -
  obtain hash where hash: "compute_password_hash sample_digests sample_challenge
       (cr_password sample_credentials) = Inr hash"
    using sample_hash by blast
  have target: "redirect_target (lit ''db'', 50001) (lit ''/demo'') = lit ''mapi:monetdb://db:50001/demo''"
    by (simp add: redirect_target_def show_uint_def show_nat_step)
  have "proxy_script (lit ''proxy'', 50000) = Some (text_message sample_line @
        text_message (94 # redirect_target (lit ''db'', 50001) (lit ''/demo'')) @ [])"
    by (simp add: proxy_script_def)
  moreover have "scalars sample_line" unfolding sample_line_def by (rule scalars_lit)
  moreover have "scalars (redirect_target (lit ''db'', 50001) (lit ''/demo''))"
    unfolding target by (rule scalars_lit)
  moreover have "\<not> contains (lit ''merovingian'') (redirect_target (lit ''db'', 50001) (lit ''/demo''))"
    unfolding target by (simp add: starts_with_def)
  moreover have "47 \<notin> set (fst (lit ''db'', 50001 :: u16))" "hd (lit ''/demo'') = 47" by simp_all
  ultimately show ?thesis unfolding directs_def using sample_parse hash by blast
qed

theorem redirects_followed_witness:
  "\<exists>hash s w'. perform_handshake (network proxy_script) sample_digests (lit ''proxy'') 50000
      (cr_username sample_credentials) (cr_password sample_credentials)
      (cr_database sample_credentials) (one_server [] 0 []) = Some (Inr s, w') \<and>
    script_in s w' = [7] \<and>
    script_out s w' = replicate 8 0 @
      text_message (login_line sample_digests sample_credentials sample_challenge hash) @
      text_message (lit ''Xreply_size -1'')"
proof -
  let ?hops = "[(lit ''proxy'', 50000), (lit ''db'', 50001 :: u16)]"
  obtain hash where hash: "compute_password_hash sample_digests sample_challenge
       (cr_password sample_credentials) = Inr hash"
    using sample_hash by blast
  have chain: "successively (directs sample_digests sample_credentials proxy_script) ?hops"
    using proxy_directs by (simp only: successively.simps simp_thms)
  have last: "proxy_script (last ?hops) =
      Some (text_message sample_line @ text_message [] @ text_message [] @ [7])"
    by (simp add: proxy_script_def)
  have line: "scalars sample_line" unfolding sample_line_def by (rule scalars_lit)
  have empty: "scalars []" "parse_login_response [] = LoginOk"
    by (simp_all add: parse_login_response_def)
  have hops: "?hops \<noteq> []" "length ?hops \<le> 10" by simp_all
  from redirects_followed [OF network_serves hops chain last line empty(1,1) sample_parse hash empty(2)]
  show ?thesis by (simp only: list.sel fst_conv snd_conv) blast
qed

end
