(* ===== verification/Sessions.thy ===== *)
theory Sessions
  imports Connection_Laws
begin

text \<open>
  Several queries on one connection: which response goes to which query, when the replies are
  anything at all, and what happens when the future of a query is dropped between its two
  halves.
\<close>

section \<open>A session\<close>

text \<open>Several queries one after the other on the same stream, with their results.\<close>

fun session ::
    "('w, 's) transport \<Rightarrow> 's \<Rightarrow> rstr list \<Rightarrow> 'w \<Rightarrow>
     ((sqlx_error fault + query_response) list \<times> 'w) option" where
  "session t s [] w = Some ([], w)"
| "session t s (sql # sqls) w =
     Option.bind (execute_query t s sql w) (\<lambda>(r, w).
       map_option (\<lambda>(rs, w). (r # rs, w)) (session t s sqls w))"

text \<open>What one reply means: its text parsed, or the error of bytes that are not UTF-8.\<close>

definition reply_result :: "u8 list \<Rightarrow> sqlx_error fault + query_response" where
  "reply_result bytes =
     (case from_utf8 bytes of
        None \<Rightarrow> Inl (Failed (SqlxProtocol [Lit ''expected UTF-8 text message: '', DispUtf8 bytes]))
      | Some text \<Rightarrow> map_err (\<lambda>e. Failed (sqlx_from_response e)) (parse_response text))"

lemma execute_reply:
  assumes h: "healthy t s incoming outgoing" and "incoming w = encode_message reply [] @ rest"
  obtains w' where "execute_query t s sql w = Some (reply_result reply, w')"
    "incoming w' = rest" "outgoing w' = outgoing w @ encode_message (encode_query sql) []"
proof -
  obtain w1 where w1: "write_message t s (encode_query sql) w = Some (Inr (), w1)"
    "incoming w1 = incoming w" "outgoing w1 = outgoing w @ encode_message (encode_query sql) []"
    by (rule write_message_healthy [OF h])
  let ?k = "length (encode_message reply [])"
  have "decode_message (incoming w1) = Some (reply, ?k)"
    unfolding w1(2) assms(2) by (rule decode_encode_message)
  then obtain w2 where w2: "read_loop t s [] w1 = Some (Inr reply, w2)"
    "incoming w2 = drop ?k (incoming w1)" "outgoing w2 = outgoing w1"
    using read_loop_decode [OF h, where w = w1 and message = "[]"] by auto
  from w1(1) w2(1) have "execute_query t s sql w = Some (reply_result reply, w2)"
    by (cases "from_utf8 reply")
      (simp_all add: execute_query_def read_text_message_def read_message_def reply_result_def
        io_bind_def io_lift_def)
  moreover have "incoming w2 = rest" using w1(2) w2(2) assms(2) by simp
  ultimately show ?thesis using w1(3) w2(3) by (intro that [of w2]) simp_all
qed

lemma replies_in_order:
  assumes "healthy t s incoming outgoing" and "length replies = length sqls"
    and "incoming w = concat (map (\<lambda>reply. encode_message reply []) replies) @ rest"
  shows "\<exists>w'. session t s sqls w = Some (map reply_result replies, w') \<and>
    incoming w' = rest \<and>
    outgoing w' = outgoing w @ concat (map (\<lambda>sql. encode_message (encode_query sql) []) sqls)"
  using assms(2,3)
proof (induction replies sqls arbitrary: w rule: list_induct2)
  case (Cons reply replies sql sqls)
  have "incoming w = encode_message reply [] @
      concat (map (\<lambda>reply. encode_message reply []) replies) @ rest"
    using Cons.prems by simp
  from execute_reply [OF assms(1) this] obtain w1 where w1:
    "execute_query t s sql w = Some (reply_result reply, w1)"
    "incoming w1 = concat (map (\<lambda>reply. encode_message reply []) replies) @ rest"
    "outgoing w1 = outgoing w @ encode_message (encode_query sql) []" by blast
  from Cons.IH [OF w1(2)] obtain w2 where "session t s sqls w1 = Some (map reply_result replies, w2)"
    "incoming w2 = rest"
    "outgoing w2 = outgoing w1 @ concat (map (\<lambda>sql. encode_message (encode_query sql) []) sqls)"
    by blast
  with w1 show ?case by (intro exI [of _ w2]) simp
qed simp

text \<open>On a healthy connection every query gets its own response: when the
  server answers each of them with one message, whatever the bytes of the messages are, the
  results of the queries are what the replies mean, in the order of the queries. A reply that
  is a server error, that is malformed, or that is not UTF-8 is the error of its own query and
  leaves the connection in step for the next one; the server has been sent exactly the queries,
  one message each, and what it sends beyond stays unread.\<close>

theorem session_in_order:
  assumes "healthy t s incoming outgoing" and "length replies = length sqls"
    and "incoming w = concat (map (\<lambda>reply. encode_message reply []) replies) @ rest"
  shows "\<exists>w'. session t s sqls w = Some (map reply_result replies, w') \<and>
    incoming w' = rest \<and>
    outgoing w' = outgoing w @ concat (map (\<lambda>sql. encode_message (encode_query sql) []) sqls)"
  by (rule replies_in_order [OF assms])

theorem session_in_order_witness:
  "\<exists>w w'. session script_transport 0 [lit ''DELETE FROM t'', lit ''x'', lit ''y'']
      w = Some (map reply_result [as_bytes (lit ''&2 3 -1''), [255], as_bytes (lit ''!syntax error'')], w') \<and>
    script_in 0 w' = [7] \<and>
    script_out 0 w' = script_out 0 w @ concat (map (\<lambda>sql. encode_message (encode_query sql) [])
      [lit ''DELETE FROM t'', lit ''x'', lit ''y''])"
proof -
  let ?replies = "[as_bytes (lit ''&2 3 -1''), [255], as_bytes (lit ''!syntax error'')]"
  obtain w where w: "script_in 0 w = concat (map (\<lambda>reply. encode_message reply []) ?replies) @ [7]"
    using script_connect_one by blast
  have "length ?replies = length [lit ''DELETE FROM t'', lit ''x'', lit ''y'']" by simp
  from session_in_order [OF script_healthy this w] show ?thesis by blast
qed

section \<open>A query that is cancelled\<close>

text \<open>
  The futures of the driver hold no state of their own that survives a drop: one that is dropped
  at its second \<open>await\<close>, where it waits for the response, has sent the request and read nothing.
  This is the part of \<open>execute_query\<close> before that point.
\<close>

definition execute_query_dropped :: "('w, 's) transport \<Rightarrow> 's \<Rightarrow> rstr \<Rightarrow> ('w, unit) io" where
  "execute_query_dropped t stream sql = write_message t stream (encode_query sql)"

text \<open>C23: Dropping a query that waits for its response puts the
  connection out of step for good: the next query returns the response of the dropped one, the
  one after it the response of the query before, and so on, each with the result its own
  response would have, and the response of the last query stays unread. Nothing in the driver
  notices.\<close>

theorem cancelled_query_out_of_step:
  assumes "healthy t s incoming outgoing" and "length replies = length sqls"
    and "incoming w = concat (map (\<lambda>reply. encode_message reply []) (replies @ [reply])) @ rest"
  shows "\<exists>w1 w'. execute_query_dropped t s sql w = Some (Inr (), w1) \<and>
    session t s sqls w1 = Some (map reply_result replies, w') \<and>
    incoming w' = encode_message reply [] @ rest \<and>
    outgoing w' = outgoing w @
      concat (map (\<lambda>sql. encode_message (encode_query sql) []) (sql # sqls))"
proof -
  obtain w1 where w1: "execute_query_dropped t s sql w = Some (Inr (), w1)"
    "incoming w1 = incoming w" "outgoing w1 = outgoing w @ encode_message (encode_query sql) []"
    unfolding execute_query_dropped_def by (rule write_message_healthy [OF assms(1)])
  have "incoming w1 = concat (map (\<lambda>reply. encode_message reply []) replies) @
      encode_message reply [] @ rest"
    using w1(2) assms(3) by simp
  from replies_in_order [OF assms(1,2) this] w1 show ?thesis by auto
qed

theorem cancelled_query_out_of_step_witness:
  "\<exists>w w1 w'. execute_query_dropped script_transport 0 (lit ''SELECT secret FROM t'') w =
      Some (Inr (), w1) \<and>
    session script_transport 0 [lit ''DELETE FROM t''] w1 =
      Some (map reply_result [as_bytes (lit ''&2 7 -1'')], w')"
proof -
  let ?replies = "[as_bytes (lit ''&2 7 -1'')]"
  obtain w where w: "script_in 0 w =
      concat (map (\<lambda>reply. encode_message reply []) (?replies @ [as_bytes (lit ''&3'')])) @ []"
    using script_connect_one by blast
  have "length ?replies = length [lit ''DELETE FROM t'']" by simp
  from cancelled_query_out_of_step [OF script_healthy this w] show ?thesis by blast
qed

end
