(* ===== verification/Well_Typed.thy ===== *)
theory Well_Typed
  imports Totality
begin

text \<open>
  The types of what a query yields. A Rust \<open>str\<close> is valid UTF-8 and a column's ordinal is its
  position by construction; in the model both are invariants, kept by every step from the bytes
  on the socket to the row: each text is a sequence of scalar values, each row numbers its
  columns by position, and no column has the type of a bare NULL.
\<close>

section \<open>Texts cut from a text\<close>

named_theorems cut_text "a piece of a valid text is valid"

lemma scalars_set: "scalars s \<longleftrightarrow> (\<forall>c \<in> set s. scalar c)"
  by (simp add: list_all_iff)

lemma scalars_subset: "set t \<subseteq> set s \<Longrightarrow> scalars s \<Longrightarrow> scalars t"
  unfolding scalars_set by blast

lemma scalars_strip_prefix [cut_text]: "strip_prefix p s = Some t \<Longrightarrow> scalars s \<Longrightarrow> scalars t"
  by (simp add: strip_prefix_Some)

lemma scalars_strip_suffix [cut_text]: "strip_suffix p s = Some t \<Longrightarrow> scalars s \<Longrightarrow> scalars t"
  by (simp add: strip_suffix_Some)

lemma set_trim: "set (trim s) \<subseteq> set s"
  unfolding trim_def trim_end_matches_def trim_start_def
proof
  fix c assume "c \<in> set (rev (dropWhile is_whitespace (rev (dropWhile is_whitespace s))))"
  then have "c \<in> set (rev (dropWhile is_whitespace s))" unfolding set_rev [of "dropWhile is_whitespace (rev _)"]
    by (rule set_dropWhileD)
  then show "c \<in> set s" unfolding set_rev by (rule set_dropWhileD)
qed


lemma scalars_trim [cut_text]: "scalars s \<Longrightarrow> scalars (trim s)"
  by (rule scalars_subset [OF set_trim])

lemma scalars_split [cut_text]: "p \<in> set (split_when P s) \<Longrightarrow> scalars s \<Longrightarrow> scalars p"
  by (rule scalars_subset [OF split_when_chars])

lemma split_pair_chars: "p \<in> set (split_pair a b s) \<Longrightarrow> set p \<subseteq> set s"
proof (induction a b s arbitrary: p rule: split_pair.induct)
  case (3 a b c d cs)
  show ?case
  proof (cases "c = a \<and> d = b")
    case True
    with 3 show ?thesis by fastforce
  next
    case False
    obtain q qs where q: "split_pair a b (d # cs) = q # qs"
      by (cases "split_pair a b (d # cs)") auto
    with 3 False have "p = c # q \<or> p \<in> set qs" by auto
    with 3(2) [OF False] q show ?thesis by fastforce
  qed
qed simp_all

lemma scalars_split_pair [cut_text]: "p \<in> set (split_pair a b s) \<Longrightarrow> scalars s \<Longrightarrow> scalars p"
  by (rule scalars_subset [OF split_pair_chars])

lemma scalars_rsplit [cut_text]:
  "rsplit_once d s = Some (a, b) \<Longrightarrow> scalars s \<Longrightarrow> scalars a \<and> scalars b"
  using rsplit_once_Some [of d s a b] by simp

lemma set_unescape: "set (unescape_chars s) \<subseteq> insert 9 (insert 10 (insert 13 (set s)))"
proof (induction "length s" arbitrary: s rule: less_induct)
  case less
  consider "s = []" | "s = [92]" | c cs where "s = c # cs" "c \<noteq> 92" | e r where "s = 92 # e # r"
    by (metis list.exhaust)
  then show ?case
  proof cases
    case (3 c cs)
    with less [of cs] show ?thesis by auto
  next
    case (4 e r)
    with less [of r] have "set (unescape_chars r) \<subseteq> insert 9 (insert 10 (insert 13 (set r)))" by simp
    then show ?thesis unfolding 4 by (simp add: subset_iff) blast
  qed simp_all
qed

lemma scalars_unescape [cut_text]: "scalars s \<Longrightarrow> scalars (unescape_chars s)"
  using set_unescape [of s] scalar_ascii [of 9] scalar_ascii [of 10] scalar_ascii [of 13]
  unfolding scalars_set by auto

section \<open>The parsed table\<close>

abbreviation opt_scalars :: "rstr option \<Rightarrow> bool" where
  "opt_scalars v \<equiv> pred_option scalars v"

definition meta_typed :: "column_meta \<Rightarrow> bool" where
  "meta_typed m \<longleftrightarrow> scalars (cm_name m) \<and> scalars (cm_type_name m)"

definition table_typed :: "table_result \<Rightarrow> bool" where
  "table_typed t \<longleftrightarrow> list_all meta_typed (columns t) \<and> list_all (list_all opt_scalars) (rows t)"

lemma unescape_field_typed:
  assumes "unescape_field f = Inr v" "scalars f"
  shows "opt_scalars v"
proof (cases v)
  case (Some u)
  then have "u = f \<or> (\<exists>q r c. strip_prefix [c] f = Some q \<and> strip_suffix [c] q = Some r \<and>
      u = unescape_chars r)"
    using assms(1) by (auto simp: unescape_field_def simp del: lit.simps
        split: if_splits list.splits option.splits bind_splits)
  then show ?thesis
    using assms(2) Some by (auto intro: scalars_unescape dest: scalars_strip_prefix scalars_strip_suffix)
qed simp

lemma collect_typed:
  assumes "collect_results f xs = Inr ys" "\<And>x y. x \<in> set xs \<Longrightarrow> f x = Inr y \<Longrightarrow> P y"
  shows "list_all P ys"
  using assms
proof (induction xs arbitrary: ys)
  case (Cons x xs)
  then obtain y zs where "f x = Inr y" "collect_results f xs = Inr zs" "ys = y # zs"
    by (auto simp: res_simps)
  moreover from this(2) have "list_all P zs"
    by (rule Cons.IH) (rule Cons.prems(2), simp_all)
  moreover have "P y" by (rule Cons.prems(2) [OF _ \<open>f x = Inr y\<close>]) simp
  ultimately show ?case by simp
qed simp

lemma parse_tuple_typed:
  assumes "parse_tuple_fields s = Inr fs" "scalars s"
  shows "list_all opt_scalars fs"
proof -
  obtain a where a: "strip_suffix (lit '']'') s = Some a" "trim a = [] \<and> fs = [] \<or>
      collect_results (\<lambda>field. unescape_field (trim field)) (split_pair 44 9 (trim a)) = Inr fs"
    using assms(1) by (auto simp: parse_tuple_fields_def Let_def res_simps split: if_splits)
  then have "scalars (trim a)" using assms(2) scalars_strip_suffix scalars_trim by blast
  then show ?thesis
    using a(2) by (auto intro: collect_typed unescape_field_typed scalars_trim scalars_split_pair)
qed

lemma header_values_typed:
  assumes "parse_header_values s = Inr (identity, vals)" "scalars s"
  shows "list_all scalars vals"
proof -
  obtain vs i where v: "rsplit_once (ch CHR ''#'') s = Some (vs, i)"
    "vals = map trim (split_on (ch CHR '','') (trim vs))"
    using assms(1) by (auto simp: parse_header_values_def res_simps)
  then have "scalars (trim vs)" using assms(2) scalars_rsplit scalars_trim by blast
  then have "scalars (trim p)" if "p \<in> set (split_on (ch CHR '','') (trim vs))" for p
    using scalars_split [OF that] scalars_trim by blast
  with v(2) show ?thesis by (simp add: list_all_iff [of scalars])
qed

lemma zip_typed:
  assumes "zip_columns f cols vals = Inr cols'" "list_all P cols" "list_all Q vals"
    and "\<And>c v c'. P c \<Longrightarrow> Q v \<Longrightarrow> f c v = Inr c' \<Longrightarrow> P c'"
  shows "list_all P cols'"
  using assms by (induction f cols vals arbitrary: cols' rule: zip_columns.induct)
    (auto simp: res_simps)

text \<open>Setting one entry of a column's header.\<close>

definition keeps_typed :: "(column_meta \<Rightarrow> rstr \<Rightarrow> monet_error + column_meta) \<Rightarrow> bool" where
  "keeps_typed f \<longleftrightarrow> (\<forall>c v c'. meta_typed c \<and> scalars v \<and> f c v = Inr c' \<longrightarrow> meta_typed c')"

lemma setters_typed:
  "keeps_typed (\<lambda>c v. Inr (c\<lparr>cm_name := v\<rparr>))" "keeps_typed (\<lambda>c v. Inr (c\<lparr>cm_type_name := v\<rparr>))"
  "keeps_typed set_length" "keeps_typed set_typesizes"
  by (auto simp: keeps_typed_def meta_typed_def set_length_def set_typesizes_def Let_def res_simps
      split: if_splits)

lemma apply_header_cases:
  assumes "apply_header_values t identity vals = Inr t'"
  shows "\<exists>n cs. t' = t\<lparr>columns := cs\<rparr> \<and> (cs = columns t @ replicate n column_meta_default \<or>
    (\<exists>f. keeps_typed f \<and> zip_columns f (columns t @ replicate n column_meta_default) vals = Inr cs))"
proof -
  define n where "n = length vals - length (columns t)"
  have cols: "(if length (columns t) < length vals
         then columns t @ replicate (length vals - length (columns t)) column_meta_default
         else columns t) = columns t @ replicate n column_meta_default"
    by (simp add: n_def)
  define P where "P = (\<lambda>t'. \<exists>cs. t' = t\<lparr>columns := cs\<rparr> \<and>
    (cs = columns t @ replicate n column_meta_default \<or>
     (\<exists>f. keeps_typed f \<and> zip_columns f (columns t @ replicate n column_meta_default) vals = Inr cs)))"
  have zip: "P t'" if "keeps_typed f" "res_map (\<lambda>cs. t\<lparr>columns := cs\<rparr>)
      (zip_columns f (columns t @ replicate n column_meta_default) vals) = Inr t'" for f
    using that unfolding res_map_eq_Inr P_def by blast
  have same: "P (t\<lparr>columns := columns t @ replicate n column_meta_default\<rparr>)"
    unfolding P_def by blast
  have "P t'"
    using assms unfolding apply_header_values_def Let_def cols
    by (auto simp del: lit.simps split: if_split_asm intro: zip [OF setters_typed(1)]
        zip [OF setters_typed(2)] zip [OF setters_typed(3)] zip [OF setters_typed(4)] same)
  then show ?thesis unfolding P_def by blast
qed

lemma apply_header_typed:
  assumes "apply_header_values t identity vals = Inr t'" "table_typed t" "list_all scalars vals"
  shows "table_typed t'"
proof -
  from apply_header_cases [OF assms(1)] obtain n cs where t': "t' = t\<lparr>columns := cs\<rparr>"
    "cs = columns t @ replicate n column_meta_default \<or>
     (\<exists>f. keeps_typed f \<and> zip_columns f (columns t @ replicate n column_meta_default) vals = Inr cs)"
    by blast
  have "meta_typed column_meta_default" by (simp add: meta_typed_def column_meta_default_def)
  then have "list_all meta_typed (columns t @ replicate n column_meta_default)"
    using assms(2) by (simp add: table_typed_def list_all_iff [of meta_typed])
  then have "list_all meta_typed cs"
    using t'(2) zip_typed [where P = meta_typed and Q = scalars, OF _ _ assms(3)]
    unfolding keeps_typed_def by blast
  then show ?thesis using assms(2) t'(1) by (simp add: table_typed_def)
qed

lemma parse_line_table_cases:
  assumes "parse_line (table, r) line = Inr (table', r')"
  shows "table' = table \<or>
    (\<exists>rest t. parse_table_header rest = Inr t \<and> table' = Some t) \<or>
    (\<exists>rest identity vals t t'. strip_prefix (lit ''%'') line = Some rest \<and>
      parse_header_values rest = Inr (identity, vals) \<and> table = Some t \<and>
      apply_header_values t identity vals = Inr t' \<and> table' = Some t') \<or>
    (\<exists>rest fs t. strip_prefix (lit ''['') line = Some rest \<and> parse_tuple_fields rest = Inr fs \<and>
      table = Some t \<and> table' = Some (t\<lparr>rows := rows t @ [fs]\<rparr>))"
proof -
  define P where "P = (\<lambda>table'. \<exists>rest identity vals t t'. strip_prefix (lit ''%'') line = Some rest \<and>
      parse_header_values rest = Inr (identity, vals) \<and> table = Some t \<and>
      apply_header_values t identity vals = Inr t' \<and> table' = Some t')"
  define Q where "Q = (\<lambda>table'. \<exists>rest fs t. strip_prefix (lit ''['') line = Some rest \<and>
      parse_tuple_fields rest = Inr fs \<and> table = Some t \<and>
      table' = Some (t\<lparr>rows := rows t @ [fs]\<rparr>))"
  have P: "P (Some t')" if "strip_prefix (lit ''%'') line = Some rest"
    "parse_header_values rest = Inr (identity, vals)" "table = Some t"
    "apply_header_values t identity vals = Inr t'" for rest identity vals t t'
    using that unfolding P_def by blast
  have Q: "Q (Some (t\<lparr>rows := rows t @ [fs]\<rparr>))" if "strip_prefix (lit ''['') line = Some rest"
    "parse_tuple_fields rest = Inr fs" "table = Some t" for rest fs t
    using that unfolding Q_def by blast
  have "table' = table \<or> (\<exists>rest t. parse_table_header rest = Inr t \<and> table' = Some t) \<or>
      P table' \<or> Q table'"
    using assms unfolding parse_line_def Let_def fst_conv snd_conv
    by (simp del: lit.simps split: option.splits if_splits) (auto simp: res_simps intro: P Q)
  then show ?thesis unfolding P_def Q_def .
qed

lemma parse_line_typed:
  assumes "parse_line (table, r) line = Inr (table', r')" "scalars line" "pred_option table_typed table"
  shows "pred_option table_typed table'"
proof -
  consider "table' = table" | rest t where "parse_table_header rest = Inr t" "table' = Some t"
    | rest identity vals t t' where "strip_prefix (lit ''%'') line = Some rest"
      "parse_header_values rest = Inr (identity, vals)" "table = Some t"
      "apply_header_values t identity vals = Inr t'" "table' = Some t'"
    | rest fs t where "strip_prefix (lit ''['') line = Some rest" "parse_tuple_fields rest = Inr fs"
      "table = Some t" "table' = Some (t\<lparr>rows := rows t @ [fs]\<rparr>)"
    using parse_line_table_cases [OF assms(1)] by metis
  then show ?thesis
  proof cases
    case 2
    then show ?thesis using parse_table_header_rows [of rest t] by (simp add: table_typed_def)
  next
    case (3 rest identity vals t t')
    then have "list_all scalars vals"
      using assms(2) header_values_typed scalars_strip_prefix by blast
    with 3 assms(3) show ?thesis using apply_header_typed [of t identity vals t'] by simp
  next
    case (4 rest fs t)
    then have "list_all opt_scalars fs"
      using assms(2) parse_tuple_typed scalars_strip_prefix by blast
    with 4 assms(3) show ?thesis by (simp add: table_typed_def)
  qed (use assms(3) in simp)
qed

lemma parse_lines_typed:
  "parse_lines (table, r) ls = Inr (table', r') \<Longrightarrow> list_all scalars ls \<Longrightarrow>
   pred_option table_typed table \<Longrightarrow> pred_option table_typed table'"
proof (induction ls arbitrary: table r)
  case (Cons l ls)
  then obtain table1 r1 where "parse_line (table, r) l = Inr (table1, r1)"
    "parse_lines (table1, r1) ls = Inr (table', r')" by (auto simp: res_simps)
  with Cons show ?case using parse_line_typed [of table r l table1 r1] by simp
qed simp

lemma parse_response_typed:
  assumes "parse_response text = Inr (QTable table)" "scalars text"
  shows "table_typed table"
proof -
  obtain r where "parse_lines (None, None) (split_on 10 text) = Inr (Some table, r)"
  proof -
    from assms(1) obtain table' r where l: "parse_lines (None, None) (split_on 10 text) = Inr (table', r)"
      "(case table' of Some t \<Rightarrow> Inr (QTable t)
        | None \<Rightarrow> (case r of Some r \<Rightarrow> Inr r | None \<Rightarrow> Inr QOk)) = (Inr (QTable table) :: response_error + _)"
      by (auto simp: parse_response_def res_simps)
    then show ?thesis
    proof (cases table')
      case None
      with l have "r = Some (QTable table)" by (auto split: option.splits)
      with l(1) parse_lines_result [of None None] show ?thesis by blast
    qed (use that l in simp)
  qed
  moreover have "list_all scalars (split_on 10 text)"
    using scalars_split assms(2) by (metis list_all_iff)
  ultimately show ?thesis using parse_lines_typed [of None None "split_on 10 text"] by force
qed

section \<open>The items of a query\<close>

definition row_typed :: "monet_row \<Rightarrow> bool" where
  "row_typed row \<longleftrightarrow> row_ok row \<and>
     list_all (\<lambda>c. scalars (col_name c) \<and> scalars (ti_name (col_type_info c)) \<and>
       \<not> ti_is_null (col_type_info c)) (row_columns row) \<and>
     list_all opt_scalars (row_values row)"

lemma from_table_result_typed:
  assumes "table_typed t"
  shows "list_all row_typed (from_table_result t)"
proof -
  have "row_typed (from_table_result t ! r)" if r: "r < length (rows t)" for r
  proof -
    note row = from_table_result_row [OF r]
    have "scalars (col_name c) \<and> scalars (ti_name (col_type_info c)) \<and> \<not> ti_is_null (col_type_info c)"
      if "c \<in> set (row_columns (from_table_result t ! r))" for c
    proof -
      from that obtain i where i: "i < length (columns t)" "c = column_from_meta i (columns t ! i)"
        using row(2,3) by (metis in_set_conv_nth)
      then have "meta_typed (columns t ! i)"
        using assms unfolding table_typed_def by (metis list_all_length)
      with i(2) show ?thesis
        by (simp add: column_from_meta_def monet_type_info_new_def meta_typed_def)
    qed
    then have "list_all (\<lambda>c. scalars (col_name c) \<and> scalars (ti_name (col_type_info c)) \<and>
       \<not> ti_is_null (col_type_info c)) (row_columns (from_table_result t ! r))"
      by (auto simp: list_all_iff [of _ "row_columns _"])
    moreover have "list_all opt_scalars (rows t ! r)"
      using assms r unfolding table_typed_def by (metis list_all_length)
    ultimately show ?thesis using row(1,4) by (simp add: row_typed_def)
  qed
  then show ?thesis unfolding list_all_length by simp
qed

lemma from_table_result_columns:
  "row \<in> set (from_table_result t) \<Longrightarrow> row' \<in> set (from_table_result t) \<Longrightarrow>
   row_columns row = row_columns row'"
  by (auto simp: from_table_result_def Let_def)

lemma execute_query_text:
  assumes "execute_query t s sql w = Some (Inr response, w')"
  obtains reply where "scalars reply" "parse_response reply = Inr response"
proof -
  from assms obtain w1 reply where
    "read_text_message t s w1 = Some (Inr reply, w')" "parse_response reply = Inr response"
    by (auto simp: execute_query_def io_bind_def io_lift_def res_simps
        split: bind_splits sum.splits)
  moreover from this(1) obtain bytes where "from_utf8 bytes = Some reply"
    by (auto simp: read_text_message_def io_bind_def io_lift_def res_simps
        split: bind_splits sum.splits)
  ultimately show ?thesis using that from_utf8_sound by blast
qed

lemma run_query_rows:
  assumes "run_query t conn sql arguments w = Some (Inr items, w')"
    and "Inr (Inr row) \<in> set items"
  obtains table where "table_typed table"
    "items = map (\<lambda>row. Inr (Inr row)) (from_table_result table) @
      [Inr (Inl \<lparr>rows_affected = row_count table\<rparr>)]"
proof -
  from assms obtain out table w1 where
    "io_match (execute_query t (conn_stream conn) out) w = Some (Inr (Inr (QTable table)), w1)"
    and items: "items = map (\<lambda>row. Inr (Inr row)) (from_table_result table) @
      [Inr (Inl \<lparr>rows_affected = row_count table\<rparr>)]"
    unfolding run_query_def
    by (auto simp: io_return_def io_bind_def Let_def
        split: sum.splits option.splits query_response.splits bind_splits)
  then have "execute_query t (conn_stream conn) out w = Some (Inr (QTable table), w1)"
    by (auto simp: io_match_def elim!: caught.elims)
  then show ?thesis
    using that [OF _ items] parse_response_typed by (metis execute_query_text)
qed

text \<open>C3: Whatever the server sends and however the socket behaves, each row a
  query yields is well-formed: its columns are numbered by their positions, all rows have the
  same columns, no column has the NULL type, and every column name, type name and value is
  valid text, because no byte reaches a row that has not been decoded as UTF-8 and no step
  after that cuts or makes a character that is not one.\<close>

theorem rows_well_typed:
  assumes "run_query t conn sql arguments w = Some (Inr items, w')"
    and "Inr (Inr row) \<in> set items" and "Inr (Inr row') \<in> set items"
  shows "row_typed row \<and> row_columns row' = row_columns row"
proof -
  from run_query_rows [OF assms(1,2)] obtain table where table: "table_typed table"
    "items = map (\<lambda>row. Inr (Inr row)) (from_table_result table) @
      [Inr (Inl \<lparr>rows_affected = row_count table\<rparr>)]" by blast
  then have "row \<in> set (from_table_result table)" "row' \<in> set (from_table_result table)"
    using assms(2,3) by auto
  with from_table_result_typed [OF table(1)] from_table_result_columns show ?thesis
    unfolding list_all_iff [of row_typed] by blast
qed

theorem rows_well_typed_witness:
  "\<exists>w w' items row. run_query script_transport (connection_new 0) (lit ''SELECT 7'') (Inr None) w =
      Some (Inr items, w') \<and> Inr (Inr row) \<in> set items \<and> row_typed row"
proof -
  let ?text = "lit ''&1 0 1 1 1'' @ 10 # lit ''[ 7]''"
  obtain w where w: "script_in 0 w = text_message ?text @ []"
    using script_connect_one by blast
  have "scalars (lit ''&1 0 1 1 1'')" "scalars (lit ''[ 7]'')" by (rule scalars_lit)+
  then have sc: "scalars ?text" by (simp add: scalar_def del: lit.simps)
  define table where "table = \<lparr>query_id = 0, row_count = 1, declared_columns = 1,
      embedded_tuples = 1, columns = [], rows = [[Some (lit ''7'')]]\<rparr>"
  have parse: "parse_response ?text = Inr (QTable table)"
    unfolding table_def by (simp add: run_simps)
  obtain w' where "execute_query script_transport 0 (lit ''SELECT 7'') w =
      Some (map_err (\<lambda>e. Failed (sqlx_from_response e)) (parse_response ?text), w')"
    using execute_text [OF script_healthy sc w, of "lit ''SELECT 7''"] by blast
  then have w': "execute_query script_transport 0 (lit ''SELECT 7'') w = Some (Inr (QTable table), w')"
    unfolding parse by (simp only: map_err.simps)
  let ?row = "\<lparr>row_columns = [], row_values = [Some (lit ''7'')]\<rparr> :: monet_row"
  have run: "run_query script_transport (connection_new 0) (lit ''SELECT 7'') (Inr None) w =
      Some (Inr [Inr (Inr ?row), Inr (Inl \<lparr>rows_affected = 1\<rparr>)], w')"
    using w' by (simp add: run_query_def connection_new_def io_bind_def io_match_def io_return_def
        from_table_result_def table_def Let_def del: lit.simps)
  have row: "Inr (Inr ?row) \<in> set [Inr (Inr ?row), Inr (Inl \<lparr>rows_affected = 1\<rparr>)]" by simp
  from rows_well_typed [OF run row row] run row show ?thesis by blast
qed

end
