(* ===== verification/Acceptance.thy ===== *)
theory Acceptance
  imports Connect_Options Connection_Laws
begin

text \<open>
  The acceptance tests of the driver against a live server (the modules \<open>docker_tests\<close> of
  \<open>protocol/mod.rs\<close> and \<open>row.rs\<close>, and the one of \<open>options.rs\<close>), as programs over the socket, and
  what a server has to send for them to pass. A failed assertion or \<open>expect\<close> is a panic; a test
  passes if it returns.
\<close>

section \<open>Steps of a test\<close>

definition expect :: "string \<Rightarrow> ('w, 'a) io \<Rightarrow> ('w, 'a) io" where
  "expect msg m =
     io_bind (io_match m) (\<lambda>r. case r of Inl e \<Rightarrow> io_fail (Panicked msg) | Inr a \<Rightarrow> io_return a)"

definition expect_error :: "string \<Rightarrow> ('w, 'a) io \<Rightarrow> ('w, sqlx_error) io" where
  "expect_error msg m =
     io_bind (io_match m) (\<lambda>r. case r of Inl e \<Rightarrow> io_return e | Inr a \<Rightarrow> io_fail (Panicked msg))"

definition ignored :: "('w, 'a) io \<Rightarrow> ('w, unit) io" where
  "ignored m = io_bind (io_match m) (\<lambda>_. io_return ())"

text \<open>An assertion; the text of its panic names the value it is about.\<close>

definition check :: "string \<Rightarrow> bool \<Rightarrow> ('w, unit) io" where
  "check msg b = (if b then io_return () else io_fail (Panicked msg))"

text \<open>The port, from \<open>MONETDB_TEST_PORT\<close> if that is set.\<close>

definition test_port :: "rstr option \<Rightarrow> ('w, u16) io" where
  "test_port env =
     (case parse_uint (case env of Some p \<Rightarrow> p | None \<Rightarrow> lit ''50001'') of
        Inl e \<Rightarrow> io_fail (Panicked ''MONETDB_TEST_PORT must be a valid u16 port number'')
      | Inr port \<Rightarrow> io_return port)"

section \<open>Connecting\<close>

definition connects_and_reads_raw_challenge_from_docker_monetdb ::
    "('w, 's) transport \<Rightarrow> rstr option \<Rightarrow> ('w, unit) io" where
  "connects_and_reads_raw_challenge_from_docker_monetdb t env =
     io_bind (test_port env) (\<lambda>port.
     io_bind (expect ''TCP connect to local MonetDB docker instance failed''
       (connect t (lit ''127.0.0.1'') port)) (\<lambda>stream.
     io_bind (expect ''failed to send MAPI prime bytes'' (send_prime_bytes t stream)) (\<lambda>_.
     io_bind (expect ''failed to read raw challenge message'' (read_message t stream)) (\<lambda>challenge.
     io_bind (check ''expected a non-empty challenge line'' (challenge \<noteq> [])) (\<lambda>_.
     case from_utf8 challenge of
       None \<Rightarrow> io_fail (Panicked ''challenge should be valid UTF-8'')
     | Some challenge_text \<Rightarrow>
         check ''unexpected challenge format''
           (contains (lit '':mserver:9:'') challenge_text \<or>
            contains (lit '':merovingian:9:'') challenge_text))))))"

definition full_handshake_succeeds_against_docker_monetdb ::
    "('w, 's) transport \<Rightarrow> digests \<Rightarrow> rstr option \<Rightarrow> ('w, unit) io" where
  "full_handshake_succeeds_against_docker_monetdb t d env =
     io_bind (test_port env) (\<lambda>port.
     io_bind (expect ''handshake against local docker MonetDB instance should succeed''
       (perform_handshake t d (lit ''127.0.0.1'') port (lit ''monetdb'') (lit ''monetdb'')
          (lit ''monetdb''))) (\<lambda>_.
     io_return ()))"

definition handshake_with_wrong_password_fails ::
    "('w, 's) transport \<Rightarrow> digests \<Rightarrow> rstr option \<Rightarrow> ('w, unit) io" where
  "handshake_with_wrong_password_fails t d env =
     io_bind (test_port env) (\<lambda>port.
     io_bind (io_match
       (perform_handshake t d (lit ''127.0.0.1'') port (lit ''monetdb'')
          (lit ''definitely-wrong-password'') (lit ''monetdb''))) (\<lambda>result.
     check ''handshake with a wrong password should have failed''
       (case result of Inr stream \<Rightarrow> False | Inl e \<Rightarrow> True)))"

definition connect_and_close_against_docker_monetdb ::
    "('w, 's) transport \<Rightarrow> digests \<Rightarrow> 'l \<Rightarrow> rstr option \<Rightarrow> ('w, unit) io" where
  "connect_and_close_against_docker_monetdb t d log_default env =
     io_bind (test_port env) (\<lambda>port.
     let options = set_database (lit ''monetdb'') (set_password (lit ''monetdb'')
           (set_username (lit ''monetdb'') (set_port port
             (set_host (lit ''127.0.0.1'') (options_new log_default)))))
     in
     io_bind (expect ''connect() should succeed against local docker MonetDB instance''
       (options_connect t d options)) (\<lambda>connection.
     expect ''close() should succeed'' (connection_close t connection)))"

section \<open>Creating, filling, reading and dropping a table\<close>

definition full_crud_cycle_against_docker_monetdb ::
    "('w, 's) transport \<Rightarrow> digests \<Rightarrow> rstr option \<Rightarrow> ('w, unit) io" where
  "full_crud_cycle_against_docker_monetdb t d env =
     io_bind (test_port env) (\<lambda>port.
     io_bind (expect ''handshake should succeed''
       (perform_handshake t d (lit ''127.0.0.1'') port (lit ''monetdb'') (lit ''monetdb'')
          (lit ''monetdb''))) (\<lambda>stream.
     io_bind (ignored (execute_query t stream (lit ''DROP TABLE sqlx_monetdb_crud_test''))) (\<lambda>_.
     io_bind (expect ''CREATE TABLE should succeed'' (execute_query t stream
       (lit ''CREATE TABLE sqlx_monetdb_crud_test (id INT, name VARCHAR(50), price DECIMAL(10,2))'')))
       (\<lambda>schema.
     io_bind (check ''schema'' (schema = QSchema)) (\<lambda>_.
     io_bind (expect ''INSERT should succeed'' (execute_query t stream
       (lit ''INSERT INTO sqlx_monetdb_crud_test VALUES (1, 'widget', 9.99), (2, 'gadget', 19.50)'')))
       (\<lambda>insert.
     io_bind (check ''insert'' (insert = QUpdate 2 None)) (\<lambda>_.
     io_bind (expect ''SELECT should succeed'' (execute_query t stream
       (lit ''SELECT id, name, price FROM sqlx_monetdb_crud_test ORDER BY id''))) (\<lambda>select.
     case select of
       QTable table \<Rightarrow>
     io_bind (check ''row_count'' (row_count table = 2)) (\<lambda>_.
     io_bind (check ''columns.len()'' (length (columns table) = 3)) (\<lambda>_.
     io_bind (check ''columns[0].name'' (cm_name (columns table ! 0) = lit ''id'')) (\<lambda>_.
     io_bind (check ''columns[1].name'' (cm_name (columns table ! 1) = lit ''name'')) (\<lambda>_.
     io_bind (check ''columns[2].name'' (cm_name (columns table ! 2) = lit ''price'')) (\<lambda>_.
     io_bind (check ''columns[2].type_name''
       (cm_type_name (columns table ! 2) = lit ''decimal'')) (\<lambda>_.
     io_bind (check ''columns[2].length'' (cm_length (columns table ! 2) = Some 12)) (\<lambda>_.
     io_bind (check ''columns[2].typesizes'' (cm_typesizes (columns table ! 2) = None)) (\<lambda>_.
     io_bind (check ''rows'' (rows table =
         [[Some (lit ''1''), Some (lit ''widget''), Some (lit ''9.99'')],
          [Some (lit ''2''), Some (lit ''gadget''), Some (lit ''19.50'')]])) (\<lambda>_.
     io_bind (expect ''UPDATE should succeed'' (execute_query t stream
       (lit ''UPDATE sqlx_monetdb_crud_test SET price = 12.00 WHERE id = 1''))) (\<lambda>update.
     io_bind (check ''update'' (update = QUpdate 1 None)) (\<lambda>_.
     io_bind (expect ''DELETE should succeed'' (execute_query t stream
       (lit ''DELETE FROM sqlx_monetdb_crud_test WHERE id = 2''))) (\<lambda>delete.
     io_bind (check ''delete'' (delete = QUpdate 1 None)) (\<lambda>_.
     io_bind (expect_error ''querying a nonexistent table should fail'' (execute_query t stream
       (lit ''SELECT * FROM no_such_table_at_all''))) (\<lambda>error.
     io_bind (check ''error'' (case error of SqlxDatabase e \<Rightarrow> True | _ \<Rightarrow> False)) (\<lambda>_.
     io_bind (expect ''cleanup DROP TABLE should succeed'' (execute_query t stream
       (lit ''DROP TABLE sqlx_monetdb_crud_test''))) (\<lambda>_.
     io_return ()))))))))))))))))
     | _ \<Rightarrow> io_fail (Panicked ''expected a Table response'')))))))))"

section \<open>What passes\<close>

lemma bind_steps:
  "Option.bind (Some p) f = f p" "(case (a, b) of (x, y) \<Rightarrow> g x y) = g a b"
  by simp_all

lemma ignored_query:
  assumes "execute_query t s sql w = Some (map_err (\<lambda>e. Failed (g e)) r, w')"
  shows "ignored (execute_query t s sql) w = Some (Inr (), w')"
  using assms by (cases r) (simp_all add: ignored_def io_bind_def io_match_def io_return_def)

text \<open>What a step leaves of a test once the result of its call is known.\<close>

lemmas test_steps = expect_def expect_error_def check_def io_bind_def io_match_def io_return_def
  caught.simps bind_steps option.map sum.case query_response.case sqlx_error.case if_True simp_thms
  refl

text \<open>The statements the test of \<open>protocol/mod.rs\<close> sends, and the server's replies to them.\<close>

definition crud_statements :: "string list" where
  "crud_statements =
     [''DROP TABLE sqlx_monetdb_crud_test'',
      ''CREATE TABLE sqlx_monetdb_crud_test (id INT, name VARCHAR(50), price DECIMAL(10,2))'',
      ''INSERT INTO sqlx_monetdb_crud_test VALUES (1, 'widget', 9.99), (2, 'gadget', 19.50)'',
      ''SELECT id, name, price FROM sqlx_monetdb_crud_test ORDER BY id'',
      ''UPDATE sqlx_monetdb_crud_test SET price = 12.00 WHERE id = 1'',
      ''DELETE FROM sqlx_monetdb_crud_test WHERE id = 2'',
      ''SELECT * FROM no_such_table_at_all'',
      ''DROP TABLE sqlx_monetdb_crud_test'']"

definition crud_table :: "table_result \<Rightarrow> bool" where
  "crud_table table \<longleftrightarrow> row_count table = 2 \<and>
     map cm_name (columns table) = map lit [''id'', ''name'', ''price''] \<and>
     cm_type_name (columns table ! 2) = lit ''decimal'' \<and>
     cm_length (columns table ! 2) = Some 12 \<and> cm_typesizes (columns table ! 2) = None \<and>
     rows table = map (map (\<lambda>s. Some (lit s)))
       [[''1'', ''widget'', ''9.99''], [''2'', ''gadget'', ''19.50'']]"

lemma crud_table_checks:
  assumes "crud_table table"
  shows "row_count table = 2" "length (columns table) = 3"
    "cm_name (columns table ! 0) = lit ''id''" "cm_name (columns table ! 1) = lit ''name''"
    "cm_name (columns table ! 2) = lit ''price''"
    "cm_type_name (columns table ! 2) = lit ''decimal''"
    "cm_length (columns table ! 2) = Some 12" "cm_typesizes (columns table ! 2) = None"
    "rows table = [[Some (lit ''1''), Some (lit ''widget''), Some (lit ''9.99'')],
       [Some (lit ''2''), Some (lit ''gadget''), Some (lit ''19.50'')]]"
proof -
  have names: "map cm_name (columns table) = map lit [''id'', ''name'', ''price'']"
    using assms by (simp add: crud_table_def)
  then obtain a b c where "columns table = [a, b, c]"
    "cm_name a = lit ''id''" "cm_name b = lit ''name''" "cm_name c = lit ''price''"
    by (auto simp: map_eq_Cons_conv simp del: lit.simps)
  then show "length (columns table) = 3" "cm_name (columns table ! 0) = lit ''id''"
    "cm_name (columns table ! 1) = lit ''name''" "cm_name (columns table ! 2) = lit ''price''"
    by simp_all
qed (use assms in \<open>simp_all only: crud_table_def list.map\<close>)

fun crud_answers :: "rstr list \<Rightarrow> bool" where
  "crud_answers [dropped, created, inserted, selected, updated, deleted, missing, cleaned] \<longleftrightarrow>
     parse_response created = Inr QSchema \<and>
     parse_response inserted = Inr (QUpdate 2 None) \<and>
     (\<exists>table. parse_response selected = Inr (QTable table) \<and> crud_table table) \<and>
     parse_response updated = Inr (QUpdate 1 None) \<and>
     parse_response deleted = Inr (QUpdate 1 None) \<and>
     (\<exists>e. parse_response missing = Inl (ResponseDatabase e)) \<and>
     (\<exists>r. parse_response cleaned = Inr r)"
| "crud_answers _ \<longleftrightarrow> False"

text \<open>The replies to the statements, one after the other.\<close>

fun answered ::
    "('w, 's) transport \<Rightarrow> 's \<Rightarrow> string list \<Rightarrow> rstr list \<Rightarrow> 'w \<Rightarrow> 'w \<Rightarrow> bool" where
  "answered t s [] [] w w' \<longleftrightarrow> w' = w"
| "answered t s (sql # sqls) (reply # replies) w w' \<longleftrightarrow>
     (\<exists>w1. execute_query t s (lit sql) w =
         Some (map_err (\<lambda>e. Failed (sqlx_from_response e)) (parse_response reply), w1) \<and>
       answered t s sqls replies w1 w')"
| "answered t s _ _ w w' \<longleftrightarrow> False"

lemma execute_replies:
  assumes h: "healthy t s incoming outgoing" and "list_all scalars replies"
    and "length replies = length sqls"
    and "incoming w = concat (map text_message replies) @ rest"
  obtains w' where "answered t s sqls replies w w'" "incoming w' = rest"
    "outgoing w' = outgoing w @ concat (map (\<lambda>sql. encode_message (encode_query (lit sql)) []) sqls)"
  using assms(3,2,4)
proof (induction replies sqls arbitrary: w thesis rule: list_induct2)
  case (Cons reply replies sql sqls)
  have "scalars reply" "incoming w = text_message reply @ concat (map text_message replies) @ rest"
    using Cons.prems by simp_all
  then obtain w1 where w1: "execute_query t s (lit sql) w =
      Some (map_err (\<lambda>e. Failed (sqlx_from_response e)) (parse_response reply), w1)"
    "incoming w1 = concat (map text_message replies) @ rest"
    "outgoing w1 = outgoing w @ encode_message (encode_query (lit sql)) []"
    by (rule execute_text [OF h])
  from Cons.IH [OF _ _ w1(2)] Cons.prems obtain w' where "answered t s sqls replies w1 w'"
    "incoming w' = rest" "outgoing w' =
      outgoing w1 @ concat (map (\<lambda>sql. encode_message (encode_query (lit sql)) []) sqls)"
    by auto
  with w1(1,3) show ?case by (intro Cons.prems(1) [of w']) auto
qed simp

lemma crud_after_login:
  assumes port: "test_port env w = Some (Inr port, w)"
    and login: "perform_handshake t d (lit ''127.0.0.1'') port (lit ''monetdb'') (lit ''monetdb'')
      (lit ''monetdb'') w = Some (Inr s, w2)"
    and "crud_answers replies" and run: "answered t s crud_statements replies w2 w'"
  shows "full_crud_cycle_against_docker_monetdb t d env w = Some (Inr (), w')"
proof -
  from assms(3) obtain r0 r1 r2 r3 r4 r5 r6 r7 where r: "replies = [r0, r1, r2, r3, r4, r5, r6, r7]"
    by (cases replies rule: crud_answers.cases) simp_all
  obtain table e c where p: "parse_response r1 = Inr QSchema" "parse_response r2 = Inr (QUpdate 2 None)"
    "parse_response r3 = Inr (QTable table)" "parse_response r4 = Inr (QUpdate 1 None)"
    "parse_response r5 = Inr (QUpdate 1 None)" "parse_response r6 = Inl (ResponseDatabase e)"
    "parse_response r7 = Inr c" and table: "crud_table table"
    using assms(3) unfolding r by auto
  have "\<exists>a0. ignored (execute_query t s (lit ''DROP TABLE sqlx_monetdb_crud_test'')) w2 = Some (Inr (), a0) \<and>
      answered t s (tl crud_statements) (tl replies) a0 w'"
    using run unfolding r crud_statements_def answered.simps list.sel by (blast dest: ignored_query)
  then show ?thesis
    unfolding r crud_statements_def answered.simps list.sel p map_err.simps sqlx_from_response.simps
    by (elim exE conjE)
      (simp only: full_crud_cycle_against_docker_monetdb_def test_steps port login
        crud_table_checks [OF table] sqlx_from_database_def)
qed


text \<open>The login of a test, over any connection.\<close>

lemma test_login:
  assumes "t_connect t (lit ''127.0.0.1'') port w = Some (Inr s, w1)"
    and "healthy t s incoming outgoing"
    and "incoming w1 = text_message line @ text_message answer @ text_message reply @ rest"
    and "scalars line" and "scalars answer" and "scalars reply"
    and "parse_challenge line = Inr chal"
    and "compute_password_hash d chal (lit ''monetdb'') = Inr hash"
    and "parse_login_response answer = LoginOk"
  obtains w2 where "perform_handshake t d (lit ''127.0.0.1'') port (lit ''monetdb'')
      (lit ''monetdb'') (lit ''monetdb'') w = Some (Inr s, w2)"
    "incoming w2 = rest"
    "outgoing w2 = outgoing w1 @ replicate 8 0 @
      text_message (build_login_response chal (lit ''monetdb'') (fst hash) (snd hash)
        (lit ''monetdb'') handshake_options_default) @
      text_message (lit ''Xreply_size -1'')"
proof -
  define c where "c = \<lparr>cr_username = lit ''monetdb'', cr_password = lit ''monetdb'',
    cr_database = lit ''monetdb''\<rparr>"
  have c: "cr_username c = lit ''monetdb''" "cr_password c = lit ''monetdb''"
    "cr_database c = lit ''monetdb''" unfolding c_def by (simp_all only: credentials.simps)
  show ?thesis
    using login_succeeds [OF assms(1-7), where c = c, unfolded login_line_def c, OF assms(8,9)] that
    by blast
qed

text \<open>The acceptance test of the protocol passes against every server that plays
  its part. Over any healthy connection, a server that sends a readable challenge, accepts the
  login, and answers the eight statements of the test (whatever it says to the first one) as
  they call for, with a table that has the rows inserted, makes the whole test run to its end
  without a failed assertion: logging in, creating, inserting, selecting, updating, deleting,
  an error of the server in the middle, and dropping. The server has been sent the login and
  the eight statements and nothing else.\<close>

theorem acceptance_crud:
  assumes "test_port env w = Some (Inr port, w)"
    and "t_connect t (lit ''127.0.0.1'') port w = Some (Inr s, w1)"
    and "healthy t s incoming outgoing"
    and "incoming w1 = text_message line @ text_message answer @ text_message reply @
      concat (map text_message replies) @ rest"
    and "scalars line" and "scalars answer" and "scalars reply" and "list_all scalars replies"
    and "parse_challenge line = Inr chal"
    and "compute_password_hash d chal (lit ''monetdb'') = Inr hash"
    and "parse_login_response answer = LoginOk" and "crud_answers replies"
  shows "\<exists>w'. full_crud_cycle_against_docker_monetdb t d env w = Some (Inr (), w') \<and>
    incoming w' = rest \<and>
    outgoing w' = outgoing w1 @ replicate 8 0 @
      text_message (build_login_response chal (lit ''monetdb'') (fst hash) (snd hash)
        (lit ''monetdb'') handshake_options_default) @
      text_message (lit ''Xreply_size -1'') @
      concat (map (\<lambda>sql. encode_message (encode_query (lit sql)) []) crud_statements)"
proof -
  obtain w2 where w2: "perform_handshake t d (lit ''127.0.0.1'') port (lit ''monetdb'')
      (lit ''monetdb'') (lit ''monetdb'') w = Some (Inr s, w2)"
    "incoming w2 = concat (map text_message replies) @ rest"
    "outgoing w2 = outgoing w1 @ replicate 8 0 @
      text_message (build_login_response chal (lit ''monetdb'') (fst hash) (snd hash)
        (lit ''monetdb'') handshake_options_default) @
      text_message (lit ''Xreply_size -1'')"
    by (rule test_login [OF assms(2-7,9-11)])
  have "length replies = length crud_statements"
    using assms(12) by (cases replies rule: crud_answers.cases) (simp_all add: crud_statements_def)
  from execute_replies [OF assms(3,8) this w2(2)] obtain w' where
    "answered t s crud_statements replies w2 w'" "incoming w' = rest" "outgoing w' = outgoing w2 @
      concat (map (\<lambda>sql. encode_message (encode_query (lit sql)) []) crud_statements)" by blast
  with crud_after_login [OF assms(1) w2(1) assms(12)] w2(3) show ?thesis
    by (intro exI [of _ w']) (simp del: lit.simps)
qed

text \<open>What a live server sends for the statements.\<close>

definition selected_reply :: rstr where
  "selected_reply = join [10]
     [lit ''&1 0 2 3 2 14 1706 104 125'',
      lit ''% id,'' @ 9 # lit ''name,'' @ 9 # lit ''price # name'',
      lit ''% int,'' @ 9 # lit ''varchar,'' @ 9 # lit ''decimal # type'',
      lit ''% 1,'' @ 9 # lit ''6,'' @ 9 # lit ''12 # length'',
      lit ''[ 1,'' @ 9 # 34 # lit ''widget'' @ 34 # lit '','' @ 9 # lit ''9.99'' @ 9 # lit '']'',
      lit ''[ 2,'' @ 9 # 34 # lit ''gadget'' @ 34 # lit '','' @ 9 # lit ''19.50'' @ 9 # lit '']'']"

definition sample_replies :: "rstr list" where
  "sample_replies =
     [lit ''!42S02!DROP TABLE: no such table'', lit ''&3 0 0'', lit ''&2 2 -1'', selected_reply,
      lit ''&2 1 -1'', lit ''&2 1 -1'', lit ''!42S02!SELECT: no such table'', lit ''&3 0 0'']"

lemma selected_table: "\<exists>table. parse_response selected_reply = Inr (QTable table) \<and> crud_table table"
  by (simp add: selected_reply_def crud_table_def run_simps)

lemma plain_replies:
  "parse_response (lit ''&3 0 0'') = Inr QSchema"
  "parse_response (lit ''&2 2 -1'') = Inr (QUpdate 2 None)"
  "parse_response (lit ''&2 1 -1'') = Inr (QUpdate 1 None)"
  "\<exists>e. parse_response (lit ''!42S02!SELECT: no such table'') = Inl (ResponseDatabase e)"
  by (simp_all add: run_simps)

lemma sample_answers: "crud_answers sample_replies"
  unfolding sample_replies_def crud_answers.simps plain_replies(1-3)
  using selected_table plain_replies(4) by blast

lemma sample_replies_scalars: "list_all scalars sample_replies"
proof -
  have "scalars selected_reply" by (simp add: selected_reply_def scalar_def)
  then show ?thesis by (simp only: sample_replies_def list.pred_inject scalars_lit simp_thms)
qed

lemma default_port: "test_port None w = Some (Inr 50001, w)"
proof -
  have "parse_uint (lit ''50001'') = (Inr 50001 :: int_error + u16)" by (simp add: run_simps)
  then show ?thesis by (simp only: test_port_def option.case sum.case io_return_def)
qed

theorem acceptance_crud_witness:
  "\<exists>w'. full_crud_cycle_against_docker_monetdb script_transport sample_digests None
      (one_server (lit ''127.0.0.1'') 50001
        (text_message sample_line @ text_message [] @ text_message [] @
         concat (map text_message sample_replies) @ [])) = Some (Inr (), w') \<and>
    script_in 0 w' = []"
proof -
  let ?in = "text_message sample_line @ text_message [] @ text_message [] @
         concat (map text_message sample_replies) @ []"
  let ?w = "one_server (lit ''127.0.0.1'') 50001 ?in"
  obtain w1 where w1: "t_connect script_transport (lit ''127.0.0.1'') 50001 ?w = Some (Inr 0, w1)"
    "script_in 0 w1 = ?in"
    using script_connect_one by blast
  obtain hash where hash: "compute_password_hash sample_digests sample_challenge (lit ''monetdb'') =
      Inr hash"
    using sample_hash by blast
  have line: "scalars sample_line" unfolding sample_line_def by (rule scalars_lit)
  have empty: "scalars []" "parse_login_response [] = LoginOk"
    by (simp_all add: parse_login_response_def)
  from acceptance_crud [OF default_port w1(1) script_healthy w1(2) line empty(1,1) sample_replies_scalars
      sample_parse hash empty(2) sample_answers]
  show ?thesis by blast
qed

section \<open>The shorter tests\<close>

lemma raw_challenge_passes:
  assumes port: "test_port env w = Some (Inr port, w)"
    and con: "t_connect t (lit ''127.0.0.1'') port w = Some (Inr s, w1)"
    and h: "healthy t s incoming outgoing" and "incoming w1 = text_message line @ rest"
    and "scalars line" and "line \<noteq> []"
    and "contains (lit '':mserver:9:'') line \<or> contains (lit '':merovingian:9:'') line"
  shows "\<exists>w'. connects_and_reads_raw_challenge_from_docker_monetdb t env w = Some (Inr (), w') \<and>
    incoming w' = rest"
proof -
  obtain w2 where w2: "send_prime_bytes t s w1 = Some (Inr (), w2)" "incoming w2 = incoming w1"
    by (rule send_prime_healthy [OF h])
  let ?k = "length (text_message line)"
  have "decode_message (incoming w2) = Some (as_bytes line, ?k)"
    unfolding w2(2) assms(4) text_message_def by (rule decode_encode_message)
  then obtain w3 where w3: "read_loop t s [] w2 = Some (Inr (as_bytes line), w3)"
    "incoming w3 = drop ?k (incoming w2)"
    using read_loop_decode [OF h, where w = w2 and message = "[]"] by auto
  have "connect t (lit ''127.0.0.1'') port w = Some (Inr s, w1)"
    by (simp add: connect_def con del: lit.simps)
  moreover have "as_bytes line \<noteq> []" using from_utf8_as_bytes [OF assms(5)] from_utf8_as_bytes [of "[]"] assms(6)
    by auto
  ultimately have "connects_and_reads_raw_challenge_from_docker_monetdb t env w = Some (Inr (), w3)"
    using assms(7) w3(1)
    by (simp add: connects_and_reads_raw_challenge_from_docker_monetdb_def read_message_def
        test_steps port w2(1) from_utf8_as_bytes assms(5) del: lit.simps)
  with w2(2) w3(2) assms(4) show ?thesis by simp
qed

lemma full_handshake_passes:
  assumes "test_port env w = Some (Inr port, w)"
    and "perform_handshake t d (lit ''127.0.0.1'') port (lit ''monetdb'') (lit ''monetdb'')
      (lit ''monetdb'') w = Some (Inr s, w')"
  shows "full_handshake_succeeds_against_docker_monetdb t d env w = Some (Inr (), w')"
  by (simp only: full_handshake_succeeds_against_docker_monetdb_def test_steps assms)

lemma wrong_password_passes:
  assumes port: "test_port env w = Some (Inr port, w)"
    and "t_connect t (lit ''127.0.0.1'') port w = Some (Inr s, w1)"
    and "healthy t s incoming outgoing"
    and "incoming w1 = text_message line @ text_message (33 # reason) @ rest"
    and "scalars line" and "scalars reason"
    and "parse_challenge line = Inr chal"
    and "compute_password_hash d chal (lit ''definitely-wrong-password'') = Inr hash"
  shows "\<exists>w'. handshake_with_wrong_password_fails t d env w = Some (Inr (), w')"
proof -
  define c where "c = \<lparr>cr_username = lit ''monetdb'', cr_password = lit ''definitely-wrong-password'',
    cr_database = lit ''monetdb''\<rparr>"
  have c: "cr_username c = lit ''monetdb''" "cr_password c = lit ''definitely-wrong-password''"
    "cr_database c = lit ''monetdb''" unfolding c_def by (simp_all only: credentials.simps)
  have "scalars (33 # reason)" "33 # reason \<noteq> lit ''=OK''" using assms(6) by (simp_all add: scalar_def)
  with login_rejected [OF assms(2-5) _ assms(7), where c = c, unfolded c, OF _ assms(8)]
  obtain e w' where "perform_handshake t d (lit ''127.0.0.1'') port (lit ''monetdb'')
      (lit ''definitely-wrong-password'') (lit ''monetdb'') w = Some (Inl (Failed e), w')"
    by (auto simp del: lit.simps)
  then show ?thesis
    by (simp only: handshake_with_wrong_password_fails_def test_steps port) blast
qed

lemma connect_and_close_passes:
  assumes port: "test_port env w = Some (Inr port, w)"
    and login: "perform_handshake t d (lit ''127.0.0.1'') port (lit ''monetdb'') (lit ''monetdb'')
      (lit ''monetdb'') w = Some (Inr s, w1)"
    and close: "t_flush t s w1 = Some (Inr (), w2)" "t_shutdown t s w2 = Some (Inr (), w3)"
  shows "connect_and_close_against_docker_monetdb t d l env w = Some (Inr (), w3)"
  by (simp add: connect_and_close_against_docker_monetdb_def test_steps port login close Let_def
      options_new_def options_default_def set_host_def set_port_def set_username_def
      set_password_def set_database_def options_connect_def connection_close_def connection_new_def
      io_os_def del: lit.simps)

end
