(* ===== verification/Acceptance_Rows.thy ===== *)
theory Acceptance_Rows
  imports Acceptance
begin

text \<open>
  The acceptance tests that read rows through sqlx (\<open>docker_tests\<close> of \<open>row.rs\<close> and
  \<open>connection.rs\<close>). The provided methods of sqlx's traits belong to another crate and are
  arguments: \<open>Row::try_get\<close>, one for each type and kind of index a test reads with, and \<open>execute\<close>,
  \<open>fetch_all\<close> and \<open>fetch_one\<close> of \<open>Executor\<close>, each given the driver's call it is built on.
  \<open>getter\<close> and \<open>executor_ok\<close> say what sqlx documents of them. Decimals are a type argument with its
  \<open>FromStr\<close> and \<open>Display\<close>.
\<close>

section \<open>What the tests use of sqlx\<close>

type_synonym ('i, 'a) get = "'i \<Rightarrow> monet_row \<Rightarrow> sqlx_error fault + 'a"

record 'w executor =
  execute :: "('w, query_item list) io \<Rightarrow> ('w, monet_query_result) io"
  fetch_all :: "('w, query_item list) io \<Rightarrow> ('w, monet_row list) io"
  fetch_one :: "('w, monet_row option) io \<Rightarrow> ('w, monet_row) io"

record 'd decimal =
  dec_from_str :: "rstr \<Rightarrow> rstr + 'd"
  dec_to_string :: "'d \<Rightarrow> rstr"

text \<open>\<open>unwrap\<close> of a result, and what is asserted of its value.\<close>

definition unwrapped :: "'e + 'a \<Rightarrow> ('a \<Rightarrow> bool) \<Rightarrow> ('w, unit) io" where
  "unwrapped r ok =
     (case r of Inl e \<Rightarrow> io_fail (Panicked ''called Result::unwrap() on an Err value'')
      | Inr a \<Rightarrow> check ''assertion failed'' (ok a))"

text \<open>\<open>Decimal::from_str(text).unwrap()\<close> of a literal compared with a value.\<close>

definition is_decimal :: "'d decimal \<Rightarrow> string \<Rightarrow> 'd \<Rightarrow> bool" where
  "is_decimal dec text x \<longleftrightarrow> dec_from_str dec (lit text) = Inr x"

section \<open>Rows of a query\<close>

definition decodes_real_rows_into_rust_types ::
    "('w, 's) transport \<Rightarrow> digests \<Rightarrow> 'd decimal \<Rightarrow> (nat, 32 word) get \<Rightarrow> (nat, rstr) get \<Rightarrow>
     (nat, rstr option) get \<Rightarrow> (nat, 'd) get \<Rightarrow> (nat, bool) get \<Rightarrow> rstr option \<Rightarrow> ('w, unit) io" where
  "decodes_real_rows_into_rust_types t d dec get_i32 get_string get_opt_string get_decimal get_bool env =
     io_bind (test_port env) (\<lambda>port.
     io_bind (expect ''handshake should succeed''
       (perform_handshake t d (lit ''127.0.0.1'') port (lit ''monetdb'') (lit ''monetdb'')
          (lit ''monetdb''))) (\<lambda>stream.
     io_bind (ignored (execute_query t stream (lit ''DROP TABLE sqlx_monetdb_row_decode_test''))) (\<lambda>_.
     io_bind (expect ''CREATE TABLE should succeed'' (execute_query t stream
       (lit ''CREATE TABLE sqlx_monetdb_row_decode_test (id INT, name VARCHAR(50), price DECIMAL(10,2), active BOOLEAN)'')))
       (\<lambda>_.
     io_bind (expect ''INSERT should succeed'' (execute_query t stream
       (lit ''INSERT INTO sqlx_monetdb_row_decode_test VALUES (1, 'widget', 9.99, true), (2, NULL, 100.50, false)'')))
       (\<lambda>_.
     io_bind (expect ''SELECT should succeed'' (execute_query t stream
       (lit ''SELECT id, name, price, active FROM sqlx_monetdb_row_decode_test ORDER BY id'')))
       (\<lambda>response.
     case response of
       QTable table \<Rightarrow>
     (let rows = from_table_result table in
     io_bind (check ''rows.len()'' (length rows = 2)) (\<lambda>_.
     io_bind (unwrapped (get_i32 0 (rows ! 0)) (\<lambda>x. x = 1)) (\<lambda>_.
     io_bind (unwrapped (get_string 1 (rows ! 0)) (\<lambda>x. x = lit ''widget'')) (\<lambda>_.
     io_bind (unwrapped (get_decimal 2 (rows ! 0)) (is_decimal dec ''9.99'')) (\<lambda>_.
     io_bind (unwrapped (get_bool 3 (rows ! 0)) (\<lambda>x. x)) (\<lambda>_.
     io_bind (unwrapped (get_i32 0 (rows ! 1)) (\<lambda>x. x = 2)) (\<lambda>_.
     io_bind (unwrapped (get_opt_string 1 (rows ! 1)) (\<lambda>x. x = None)) (\<lambda>_.
     io_bind (unwrapped (get_decimal 2 (rows ! 1)) (is_decimal dec ''100.50'')) (\<lambda>_.
     io_bind (unwrapped (get_bool 3 (rows ! 1)) (\<lambda>x. \<not> x)) (\<lambda>_.
     io_bind (expect ''cleanup DROP TABLE should succeed'' (execute_query t stream
       (lit ''DROP TABLE sqlx_monetdb_row_decode_test''))) (\<lambda>_.
     io_return ())))))))))))
     | _ \<Rightarrow> io_fail (Panicked ''expected a Table response'')))))))"

section \<open>Queries through the executor\<close>

definition docker_connect ::
    "('w, 's) transport \<Rightarrow> digests \<Rightarrow> 'l \<Rightarrow> u16 \<Rightarrow> ('w, 's monet_connection) io" where
  "docker_connect t d log_default port =
     expect ''connect() should succeed against local docker MonetDB instance''
       (options_connect t d
         (set_database (lit ''monetdb'') (set_password (lit ''monetdb'')
           (set_username (lit ''monetdb'') (set_port port
             (set_host (lit ''127.0.0.1'') (options_new log_default)))))))"

text \<open>A statement given as text has no arguments; \<open>bind\<close> adds one to those of a query.\<close>

definition plain :: "('w, 's) transport \<Rightarrow> 's monet_connection \<Rightarrow> string \<Rightarrow> ('w, query_item list) io" where
  "plain t conn sql = fetch_many t conn (lit sql) (Inr None)"

definition bind_value ::
    "'a encoder \<Rightarrow> 'a \<Rightarrow> box_error + monet_arguments \<Rightarrow> box_error + monet_arguments" where
  "bind_value encode x args = res_bind args (arguments_add encode x)"

definition full_sqlx_core_crud_cycle_against_docker_monetdb ::
    "('w, 's) transport \<Rightarrow> digests \<Rightarrow> 'l \<Rightarrow> 'w executor \<Rightarrow> 'd decimal \<Rightarrow> (nat, 32 word) get \<Rightarrow>
     (nat, rstr) get \<Rightarrow> (rstr, rstr) get \<Rightarrow> (nat, 'd) get \<Rightarrow> rstr option \<Rightarrow> ('w, unit) io" where
  "full_sqlx_core_crud_cycle_against_docker_monetdb t d log_default ex dec get_i32 get_string
       get_string_named get_decimal env =
     io_bind (test_port env) (\<lambda>port.
     io_bind (docker_connect t d log_default port) (\<lambda>conn.
     io_bind (expect ''ping should succeed'' (connection_ping t conn)) (\<lambda>_.
     io_bind (ignored (execute ex (plain t conn ''DROP TABLE sqlx_monetdb_executor_test''))) (\<lambda>_.
     io_bind (expect ''CREATE TABLE should succeed'' (execute ex (plain t conn
       ''CREATE TABLE sqlx_monetdb_executor_test (id INT, name VARCHAR(50), price DECIMAL(10,2))'')))
       (\<lambda>_.
     io_bind (expect ''plain INSERT should succeed'' (execute ex (plain t conn
       ''INSERT INTO sqlx_monetdb_executor_test VALUES (1, 'widget', 9.99)''))) (\<lambda>insert_result.
     io_bind (check ''insert_result'' (rows_affected insert_result = 1)) (\<lambda>_.
     case dec_from_str dec (lit ''19.50'') of
       Inl e \<Rightarrow> io_fail (Panicked ''called Result::unwrap() on an Err value'')
     | Inr price \<Rightarrow>
     (let bound_insert = bind_value (encode_decimal (dec_to_string dec)) price
            (bind_value encode_string (lit ''gadget'')
              (bind_value encode_integer (2 :: 32 word) (Inr arguments_new))) in
     io_bind (expect ''bound INSERT should succeed'' (execute ex (fetch_many t conn
       (lit ''INSERT INTO sqlx_monetdb_executor_test VALUES (?, ?, ?)'') (res_map Some bound_insert))))
       (\<lambda>bound_result.
     io_bind (check ''bound_result'' (rows_affected bound_result = 1)) (\<lambda>_.
     io_bind (expect ''SELECT should succeed'' (fetch_all ex (plain t conn
       ''SELECT id, name, price FROM sqlx_monetdb_executor_test ORDER BY id''))) (\<lambda>rows.
     io_bind (check ''rows.len()'' (length rows = 2)) (\<lambda>_.
     io_bind (unwrapped (get_i32 0 (rows ! 0)) (\<lambda>x. x = 1)) (\<lambda>_.
     io_bind (unwrapped (get_string_named (lit ''name'') (rows ! 0)) (\<lambda>x. x = lit ''widget'')) (\<lambda>_.
     io_bind (unwrapped (get_decimal 2 (rows ! 0)) (is_decimal dec ''9.99'')) (\<lambda>_.
     io_bind (unwrapped (get_i32 0 (rows ! 1)) (\<lambda>x. x = 2)) (\<lambda>_.
     io_bind (unwrapped (get_string_named (lit ''name'') (rows ! 1)) (\<lambda>x. x = lit ''gadget'')) (\<lambda>_.
     let one = bind_value encode_integer (2 :: 32 word) (Inr arguments_new) in
     io_bind (expect ''fetch_one should find exactly one row'' (fetch_one ex (fetch_optional t conn
       (lit ''SELECT name FROM sqlx_monetdb_executor_test WHERE id = ?'') (res_map Some one)))) (\<lambda>row.
     io_bind (unwrapped (get_string 0 row) (\<lambda>x. x = lit ''gadget'')) (\<lambda>_.
     io_bind (expect ''UPDATE should succeed'' (execute ex (plain t conn
       ''UPDATE sqlx_monetdb_executor_test SET price = 12.00 WHERE id = 1''))) (\<lambda>update_result.
     io_bind (check ''update_result'' (rows_affected update_result = 1)) (\<lambda>_.
     io_bind (expect ''DELETE should succeed'' (execute ex (plain t conn
       ''DELETE FROM sqlx_monetdb_executor_test WHERE id = 2''))) (\<lambda>delete_result.
     io_bind (check ''delete_result'' (rows_affected delete_result = 1)) (\<lambda>_.
     io_bind (expect_error ''querying a nonexistent table should fail'' (fetch_all ex (plain t conn
       ''SELECT * FROM no_such_table_at_all''))) (\<lambda>error.
     io_bind (check ''error'' (case error of SqlxDatabase e \<Rightarrow> True | _ \<Rightarrow> False)) (\<lambda>_.
     io_bind (expect ''cleanup DROP TABLE should succeed'' (execute ex (plain t conn
       ''DROP TABLE sqlx_monetdb_executor_test''))) (\<lambda>_.
     expect ''close should succeed'' (connection_close t conn)))))))))))))))))))))))))))"

text \<open>The statement that inserts the numbers from 0 to 4999.\<close>

definition ROW_COUNT :: nat where
  "ROW_COUNT = 5000"

definition bulk_insert :: rstr where
  "bulk_insert = lit ''INSERT INTO sqlx_monetdb_truncation_test VALUES '' @
     join (lit '', '') (map (\<lambda>n. lit ''('' @ show_nat n @ lit '')'') [0..<ROW_COUNT])"

definition large_result_set_is_not_silently_truncated ::
    "('w, 's) transport \<Rightarrow> digests \<Rightarrow> 'l \<Rightarrow> 'w executor \<Rightarrow> rstr option \<Rightarrow> ('w, unit) io" where
  "large_result_set_is_not_silently_truncated t d log_default ex env =
     io_bind (test_port env) (\<lambda>port.
     io_bind (docker_connect t d log_default port) (\<lambda>conn.
     io_bind (ignored (execute ex (plain t conn ''DROP TABLE sqlx_monetdb_truncation_test''))) (\<lambda>_.
     io_bind (expect ''CREATE TABLE should succeed'' (execute ex (plain t conn
       ''CREATE TABLE sqlx_monetdb_truncation_test (n INT)''))) (\<lambda>_.
     io_bind (expect ''bulk INSERT should succeed''
       (execute ex (fetch_many t conn bulk_insert (Inr None)))) (\<lambda>_.
     io_bind (expect ''SELECT should succeed'' (fetch_all ex (plain t conn
       ''SELECT n FROM sqlx_monetdb_truncation_test''))) (\<lambda>rows.
     io_bind (expect ''cleanup DROP TABLE should succeed'' (execute ex (plain t conn
       ''DROP TABLE sqlx_monetdb_truncation_test''))) (\<lambda>_.
     check ''large result sets are being silently truncated'' (length rows = ROW_COUNT))))))))"

section \<open>What sqlx documents\<close>

text \<open>\<open>try_get\<close> decodes the raw value if the type of the column is compatible; \<open>Option\<close> adds NULL.\<close>

definition getter ::
    "('i \<Rightarrow> monet_row \<Rightarrow> sqlx_error + nat) \<Rightarrow> (monet_type_info \<Rightarrow> bool) \<Rightarrow> 'a decoder \<Rightarrow>
     ('i, 'a) get \<Rightarrow> bool" where
  "getter index compatible decode get \<longleftrightarrow>
     (\<forall>i row v x. try_get_raw index i row = Inr v \<longrightarrow> \<not> value_ref_is_null v \<longrightarrow>
        compatible (value_ref_type_info v) \<longrightarrow> decode v = Inr x \<longrightarrow> get i row = Inr x)"

definition null_getter ::
    "('i \<Rightarrow> monet_row \<Rightarrow> sqlx_error + nat) \<Rightarrow> ('i, 'a option) get \<Rightarrow> bool" where
  "null_getter index get \<longleftrightarrow>
     (\<forall>i row v. try_get_raw index i row = Inr v \<longrightarrow> value_ref_is_null v \<longrightarrow> get i row = Inr None)"

text \<open>
  \<open>execute\<close> collects the results of the items, \<open>fetch_all\<close> the rows, each up to the first error;
  \<open>fetch_one\<close> is the row \<open>fetch_optional\<close> finds.
\<close>

definition executor_ok :: "'w executor \<Rightarrow> bool" where
  "executor_ok ex \<longleftrightarrow>
     (\<forall>m w rows q w'. m w = Some (Inr (map (\<lambda>row. Inr (Inr row)) rows @ [Inr (Inl q)]), w') \<longrightarrow>
        execute ex m w = Some (Inr (extend_query_result monet_query_result_default [q]), w') \<and>
        fetch_all ex m w = Some (Inr rows, w')) \<and>
     (\<forall>m w e w'. m w = Some (Inr [Inl e], w') \<longrightarrow>
        execute ex m w = Some (Inl (Failed e), w') \<and> fetch_all ex m w = Some (Inl (Failed e), w')) \<and>
     (\<forall>m w row w'. m w = Some (Inr (Some row), w') \<longrightarrow> fetch_one ex m w = Some (Inr row, w'))"

section \<open>A query through the executor\<close>

fun affected :: "query_response \<Rightarrow> u64" where
  "affected (QTable table) = row_count table"
| "affected (QUpdate n _) = n"
| "affected _ = 0"

fun response_rows :: "query_response \<Rightarrow> monet_row list" where
  "response_rows (QTable table) = from_table_result table"
| "response_rows _ = []"

lemma run_answered:
  assumes "execute_query t s sql w = Some (Inr r, w')"
    and "(case arguments of Some args \<Rightarrow> substitute_into args given | None \<Rightarrow> Inr given) = Inr sql"
  shows "fetch_many t (connection_new s) given (Inr arguments) w =
    Some (Inr (map (\<lambda>row. Inr (Inr row)) (response_rows r) @ [Inr (Inl \<lparr>rows_affected = affected r\<rparr>)]), w')"
  using assms
  by (cases r) (simp_all add: fetch_many_def run_query_def connection_new_def io_bind_def io_match_def
      io_return_def Let_def monet_query_result_default_def)

lemma run_failed:
  assumes "execute_query t s sql w = Some (Inl (Failed e), w')"
  shows "fetch_many t (connection_new s) sql (Inr None) w = Some (Inr [Inl e], w')"
  using assms by (simp add: fetch_many_def run_query_def connection_new_def io_bind_def io_match_def
      io_return_def)

lemma extend_one: "extend_query_result monet_query_result_default [q] = q"
  by (simp add: extend_query_result_def monet_query_result_default_def)

lemma executed:
  assumes "executor_ok ex" "execute_query t s sql w = Some (Inr r, w')"
    and "(case arguments of Some args \<Rightarrow> substitute_into args given | None \<Rightarrow> Inr given) = Inr sql"
  shows "execute ex (fetch_many t (connection_new s) given (Inr arguments)) w =
      Some (Inr \<lparr>rows_affected = affected r\<rparr>, w')"
    and "fetch_all ex (fetch_many t (connection_new s) given (Inr arguments)) w =
      Some (Inr (response_rows r), w')"
  using assms(1) run_answered [OF assms(2,3)] unfolding executor_ok_def by (simp_all add: extend_one)

lemma executed_plain:
  assumes "executor_ok ex" "execute_query t s (lit sql) w = Some (Inr r, w')"
  shows "execute ex (plain t (connection_new s) sql) w = Some (Inr \<lparr>rows_affected = affected r\<rparr>, w')"
    and "fetch_all ex (plain t (connection_new s) sql) w = Some (Inr (response_rows r), w')"
  using executed [OF assms, where arguments = None and given = "lit sql"] by (simp_all add: plain_def)

lemma failed_plain:
  assumes "executor_ok ex" "execute_query t s (lit sql) w = Some (Inl (Failed e), w')"
  shows "execute ex (plain t (connection_new s) sql) w = Some (Inl (Failed e), w')"
    and "fetch_all ex (plain t (connection_new s) sql) w = Some (Inl (Failed e), w')"
  using assms(1) run_failed [OF assms(2)] unfolding executor_ok_def plain_def by simp_all

lemma ignored_plain:
  assumes "executor_ok ex" "execute_query t s (lit sql) w = Some (map_err (\<lambda>e. Failed (g e)) r, w')"
  shows "ignored (execute ex (plain t (connection_new s) sql)) w = Some (Inr (), w')"
  using executed_plain(1) [OF assms(1), of t s sql w] failed_plain(1) [OF assms(1), of t s sql w] assms(2)
  by (cases r) (simp_all add: ignored_def io_bind_def io_match_def io_return_def)

lemma fetched_one:
  assumes "executor_ok ex" "execute_query t s sql w = Some (Inr r, w')"
    and "substitute_into args given = Inr sql" and "response_rows r = row # others"
  shows "fetch_one ex (fetch_optional t (connection_new s) given (Inr (Some args))) w = Some (Inr row, w')"
proof -
  have "fetch_optional t (connection_new s) given (Inr (Some args)) w = Some (Inr (Some row), w')"
    using run_answered [OF assms(2), where arguments = "Some args" and given = given] assms(3,4)
    by (simp add: fetch_optional_def io_bind_def io_lift_def)
  with assms(1) show ?thesis unfolding executor_ok_def by blast
qed

section \<open>Reading a cell\<close>

lemma cell_read:
  assumes "getter index_usize ok dec get" and "r < length (rows t)" "i < length (columns t)"
    and "i < length (rows t ! r)" "rows t ! r ! i = Some c"
    and "ok (monet_type_info_new (cm_type_name (columns t ! i)))"
    and "dec (value_ref_new c (monet_type_info_new (cm_type_name (columns t ! i)))) = Inr x"
  shows "get i (from_table_result t ! r) = Inr x"
proof -
  let ?v = "value_ref_new c (monet_type_info_new (cm_type_name (columns t ! i)))"
  have "try_get_raw index_usize i (from_table_result t ! r) = Inr ?v"
    using read_position [OF assms(2), of i] assms(3-5) by (simp add: value_ref_new_def)
  moreover have "\<not> value_ref_is_null ?v" "ok (value_ref_type_info ?v)"
    using assms(6) by (simp_all add: value_ref_is_null_def value_ref_type_info_def value_ref_new_def)
  ultimately show ?thesis using assms(1,7) unfolding getter_def by blast
qed

lemma null_read:
  assumes "null_getter index_usize get" and "r < length (rows t)" "i < length (columns t)"
    and "i < length (rows t ! r)" "rows t ! r ! i = None"
  shows "get i (from_table_result t ! r) = Inr None"
proof -
  let ?v = "\<lparr>vr_data = None, vr_type_info = monet_type_info_new (cm_type_name (columns t ! i))\<rparr>"
  have "try_get_raw index_usize i (from_table_result t ! r) = Inr ?v"
    using read_position [OF assms(2), of i] assms(3-5) by simp
  moreover have "value_ref_is_null ?v" by (simp add: value_ref_is_null_def)
  ultimately show ?thesis using assms(1) unfolding null_getter_def by blast
qed

section \<open>Decoding the rows of the test\<close>

definition decode_table :: "table_result \<Rightarrow> bool" where
  "decode_table table \<longleftrightarrow>
     map cm_type_name (columns table) = map lit [''int'', ''varchar'', ''decimal'', ''boolean''] \<and>
     rows table =
       [[Some (lit ''1''), Some (lit ''widget''), Some (lit ''9.99''), Some (lit ''true'')],
        [Some (lit ''2''), None, Some (lit ''100.50''), Some (lit ''false'')]]"

text \<open>What the tests read with.\<close>

definition getters_ok ::
    "'d decimal \<Rightarrow> (nat, 32 word) get \<Rightarrow> (nat, rstr) get \<Rightarrow> (nat, 'd) get \<Rightarrow> bool" where
  "getters_ok dec get_i32 get_string get_decimal \<longleftrightarrow>
     getter index_usize compatible_i32 decode_integer get_i32 \<and>
     getter index_usize compatible_string decode_string get_string \<and>
     getter index_usize compatible_decimal (decode_decimal (dec_from_str dec)) get_decimal"

lemma decode_cells:
  assumes "decode_table table" and "getters_ok dec get_i32 get_string get_decimal"
    and "getter index_usize compatible_bool decode_bool get_bool"
    and "null_getter index_usize get_opt_string"
    and "dec_from_str dec (lit ''9.99'') = Inr p" and "dec_from_str dec (lit ''100.50'') = Inr q"
  shows "get_i32 0 (from_table_result table ! 0) = Inr 1"
    and "get_string 1 (from_table_result table ! 0) = Inr (lit ''widget'')"
    and "get_decimal 2 (from_table_result table ! 0) = Inr p"
    and "get_bool 3 (from_table_result table ! 0) = Inr True"
    and "get_i32 0 (from_table_result table ! 1) = Inr 2"
    and "get_opt_string 1 (from_table_result table ! 1) = Inr None"
    and "get_decimal 2 (from_table_result table ! 1) = Inr q"
    and "get_bool 3 (from_table_result table ! 1) = Inr False"
proof -
  have "map cm_type_name (columns table) = map lit [''int'', ''varchar'', ''decimal'', ''boolean'']"
    using assms(1) by (simp only: decode_table_def)
  then obtain a b c d where cols: "columns table = [a, b, c, d]"
    and ty: "cm_type_name a = lit ''int''" "cm_type_name b = lit ''varchar''"
      "cm_type_name c = lit ''decimal''" "cm_type_name d = lit ''boolean''"
    by (auto simp: map_eq_Cons_conv simp del: lit.simps)
  have r: "rows table =
       [[Some (lit ''1''), Some (lit ''widget''), Some (lit ''9.99''), Some (lit ''true'')],
        [Some (lit ''2''), None, Some (lit ''100.50''), Some (lit ''false'')]]"
    using assms(1) by (simp only: decode_table_def)
  have i: "getter index_usize compatible_i32 decode_integer get_i32"
    and str: "getter index_usize compatible_string decode_string get_string"
    and dec: "getter index_usize compatible_decimal (decode_decimal (dec_from_str dec)) get_decimal"
    using assms(2) by (simp_all only: getters_ok_def)
  note run = cols ty r run_simps compatible_i32_def compatible_string_def STRING_TYPE_NAMES_def
    compatible_decimal_def decode_decimal_def decode_parsed_def compatible_bool_def
  show "get_i32 0 (from_table_result table ! 0) = Inr 1"
    by (rule cell_read [OF i, where c = "lit ''1''"]) (simp_all add: run)
  show "get_i32 0 (from_table_result table ! 1) = Inr 2"
    by (rule cell_read [OF i, where c = "lit ''2''"]) (simp_all add: run)
  show "get_string 1 (from_table_result table ! 0) = Inr (lit ''widget'')"
    by (rule cell_read [OF str, where c = "lit ''widget''"]) (simp_all add: run)
  show "get_decimal 2 (from_table_result table ! 0) = Inr p"
    by (rule cell_read [OF dec, where c = "lit ''9.99''"]) (use assms(5) in \<open>simp_all add: run\<close>)
  show "get_decimal 2 (from_table_result table ! 1) = Inr q"
    by (rule cell_read [OF dec, where c = "lit ''100.50''"]) (use assms(6) in \<open>simp_all add: run\<close>)
  show "get_bool 3 (from_table_result table ! 0) = Inr True"
    by (rule cell_read [OF assms(3), where c = "lit ''true''"]) (simp_all add: run)
  show "get_bool 3 (from_table_result table ! 1) = Inr False"
    by (rule cell_read [OF assms(3), where c = "lit ''false''"]) (simp_all add: run)
  show "get_opt_string 1 (from_table_result table ! 1) = Inr None"
    by (rule null_read [OF assms(4)]) (simp_all add: cols r)
qed


text \<open>The test of \<open>row.rs\<close> passes if the server gives the rows that were inserted.\<close>

lemma real_rows_pass:
  assumes port: "test_port env w = Some (Inr port, w)"
    and login: "perform_handshake t d (lit ''127.0.0.1'') port (lit ''monetdb'') (lit ''monetdb'')
      (lit ''monetdb'') w = Some (Inr s, w1)"
    and run: "answered t s
      [''DROP TABLE sqlx_monetdb_row_decode_test'',
       ''CREATE TABLE sqlx_monetdb_row_decode_test (id INT, name VARCHAR(50), price DECIMAL(10,2), active BOOLEAN)'',
       ''INSERT INTO sqlx_monetdb_row_decode_test VALUES (1, 'widget', 9.99, true), (2, NULL, 100.50, false)'',
       ''SELECT id, name, price, active FROM sqlx_monetdb_row_decode_test ORDER BY id'',
       ''DROP TABLE sqlx_monetdb_row_decode_test''] [dropped, created, inserted, selected, cleaned] w1 w'"
    and p: "parse_response created = Inr r1" "parse_response inserted = Inr r2"
      "parse_response selected = Inr (QTable table)" "parse_response cleaned = Inr r4"
    and dec: "dec_from_str dec (lit ''9.99'') = Inr x" "dec_from_str dec (lit ''100.50'') = Inr y"
    and get: "getters_ok dec get_i32 get_string get_decimal"
      "getter index_usize compatible_bool decode_bool get_bool" "null_getter index_usize get_opt_string"
    and table: "decode_table table"
  shows "decodes_real_rows_into_rust_types t d dec get_i32 get_string get_opt_string get_decimal
    get_bool env w = Some (Inr (), w')"
proof -
  have two: "length (from_table_result table) = 2" using table by (simp add: decode_table_def)
  note cells = decode_cells [OF table get(1-3) dec]
  show ?thesis
    using run unfolding answered.simps p map_err.simps
  proof (elim exE conjE, goal_cases)
    case (1 a0 a1 a2 a3 a4)
    show ?case
      by (simp only: decodes_real_rows_into_rust_types_def test_steps port login
          ignored_query [OF 1(1)] 1(2-) two Let_def unwrapped_def cells is_decimal_def dec not_False_eq_True)
  qed
qed

text \<open>The test of the large result passes if the server gives all rows.\<close>

lemma large_result_passes:
  assumes port: "test_port env w = Some (Inr port, w)"
    and con: "docker_connect t d l port w = Some (Inr (connection_new s), w1)"
    and ex: "executor_ok ex"
    and q: "execute_query t s (lit ''DROP TABLE sqlx_monetdb_truncation_test'') w1 =
        Some (map_err (\<lambda>e. Failed (sqlx_from_response e)) r0, w2)"
      "execute_query t s (lit ''CREATE TABLE sqlx_monetdb_truncation_test (n INT)'') w2 = Some (Inr r1, w3)"
      "execute_query t s bulk_insert w3 = Some (Inr r2, w4)"
      "execute_query t s (lit ''SELECT n FROM sqlx_monetdb_truncation_test'') w4 =
        Some (Inr (QTable table), w5)"
      "execute_query t s (lit ''DROP TABLE sqlx_monetdb_truncation_test'') w5 = Some (Inr r4, w6)"
    and "length (rows table) = 5000"
  shows "large_result_set_is_not_silently_truncated t d l ex env w = Some (Inr (), w6)"
proof -
  have bulk: "execute ex (fetch_many t (connection_new s) bulk_insert (Inr None)) w3 =
      Some (Inr \<lparr>rows_affected = affected r2\<rparr>, w4)"
    by (rule executed(1) [OF ex q(3)]) simp
  have n: "length (response_rows (QTable table)) = ROW_COUNT"
    using assms(9) by (simp add: ROW_COUNT_def)
  show ?thesis
    by (simp only: large_result_set_is_not_silently_truncated_def test_steps port con
        ignored_plain [OF ex q(1)] executed_plain [OF ex q(2)] bulk executed_plain [OF ex q(4)]
        executed_plain [OF ex q(5)] n)
qed

section \<open>The cycle through the executor\<close>

text \<open>What the server is sent: the values bound to question marks are literals in their places.\<close>

definition executor_statements :: "string list" where
  "executor_statements =
     [''SELECT 1'',
      ''DROP TABLE sqlx_monetdb_executor_test'',
      ''CREATE TABLE sqlx_monetdb_executor_test (id INT, name VARCHAR(50), price DECIMAL(10,2))'',
      ''INSERT INTO sqlx_monetdb_executor_test VALUES (1, 'widget', 9.99)'',
      ''INSERT INTO sqlx_monetdb_executor_test VALUES (2, 'gadget', 19.50)'',
      ''SELECT id, name, price FROM sqlx_monetdb_executor_test ORDER BY id'',
      ''SELECT name FROM sqlx_monetdb_executor_test WHERE id = 2'',
      ''UPDATE sqlx_monetdb_executor_test SET price = 12.00 WHERE id = 1'',
      ''DELETE FROM sqlx_monetdb_executor_test WHERE id = 2'',
      ''SELECT * FROM no_such_table_at_all'',
      ''DROP TABLE sqlx_monetdb_executor_test'']"

definition executor_table :: "table_result \<Rightarrow> bool" where
  "executor_table table \<longleftrightarrow>
     map cm_name (columns table) = map lit [''id'', ''name'', ''price''] \<and>
     map cm_type_name (columns table) = map lit [''int'', ''varchar'', ''decimal''] \<and>
     rows table = [[Some (lit ''1''), Some (lit ''widget''), Some (lit ''9.99'')],
       [Some (lit ''2''), Some (lit ''gadget''), Some (lit ''19.50'')]]"

definition name_table :: "table_result \<Rightarrow> bool" where
  "name_table table \<longleftrightarrow> map cm_type_name (columns table) = [lit ''varchar''] \<and>
     rows table = [[Some (lit ''gadget'')]]"

fun executor_answers :: "rstr list \<Rightarrow> bool" where
  "executor_answers [pong, dropped, created, inserted, bound, selected, named, updated, deleted,
       missing, cleaned] \<longleftrightarrow>
     (\<exists>r. parse_response pong = Inr r) \<and> (\<exists>r. parse_response created = Inr r) \<and>
     (\<exists>r. parse_response inserted = Inr r \<and> affected r = 1) \<and>
     (\<exists>r. parse_response bound = Inr r \<and> affected r = 1) \<and>
     (\<exists>table. parse_response selected = Inr (QTable table) \<and> executor_table table) \<and>
     (\<exists>table. parse_response named = Inr (QTable table) \<and> name_table table) \<and>
     (\<exists>r. parse_response updated = Inr r \<and> affected r = 1) \<and>
     (\<exists>r. parse_response deleted = Inr r \<and> affected r = 1) \<and>
     (\<exists>e. parse_response missing = Inl (ResponseDatabase e)) \<and>
     (\<exists>r. parse_response cleaned = Inr r)"
| "executor_answers _ \<longleftrightarrow> False"

lemma cell_read_named:
  assumes "getter index_str ok dec get" and "r < length (rows t)" "i < length (columns t)"
    and "i < length (rows t ! r)" "rows t ! r ! i = Some c"
    and "find (\<lambda>i. cm_name (columns t ! i) = n) [0 ..< length (columns t)] = Some i"
    and "ok (monet_type_info_new (cm_type_name (columns t ! i)))"
    and "dec (value_ref_new c (monet_type_info_new (cm_type_name (columns t ! i)))) = Inr x"
  shows "get n (from_table_result t ! r) = Inr x"
proof -
  let ?v = "value_ref_new c (monet_type_info_new (cm_type_name (columns t ! i)))"
  have "try_get_raw index_str n (from_table_result t ! r) = Inr ?v"
    using row_access_by_name [OF assms(2), of n] read_position [OF assms(2), of i] assms(3-6)
    by (simp add: value_ref_new_def)
  moreover have "\<not> value_ref_is_null ?v" "ok (value_ref_type_info ?v)"
    using assms(7) by (simp_all add: value_ref_is_null_def value_ref_type_info_def value_ref_new_def)
  ultimately show ?thesis using assms(1,8) unfolding getter_def by blast
qed

lemma executor_cells:
  assumes "executor_table table" and "getters_ok dec get_i32 get_string get_decimal"
    and "getter index_str compatible_string decode_string get_named"
    and "dec_from_str dec (lit ''9.99'') = Inr p"
  shows "get_i32 0 (from_table_result table ! 0) = Inr 1"
    and "get_named (lit ''name'') (from_table_result table ! 0) = Inr (lit ''widget'')"
    and "get_decimal 2 (from_table_result table ! 0) = Inr p"
    and "get_i32 0 (from_table_result table ! 1) = Inr 2"
    and "get_named (lit ''name'') (from_table_result table ! 1) = Inr (lit ''gadget'')"
proof -
  have "map cm_type_name (columns table) = map lit [''int'', ''varchar'', ''decimal'']"
    "map cm_name (columns table) = map lit [''id'', ''name'', ''price'']"
    using assms(1) by (simp_all only: executor_table_def)
  then obtain a b c where cols: "columns table = [a, b, c]"
    and ty: "cm_type_name a = lit ''int''" "cm_type_name b = lit ''varchar''"
      "cm_type_name c = lit ''decimal''"
    and names: "cm_name a = lit ''id''" "cm_name b = lit ''name''"
    by (auto simp: map_eq_Cons_conv simp del: lit.simps)
  have r: "rows table = [[Some (lit ''1''), Some (lit ''widget''), Some (lit ''9.99'')],
       [Some (lit ''2''), Some (lit ''gadget''), Some (lit ''19.50'')]]"
    using assms(1) by (simp only: executor_table_def)
  have i: "getter index_usize compatible_i32 decode_integer get_i32"
    and dec: "getter index_usize compatible_decimal (decode_decimal (dec_from_str dec)) get_decimal"
    using assms(2) by (simp_all only: getters_ok_def)
  note run = cols ty r run_simps compatible_i32_def compatible_string_def STRING_TYPE_NAMES_def
    compatible_decimal_def decode_decimal_def decode_parsed_def names upt_rec
  show "get_i32 0 (from_table_result table ! 0) = Inr 1"
    by (rule cell_read [OF i, where c = "lit ''1''"]) (simp_all add: run)
  show "get_i32 0 (from_table_result table ! 1) = Inr 2"
    by (rule cell_read [OF i, where c = "lit ''2''"]) (simp_all add: run)
  show "get_decimal 2 (from_table_result table ! 0) = Inr p"
    by (rule cell_read [OF dec, where c = "lit ''9.99''"]) (use assms(4) in \<open>simp_all add: run\<close>)
  show "get_named (lit ''name'') (from_table_result table ! 0) = Inr (lit ''widget'')"
    by (rule cell_read_named [OF assms(3), where i = 1 and c = "lit ''widget''"]) (simp_all add: run)
  show "get_named (lit ''name'') (from_table_result table ! 1) = Inr (lit ''gadget'')"
    by (rule cell_read_named [OF assms(3), where i = 1 and c = "lit ''gadget''"]) (simp_all add: run)
qed

lemma name_cell:
  assumes "name_table table" and "getters_ok dec get_i32 get_string get_decimal"
  shows "get_string 0 (from_table_result table ! 0) = Inr (lit ''gadget'')"
    and "response_rows (QTable table) = [from_table_result table ! 0]"
proof -
  from assms(1) obtain a where cols: "columns table = [a]" "cm_type_name a = lit ''varchar''"
    and r: "rows table = [[Some (lit ''gadget'')]]"
    unfolding name_table_def by (auto simp del: lit.simps)
  have str: "getter index_usize compatible_string decode_string get_string"
    using assms(2) by (simp only: getters_ok_def)
  show "get_string 0 (from_table_result table ! 0) = Inr (lit ''gadget'')"
    by (rule cell_read [OF str, where c = "lit ''gadget''"])
      (simp_all add: cols r run_simps compatible_string_def STRING_TYPE_NAMES_def)
  have "length (from_table_result table) = 1" using r by simp
  then show "response_rows (QTable table) = [from_table_result table ! 0]"
    by (simp add: list_eq_iff_nth_eq)
qed

text \<open>The bound values in the statements.\<close>

lemma add_literal:
  assumes "encode x [] = Inr (as_bytes l, IsNull_No)" "scalars l"
  shows "bind_value encode x (Inr args) = Inr (args\<lparr>literals := literals args @ [l]\<rparr>)"
  using assms by (simp add: bind_value_def arguments_add_def from_utf8_as_bytes)

lemma bound_two: "bind_value encode_integer (2 :: 32 word) (Inr arguments_new) = Inr \<lparr>literals = [lit ''2'']\<rparr>"
  using add_literal [of encode_integer "2 :: 32 word" "lit ''2''" arguments_new]
  by (simp add: encode_integer_def arguments_new_def run_simps scalar_def)

lemma bound_three:
  assumes "dec_to_string dec p = lit ''19.50''"
  shows "bind_value (encode_decimal (dec_to_string dec)) p
      (bind_value encode_string (lit ''gadget'')
        (bind_value encode_integer (2 :: 32 word) (Inr arguments_new))) =
    Inr \<lparr>literals = [lit ''2'', 39 # lit ''gadget'' @ [39], lit ''19.50'']\<rparr>"
proof -
  have "encode_string (lit ''gadget'') [] = Inr (as_bytes (39 # lit ''gadget'' @ [39]), IsNull_No)"
  proof -
    have "sql_string (lit ''gadget'') = 39 # lit ''gadget'' @ [39]"
      by (simp add: sql_string_def double_quote_def)
    then show ?thesis by (simp add: encode_string_def encode_string_literal_eq del: lit.simps)
  qed
  moreover have "encode_decimal (dec_to_string dec) p [] = Inr (as_bytes (lit ''19.50''), IsNull_No)"
    by (simp only: encode_decimal_def encode_shown_def assms append_Nil)
  moreover have "scalars (39 # lit ''gadget'' @ [39])" by (simp add: scalar_def)
  ultimately show ?thesis
    unfolding bound_two by (simp only: add_literal scalars_lit monet_arguments.simps append.simps)
qed

lemma substituted_three:
  "substitute_into \<lparr>literals = [lit ''2'', 39 # lit ''gadget'' @ [39], lit ''19.50'']\<rparr>
     (lit ''INSERT INTO sqlx_monetdb_executor_test VALUES (?, ?, ?)'') =
   Inr (lit ''INSERT INTO sqlx_monetdb_executor_test VALUES (2, 'gadget', 19.50)'')"
  by (simp add: substitute_into_def placeholders_def run_simps)

lemma substituted_two:
  "substitute_into \<lparr>literals = [lit ''2'']\<rparr>
     (lit ''SELECT name FROM sqlx_monetdb_executor_test WHERE id = ?'') =
   Inr (lit ''SELECT name FROM sqlx_monetdb_executor_test WHERE id = 2'')"
  by (simp add: substitute_into_def placeholders_def run_simps)

lemma executor_after_connect:
  assumes port: "test_port env w = Some (Inr port, w)"
    and con: "docker_connect t d l port w = Some (Inr (connection_new s), w1)"
    and ex: "executor_ok ex" and get: "getters_ok dec get_i32 get_string get_decimal"
      "getter index_str compatible_string decode_string get_named"
    and dec: "dec_from_str dec (lit ''9.99'') = Inr x" "dec_from_str dec (lit ''19.50'') = Inr p"
      "dec_to_string dec p = lit ''19.50''"
    and ans: "executor_answers replies" and run: "answered t s executor_statements replies w1 w2"
    and close: "connection_close t (connection_new s) w2 = Some (Inr (), w')"
  shows "full_sqlx_core_crud_cycle_against_docker_monetdb t d l ex dec get_i32 get_string get_named
    get_decimal env w = Some (Inr (), w')"
proof -
  from ans obtain q0 q1 q2 q3 q4 q5 q6 q7 q8 q9 q10 where
    r: "replies = [q0, q1, q2, q3, q4, q5, q6, q7, q8, q9, q10]"
    by (cases replies rule: executor_answers.cases) simp_all
  from ans obtain r0 r2 r3 r4 table one r7 r8 e r10 where
    p: "parse_response q0 = Inr r0" "parse_response q2 = Inr r2" "parse_response q3 = Inr r3"
      "parse_response q4 = Inr r4" "parse_response q5 = Inr (QTable table)"
      "parse_response q6 = Inr (QTable one)" "parse_response q7 = Inr r7"
      "parse_response q8 = Inr r8" "parse_response q9 = Inl (ResponseDatabase e)"
      "parse_response q10 = Inr r10"
    and n: "affected r3 = 1" "affected r4 = 1" "affected r7 = 1" "affected r8 = 1"
    and table: "executor_table table" and one: "name_table one"
    unfolding r executor_answers.simps by blast
  have two: "length (from_table_result table) = 2" using table by (simp add: executor_table_def)
  note cells = executor_cells [OF table get dec(1)] name_cell(1) [OF one get(1)]
  note bound = bound_two bound_three [OF dec(3), unfolded bound_two] res_map.simps
  show ?thesis
    using run unfolding r executor_statements_def answered.simps p map_err.simps
      sqlx_from_response.simps
  proof (elim exE conjE, goal_cases)
    case (1 a0 a1 a2 a3 a4 a5 a6 a7 a8 a9 a10)
    have ping: "connection_ping t (connection_new s) w1 = Some (Inr (), a0)"
      using 1(1) by (simp add: connection_ping_def connection_new_def io_bind_def io_return_def del: lit.simps)
    note x2 = executed_plain(1) [OF ex 1(3)] and x3 = executed_plain(1) [OF ex 1(4)]
      and x4 = executed(1) [OF ex 1(5), where arguments = "Some _", unfolded option.case, OF substituted_three]
      and x5 = executed_plain(2) [OF ex 1(6)]
      and x6 = fetched_one [OF ex 1(7) substituted_two name_cell(2) [OF one get(1)]]
      and x7 = executed_plain(1) [OF ex 1(8)] and x8 = executed_plain(1) [OF ex 1(9)]
      and x9 = failed_plain(2) [OF ex 1(10)] and x10 = executed_plain(1) [OF ex 1(11)]
    show ?case
      by (simp only: full_sqlx_core_crud_cycle_against_docker_monetdb_def test_steps port con ping
          ignored_plain [OF ex 1(2)] x2 x3 x4 x5 x6 x7 x8 x9 x10 n two Let_def dec bound
          unwrapped_def cells is_decimal_def monet_query_result.simps response_rows.simps
          sqlx_from_database_def close [unfolded 1(12)])
  qed
qed


lemma docker_connected:
  assumes "perform_handshake t d (lit ''127.0.0.1'') port (lit ''monetdb'') (lit ''monetdb'')
      (lit ''monetdb'') w = Some (Inr s, w1)"
  shows "docker_connect t d l port w = Some (Inr (connection_new s), w1)"
  by (simp add: docker_connect_def test_steps assms options_new_def options_default_def set_host_def
      set_port_def set_username_def set_password_def set_database_def options_connect_def
      del: lit.simps)

text \<open>C4: The acceptance test of the executor passes against every server that
  plays its part, whatever sqlx's own methods are as long as they do what sqlx documents: from the
  options to a connection, a ping, statements with and without bound values, rows read as integers,
  strings and decimals by position and by name, one row of many, an error of the server, and
  closing. The server is sent, in order, the login and the eleven statements, with the literals
  of the bound values in place of their question marks, and nothing else before the close.\<close>

theorem acceptance_executor:
  assumes "test_port env w = Some (Inr port, w)"
    and "t_connect t (lit ''127.0.0.1'') port w = Some (Inr s, w1)"
    and "healthy t s incoming outgoing"
    and "incoming w1 = text_message line @ text_message answer @ text_message reply @
      concat (map text_message replies) @ rest"
    and "scalars line" and "scalars answer" and "scalars reply" and "list_all scalars replies"
    and "parse_challenge line = Inr chal"
    and "compute_password_hash d chal (lit ''monetdb'') = Inr hash"
    and "parse_login_response answer = LoginOk" and "executor_answers replies"
    and "\<And>w. \<exists>w'. connection_close t (connection_new s) w = Some (Inr (), w')"
    and "executor_ok ex" and "getters_ok dec get_i32 get_string get_decimal"
    and "getter index_str compatible_string decode_string get_named"
    and "dec_from_str dec (lit ''9.99'') = Inr x" and "dec_from_str dec (lit ''19.50'') = Inr p"
    and "dec_to_string dec p = lit ''19.50''"
  shows "\<exists>w2 w'. full_sqlx_core_crud_cycle_against_docker_monetdb t d l ex dec get_i32 get_string
      get_named get_decimal env w = Some (Inr (), w') \<and>
    connection_close t (connection_new s) w2 = Some (Inr (), w') \<and>
    incoming w2 = rest \<and>
    outgoing w2 = outgoing w1 @ replicate 8 0 @
      text_message (build_login_response chal (lit ''monetdb'') (fst hash) (snd hash)
        (lit ''monetdb'') handshake_options_default) @
      text_message (lit ''Xreply_size -1'') @
      concat (map (\<lambda>sql. encode_message (encode_query (lit sql)) []) executor_statements)"
proof -
  obtain w0 where w0: "perform_handshake t d (lit ''127.0.0.1'') port (lit ''monetdb'')
      (lit ''monetdb'') (lit ''monetdb'') w = Some (Inr s, w0)"
    "incoming w0 = concat (map text_message replies) @ rest"
    "outgoing w0 = outgoing w1 @ replicate 8 0 @
      text_message (build_login_response chal (lit ''monetdb'') (fst hash) (snd hash)
        (lit ''monetdb'') handshake_options_default) @
      text_message (lit ''Xreply_size -1'')"
    by (rule test_login [OF assms(2-7,9-11)])
  have "length replies = length executor_statements"
    using assms(12) by (cases replies rule: executor_answers.cases) (simp_all add: executor_statements_def)
  from execute_replies [OF assms(3,8) this w0(2)] obtain w2 where run:
    "answered t s executor_statements replies w0 w2" "incoming w2 = rest"
    "outgoing w2 = outgoing w0 @
      concat (map (\<lambda>sql. encode_message (encode_query (lit sql)) []) executor_statements)" by blast
  obtain w' where w': "connection_close t (connection_new s) w2 = Some (Inr (), w')"
    using assms(13) by blast
  from executor_after_connect [OF assms(1) docker_connected [OF w0(1)] assms(14-19) assms(12) run(1) w']
    w' run(2,3) w0(3)
  show ?thesis by (intro exI [of _ w2] exI [of _ w']) (simp del: lit.simps)
qed

text \<open>Methods that do what sqlx documents, and decimals that keep their text.\<close>

fun results_of :: "query_item list \<Rightarrow> sqlx_error + monet_query_result list" where
  "results_of [] = Inr []"
| "results_of (Inl e # items) = Inl e"
| "results_of (Inr (Inl q) # items) = res_map (Cons q) (results_of items)"
| "results_of (Inr (Inr row) # items) = results_of items"

fun rows_of :: "query_item list \<Rightarrow> sqlx_error + monet_row list" where
  "rows_of [] = Inr []"
| "rows_of (Inl e # items) = Inl e"
| "rows_of (Inr (Inl q) # items) = rows_of items"
| "rows_of (Inr (Inr row) # items) = res_map (Cons row) (rows_of items)"

definition sample_executor :: "'w executor" where
  "sample_executor =
     \<lparr>execute = (\<lambda>m. io_bind m (\<lambda>items. io_lift (\<lambda>e. e)
        (res_map (extend_query_result monet_query_result_default) (results_of items)))),
      fetch_all = (\<lambda>m. io_bind m (\<lambda>items. io_lift (\<lambda>e. e) (rows_of items))),
      fetch_one = (\<lambda>m. io_bind m (\<lambda>row. case row of Some row \<Rightarrow> io_return row
        | None \<Rightarrow> io_fail (Failed (SqlxProtocol []))))\<rparr>"

definition sample_get ::
    "('i \<Rightarrow> monet_row \<Rightarrow> sqlx_error + nat) \<Rightarrow> 'a decoder \<Rightarrow> ('i, 'a) get" where
  "sample_get index decode i row = res_bind (try_get_raw index i row) (\<lambda>v.
     map_err (\<lambda>e. Failed (SqlxProtocol [])) (decode v))"

definition text_decimal :: "rstr decimal" where
  "text_decimal = \<lparr>dec_from_str = Inr, dec_to_string = (\<lambda>x. x)\<rparr>"

lemma items_collected:
  "results_of (map (\<lambda>row. Inr (Inr row)) rs @ [Inr (Inl q)]) = Inr [q]"
  "rows_of (map (\<lambda>row. Inr (Inr row)) rs @ [Inr (Inl q)]) = Inr rs"
  by (induction rs) simp_all

lemma sample_executor_ok: "executor_ok sample_executor"
  by (simp add: executor_ok_def sample_executor_def io_bind_def io_lift_def items_collected io_return_def)

lemma sample_getter: "getter index compatible decode (sample_get index decode)"
  by (simp add: getter_def sample_get_def)

definition pong_reply :: rstr where
  "pong_reply = join [10]
     [lit ''&1 0 1 1 1'', lit ''% %2 # name'', lit ''% tinyint # type'', lit ''[ 1'' @ 9 # lit '']'']"

definition named_reply :: rstr where
  "named_reply = join [10]
     [lit ''&1 0 1 1 1'', lit ''% name # name'', lit ''% varchar # type'',
      lit ''[ '' @ 34 # lit ''gadget'' @ 34 # 9 # lit '']'']"

definition executor_replies :: "rstr list" where
  "executor_replies =
     [pong_reply, lit ''!42S02!DROP TABLE: no such table'', lit ''&3 0 0'', lit ''&2 1 -1'',
      lit ''&2 1 -1'', selected_reply, named_reply, lit ''&2 1 -1'', lit ''&2 1 -1'',
      lit ''!42S02!SELECT: no such table'', lit ''&3 0 0'']"

lemma executor_tables:
  "\<exists>r. parse_response pong_reply = Inr r"
  "\<exists>table. parse_response selected_reply = Inr (QTable table) \<and> executor_table table"
  "\<exists>table. parse_response named_reply = Inr (QTable table) \<and> name_table table"
  by (simp_all add: pong_reply_def selected_reply_def named_reply_def executor_table_def
      name_table_def run_simps)

lemma executor_replies_answer: "executor_answers executor_replies"
proof -
  have "affected (QUpdate 1 None) = 1" by simp
  with executor_tables plain_replies(4) show ?thesis
    unfolding executor_replies_def executor_answers.simps plain_replies(1-3) by blast
qed

lemma executor_replies_scalars: "list_all scalars executor_replies"
proof -
  have "scalars pong_reply" "scalars named_reply" "scalars selected_reply"
    by (simp_all add: pong_reply_def named_reply_def selected_reply_def scalar_def)
  then show ?thesis by (simp only: executor_replies_def list.pred_inject scalars_lit simp_thms)
qed

theorem acceptance_executor_witness:
  "\<exists>w'. full_sqlx_core_crud_cycle_against_docker_monetdb script_transport sample_digests ()
      sample_executor text_decimal (sample_get index_usize decode_integer)
      (sample_get index_usize decode_string) (sample_get index_str decode_string)
      (sample_get index_usize (decode_decimal (dec_from_str text_decimal))) None
      (one_server (lit ''127.0.0.1'') 50001
        (text_message sample_line @ text_message [] @ text_message [] @
         concat (map text_message executor_replies) @ [])) = Some (Inr (), w')"
proof -
  let ?in = "text_message sample_line @ text_message [] @ text_message [] @
         concat (map text_message executor_replies) @ []"
  let ?w = "one_server (lit ''127.0.0.1'') 50001 ?in"
  obtain w1 where w1: "t_connect script_transport (lit ''127.0.0.1'') 50001 ?w = Some (Inr 0, w1)"
    "script_in 0 w1 = ?in"
    using script_connect_one by blast
  obtain hash where hash: "compute_password_hash sample_digests sample_challenge (lit ''monetdb'') =
      Inr hash"
    using sample_hash by blast
  have line: "scalars sample_line" unfolding sample_line_def by (rule scalars_lit)
  have empty: "scalars []" "parse_login_response [] = LoginOk"
    by (simp_all add: parse_login_response_def)
  have close: "\<exists>w'. connection_close script_transport (connection_new 0) w = Some (Inr (), w')" for w
    by (simp add: connection_close_def connection_new_def io_bind_def io_os_def script_transport_def
        script_flush_def Let_def)
  have get: "getters_ok text_decimal (sample_get index_usize decode_integer)
      (sample_get index_usize decode_string)
      (sample_get index_usize (decode_decimal (dec_from_str text_decimal)))"
    unfolding getters_ok_def by (intro conjI sample_getter)
  have dec: "dec_from_str text_decimal (lit ''9.99'') = Inr (lit ''9.99'')"
    "dec_from_str text_decimal (lit ''19.50'') = Inr (lit ''19.50'')"
    "dec_to_string text_decimal (lit ''19.50'') = lit ''19.50''"
    by (simp_all only: text_decimal_def decimal.simps)
  from acceptance_executor [where l = "()", OF default_port w1(1) script_healthy w1(2) line empty(1,1)
      executor_replies_scalars sample_parse hash empty(2) executor_replies_answer close
      sample_executor_ok get sample_getter dec]
  show ?thesis by (elim exE conjE) (rule exI)
qed

end
