(* ===== verification/Tasks.thy ===== *)
theory Tasks
  imports Sessions
begin

text \<open>
  A query as the state machine its future is: what it holds at each \<open>await\<close>, and what one poll
  that makes progress does. The steps taken to the end are \<open>execute_query\<close>. Between two steps
  other queries may run on other connections (\<open>Interleaving\<close>), and a future may be dropped at any
  of them (\<open>Cancellation\<close>).
\<close>

section \<open>The states and steps of a query\<close>

text \<open>
  \<open>Created\<close>: not polled yet. \<open>Flushing\<close>: the request is in the write buffer, \<open>flush().await\<close>
  is pending. \<open>Header\<close> and \<open>Payload\<close>: the two \<open>read_buffered().await\<close> of the loop of
  \<open>read_message\<close>, with the message read so far.
\<close>

datatype task =
    Created rstr
  | Flushing
  | Header "u8 list"
  | Payload "u8 list" nat bool
  | Finished "sqlx_error fault + query_response"

definition query_result :: "u8 list \<Rightarrow> sqlx_error fault + query_response" where
  "query_result bytes =
     res_bind
       (map_err (\<lambda>e. Failed (sqlx_from_monet e))
         (ok_or (Protocol [Lit ''expected UTF-8 text message: '', DispUtf8 bytes])
           (from_utf8 bytes))) (\<lambda>text.
     map_err (\<lambda>e. Failed (sqlx_from_response e)) (parse_response text))"

text \<open>The end of the body of the loop.\<close>

definition next_block :: "u8 list \<Rightarrow> bool \<Rightarrow> task" where
  "next_block message is_last = (if is_last then Finished (query_result message) else Header message)"

fun task_step :: "('w, 's) transport \<Rightarrow> 's \<Rightarrow> task \<Rightarrow> 'w \<Rightarrow> (task \<times> 'w) option" where
  "task_step t s (Created sql) w =
     Some (Flushing, t_put_slice t s (encode_message (encode_query sql) []) w)"
| "task_step t s Flushing w =
     map_option (\<lambda>(r, w).
       (case r of Inl e \<Rightarrow> Finished (Inl (Failed (SqlxIo e))) | Inr _ \<Rightarrow> Header [], w)) (t_flush t s w)"
| "task_step t s (Header message) w =
     map_option (\<lambda>(r, w).
       (case r of
          Inl e \<Rightarrow> Finished (Inl (Failed (SqlxIo e)))
        | Inr header \<Rightarrow>
            if length header < 2 then Finished (Inl (Panicked ''index out of bounds''))
            else
              (case decode_header (header ! 0, header ! 1) of (len, is_last) \<Rightarrow>
                 if 0 < len then Payload message len is_last else next_block message is_last),
        w)) (t_read_buffered t s 2 w)"
| "task_step t s (Payload message len is_last) w =
     map_option (\<lambda>(r, w).
       (case r of
          Inl e \<Rightarrow> Finished (Inl (Failed (SqlxIo e)))
        | Inr payload \<Rightarrow> next_block (message @ payload) is_last, w)) (t_read_buffered t s len w)"
| "task_step t s (Finished r) w = None"

inductive task_steps ::
    "('w, 's) transport \<Rightarrow> 's \<Rightarrow> task \<Rightarrow> 'w \<Rightarrow> task \<Rightarrow> 'w \<Rightarrow> bool" for t s where
  stay: "task_steps t s k w k w"
| step: "task_step t s k w = Some (k1, w1) \<Longrightarrow> task_steps t s k1 w1 k2 w2 \<Longrightarrow>
     task_steps t s k w k2 w2"

section \<open>The steps are the query\<close>

lemma query_result_reply: "query_result bytes = reply_result bytes"
  by (cases "from_utf8 bytes") (simp_all add: query_result_def reply_result_def)

text \<open>What is left to do of a query.\<close>

definition conclude ::
    "((sqlx_error fault + u8 list) \<times> 'w) option \<Rightarrow> ((sqlx_error fault + query_response) \<times> 'w) option" where
  "conclude = map_option (\<lambda>(r, w). (res_bind r query_result, w))"

fun remaining ::
    "('w, 's) transport \<Rightarrow> 's \<Rightarrow> task \<Rightarrow> 'w \<Rightarrow> ((sqlx_error fault + query_response) \<times> 'w) option" where
  "remaining t s (Created sql) w = execute_query t s sql w"
| "remaining t s Flushing w =
     io_bind (io_os (t_flush t s)) (\<lambda>_ w. conclude (read_loop t s [] w)) w"
| "remaining t s (Header message) w = conclude (read_loop t s message w)"
| "remaining t s (Payload message len is_last) w =
     io_bind (io_os (t_read_buffered t s len)) (\<lambda>payload w.
       if is_last then Some (query_result (message @ payload), w)
       else conclude (read_loop t s (message @ payload) w)) w"
| "remaining t s (Finished r) w = Some (r, w)"

lemma remaining_next_block:
  "remaining t s (next_block m is_last) w =
     (if is_last then Some (query_result m, w) else conclude (read_loop t s m w))"
  by (simp add: next_block_def)

lemma execute_query_parts:
  "execute_query t s sql w =
     io_bind (io_os (t_flush t s)) (\<lambda>_ w. conclude (read_loop t s [] w))
       (t_put_slice t s (encode_message (encode_query sql) []) w)"
proof -
  have read: "io_bind (read_text_message t s) (\<lambda>text. io_lift sqlx_from_response (parse_response text)) w =
      conclude (read_loop t s [] w)" for w
    by (cases "read_loop t s [] w")
      (auto simp: read_text_message_def read_message_def io_bind_def io_lift_def conclude_def
        query_result_def split: sum.splits option.splits)
  show ?thesis
    by (cases "t_flush t s (t_put_slice t s (encode_message (encode_query sql) []) w)")
      (auto simp: execute_query_def write_message_def io_bind_def io_os_def put_slice_def
        read [unfolded io_bind_def] split: sum.splits)
qed

text \<open>The body of the loop of \<open>read_message\<close> with its \<open>?\<close>s spelled out, for any continuation \<open>f\<close>.\<close>

definition block_end :: "(u8 list \<Rightarrow> 'w \<Rightarrow> ((sqlx_error fault + u8 list) \<times> 'w) option) \<Rightarrow>
    u8 list \<Rightarrow> bool \<Rightarrow> 'w \<Rightarrow> ((sqlx_error fault + u8 list) \<times> 'w) option" where
  "block_end f m is_last w = (if is_last then Some (Inr m, w) else f m w)"

lemma loop_body:
  "Option.bind (io_os (t_read_buffered t s 2) w) (\<lambda>(r, w).
     case r of
       Inl e \<Rightarrow> Some (Inl e, w)
     | Inr header \<Rightarrow>
         if length header < 2 then Some (Inl (Panicked ''index out of bounds''), w)
         else
           (case decode_header (header ! 0, header ! 1) of (len, is_last) \<Rightarrow>
              Option.bind
                (if 0 < len
                 then
                   io_bind (io_os (t_read_buffered t s len)) (\<lambda>payload.
                     io_return (m @ payload)) w
                 else io_return m w) (\<lambda>(r, w).
                case r of
                  Inl e \<Rightarrow> Some (Inl e, w)
                | Inr message \<Rightarrow> if is_last then Some (Inr message, w) else f message w))) =
   (case t_read_buffered t s 2 w of
      None \<Rightarrow> None
    | Some (Inl e, w) \<Rightarrow> Some (Inl (Failed (SqlxIo e)), w)
    | Some (Inr header, w) \<Rightarrow>
        if length header < 2 then Some (Inl (Panicked ''index out of bounds''), w)
        else
          (case decode_header (header ! 0, header ! 1) of (len, is_last) \<Rightarrow>
             if 0 < len
             then
               (case t_read_buffered t s len w of
                  None \<Rightarrow> None
                | Some (Inl e, w) \<Rightarrow> Some (Inl (Failed (SqlxIo e)), w)
                | Some (Inr payload, w) \<Rightarrow> block_end f (m @ payload) is_last w)
             else block_end f m is_last w))"
  by (auto simp: io_os_def io_bind_def io_return_def block_end_def split: option.split sum.split prod.split)

lemmas read_loop_body = read_loop.simps [unfolded loop_body]

lemma conclude_end:
  "conclude (block_end (read_loop t s) m is_last w) = remaining t s (next_block m is_last) w"
  by (simp add: block_end_def next_block_def conclude_def)

lemma step_remaining:
  assumes "task_step t s k w = Some (k', w')"
  shows "remaining t s k w = remaining t s k' w'"
proof (cases k)
  case (Created sql)
  then show ?thesis using assms by (auto simp: execute_query_parts)
next
  case Flushing
  then obtain r where "t_flush t s w = Some (r, w')"
    "k' = (case r of Inl e \<Rightarrow> Finished (Inl (Failed (SqlxIo e))) | Inr _ \<Rightarrow> Header [])"
    using assms by auto
  then show ?thesis using Flushing by (cases r) (simp_all add: io_bind_def io_os_def)
next
  case (Header message)
  then obtain r where "t_read_buffered t s 2 w = Some (r, w')"
    "k' = (case r of
        Inl e \<Rightarrow> Finished (Inl (Failed (SqlxIo e)))
      | Inr header \<Rightarrow>
          if length header < 2 then Finished (Inl (Panicked ''index out of bounds''))
          else
            (case decode_header (header ! 0, header ! 1) of (len, is_last) \<Rightarrow>
               if 0 < len then Payload message len is_last else next_block message is_last))"
    using assms by auto
  then show ?thesis
    using Header read_loop_body [of t s message w]
    by (cases r) (auto simp: conclude_def io_bind_def io_os_def block_end_def remaining_next_block
        split: sum.splits option.splits prod.splits)
next
  case (Payload message len is_last)
  then obtain r where "t_read_buffered t s len w = Some (r, w')" using assms by auto
  then show ?thesis using assms Payload
    by (cases r) (auto simp: io_bind_def io_os_def next_block_def)
qed (use assms in simp)

lemma steps_remaining: "task_steps t s k w k' w' \<Longrightarrow> remaining t s k w = remaining t s k' w'"
  by (induction rule: task_steps.induct) (auto dest: step_remaining)

lemma steps_trans: "task_steps t s k w k1 w1 \<Longrightarrow> task_steps t s k1 w1 k2 w2 \<Longrightarrow> task_steps t s k w k2 w2"
  by (induction rule: task_steps.induct) (auto intro: task_steps.step)

lemma last_step: "task_step t s k w = Some (k', w') \<Longrightarrow> task_steps t s k w k' w'"
  by (rule task_steps.step) (auto intro: task_steps.stay)

text \<open>One round of the loop in steps, for a continuation \<open>f\<close> whose runs are steps.\<close>

lemma round_steps:
  assumes IH: "\<And>m w y. f m w = Some y \<Longrightarrow>
      task_steps t s (Header m) w (Finished (res_bind (fst y) query_result)) (snd y)"
    and eq: "(case t_read_buffered t s 2 w of
      None \<Rightarrow> None
    | Some (Inl e, w) \<Rightarrow> Some (Inl (Failed (SqlxIo e)), w)
    | Some (Inr header, w) \<Rightarrow>
        if length header < 2 then Some (Inl (Panicked ''index out of bounds''), w)
        else
          (case decode_header (header ! 0, header ! 1) of (len, is_last) \<Rightarrow>
             if 0 < len
             then
               (case t_read_buffered t s len w of
                  None \<Rightarrow> None
                | Some (Inl e, w) \<Rightarrow> Some (Inl (Failed (SqlxIo e)), w)
                | Some (Inr payload, w) \<Rightarrow> block_end f (m @ payload) is_last w)
             else block_end f m is_last w)) = Some y"
  shows "task_steps t s (Header m) w (Finished (res_bind (fst y) query_result)) (snd y)"
proof -
  let ?fin = "Finished (res_bind (fst y) query_result)"
  obtain r w1 where r: "t_read_buffered t s 2 w = Some (r, w1)"
    using eq by (cases "t_read_buffered t s 2 w") auto
  have block: "task_steps t s (next_block p last) w2 ?fin (snd y)"
    if "block_end f p last w2 = Some y" for p last w2
    using that IH by (auto simp: next_block_def block_end_def intro: task_steps.stay split: if_splits)
  show "task_steps t s (Header m) w ?fin (snd y)"
  proof (cases r)
    case (Inl e)
    then show ?thesis using r eq by (auto intro!: last_step)
  next
    case (Inr header)
    obtain len last where h: "decode_header (header ! 0, header ! 1) = (len, last)" by fastforce
    consider "length header < 2" | "2 \<le> length header" "len = 0" | "2 \<le> length header" "0 < len"
      by linarith
    then show ?thesis
    proof cases
      case 1
      then show ?thesis using r eq Inr by (auto intro!: last_step)
    next
      case 2
      then have "task_step t s (Header m) w = Some (next_block m last, w1)"
        "block_end f m last w1 = Some y" using r eq Inr h by simp_all
      then show ?thesis by (rule task_steps.step [OF _ block])
    next
      case 3
      then have "task_step t s (Header m) w = Some (Payload m len last, w1)"
        using r Inr h by simp
      moreover obtain r2 w2 where r2: "t_read_buffered t s len w1 = Some (r2, w2)"
        using r eq Inr h 3 by (cases "t_read_buffered t s len w1") auto
      have "task_steps t s (Payload m len last) w1 ?fin (snd y)"
      proof (cases r2)
        case Inl
        then show ?thesis using r eq Inr h 3 r2
          by (auto intro!: last_step)
      next
        case payload: (Inr payload)
        then have "task_step t s (Payload m len last) w1 = Some (next_block (m @ payload) last, w2)"
          "block_end f (m @ payload) last w2 = Some y" using r eq Inr h 3 r2 by simp_all
        then show ?thesis by (rule task_steps.step [OF _ block])
      qed
      ultimately show ?thesis by (rule task_steps.step)
    qed
  qed
qed

text \<open>The loop of \<open>read_message\<close> in steps, by induction on a run of it that returns.\<close>

lemma loop_steps:
  assumes "read_loop t s message w = Some y"
  shows "task_steps t s (Header message) w (Finished (res_bind (fst y) query_result)) (snd y)"
proof (rule read_loop.raw_induct [where P = "\<lambda>t s m w y.
    task_steps t s (Header m) w (Finished (res_bind (fst y) query_result)) (snd y)", OF _ assms],
    goal_cases)
  case (1 f t s m w y)
  show ?case by (rule round_steps [of "f t s", OF 1(1) 1(2) [unfolded loop_body]])
qed

lemma query_steps:
  assumes "execute_query t s sql w = Some (r, w')"
  shows "task_steps t s (Created sql) w (Finished r) w'"
proof -
  let ?w = "t_put_slice t s (encode_message (encode_query sql) []) w"
  have eq: "io_bind (io_os (t_flush t s)) (\<lambda>_ w. conclude (read_loop t s [] w)) ?w = Some (r, w')"
    using assms by (simp only: execute_query_parts)
  then obtain f w1 where f: "t_flush t s ?w = Some (f, w1)"
    by (cases "t_flush t s ?w") (auto simp: io_bind_def io_os_def)
  have "task_steps t s Flushing ?w (Finished r) w'"
  proof (cases f)
    case Inl
    then show ?thesis using f eq by (auto simp: io_bind_def io_os_def intro!: last_step)
  next
    case Inr
    with f eq obtain y where y: "read_loop t s [] w1 = Some y" "r = res_bind (fst y) query_result"
      "w' = snd y"
      by (auto simp: io_bind_def io_os_def conclude_def)
    have "task_step t s Flushing ?w = Some (Header [], w1)" using f Inr by simp
    then show ?thesis unfolding y(2,3) by (rule task_steps.step [OF _ loop_steps [OF y(1)]])
  qed
  then show ?thesis by (intro task_steps.step [of t s "Created sql" w Flushing ?w]) simp_all
qed

text \<open>C11: The future of a query, polled one \<open>await\<close> after the other, computes
  \<open>execute_query\<close>: it finishes with a result and a world exactly if the call returns them, over
  every transport, with every error and panic; and if the call never returns, the future never
  finishes.\<close>

theorem steps_are_the_query:
  "task_steps t s (Created sql) w (Finished r) w' \<longleftrightarrow> execute_query t s sql w = Some (r, w')"
proof
  assume "task_steps t s (Created sql) w (Finished r) w'"
  then show "execute_query t s sql w = Some (r, w')" by (auto dest!: steps_remaining)
qed (rule query_steps)

end
