(* ===== verification/Interleaving.thy ===== *)
theory Interleaving
  imports Tasks
begin

text \<open>
  Queries on different connections at the same time: a pool of futures, of which an executor
  polls any one at any moment. Every run of the pool is, seen from one connection, a run of its
  own query, so the schedule changes no result; and every schedule comes to an end.
\<close>

section \<open>Connections that do not touch each other\<close>

text \<open>
  What can be seen of one connection: the bytes the peer is still to send, those in the write
  buffer, and those that have been sent. An operation changes the view of its own stream only.
\<close>

record link =
  to_read :: "u8 list"
  unsent :: "u8 list"
  sent :: "u8 list"

definition own_reads :: "('w, 's) transport \<Rightarrow> ('w \<Rightarrow> 's \<Rightarrow> link) \<Rightarrow> bool" where
  "own_reads t view \<longleftrightarrow>
     (\<forall>s w n. if n \<le> length (to_read (view w s))
        then \<exists>w'. t_read_buffered t s n w = Some (Inr (take n (to_read (view w s))), w') \<and>
               view w' = (view w)(s := (view w s)\<lparr>to_read := drop n (to_read (view w s))\<rparr>)
        else \<exists>e w' rest. t_read_buffered t s n w = Some (Inl e, w') \<and>
               view w' = (view w)(s := (view w s)\<lparr>to_read := rest\<rparr>))"

definition isolated :: "('w, 's) transport \<Rightarrow> ('w \<Rightarrow> 's \<Rightarrow> link) \<Rightarrow> bool" where
  "isolated t view \<longleftrightarrow>
     own_reads t view \<and>
     (\<forall>s w bytes. view (t_put_slice t s bytes w) =
        (view w)(s := (view w s)\<lparr>unsent := unsent (view w s) @ bytes\<rparr>)) \<and>
     (\<forall>s w. \<exists>w'. t_flush t s w = Some (Inr (), w') \<and>
        view w' = (view w)(s := (view w s)\<lparr>unsent := [], sent := sent (view w s) @ unsent (view w s)\<rparr>))"

lemma own_read:
  assumes "own_reads t view" "n \<le> length (to_read (view w s))"
  obtains w' where "t_read_buffered t s n w = Some (Inr (take n (to_read (view w s))), w')"
    "view w' = (view w)(s := (view w s)\<lparr>to_read := drop n (to_read (view w s))\<rparr>)"
proof -
  have "\<exists>w'. t_read_buffered t s n w = Some (Inr (take n (to_read (view w s))), w') \<and>
      view w' = (view w)(s := (view w s)\<lparr>to_read := drop n (to_read (view w s))\<rparr>)"
    using assms(1) [unfolded own_reads_def, rule_format, of n w s] assms(2)
    by (simp only: if_True)
  then show ?thesis using that by blast
qed

lemma own_eof:
  assumes "own_reads t view" "length (to_read (view w s)) < n"
  obtains e w' rest where "t_read_buffered t s n w = Some (Inl e, w')"
    "view w' = (view w)(s := (view w s)\<lparr>to_read := rest\<rparr>)"
proof -
  have "\<not> n \<le> length (to_read (view w s))" using assms(2) by simp
  then have "\<exists>e w' rest. t_read_buffered t s n w = Some (Inl e, w') \<and>
      view w' = (view w)(s := (view w s)\<lparr>to_read := rest\<rparr>)"
    using assms(1) [unfolded own_reads_def, rule_format, of n w s] by (simp only: if_False)
  then show ?thesis using that by blast
qed

lemma isolated_reads: "isolated t view \<Longrightarrow> own_reads t view"
  by (simp add: isolated_def)

lemmas isolated_read = own_read [OF isolated_reads]
lemmas isolated_eof = own_eof [OF isolated_reads]

lemma isolated_put:
  assumes "isolated t view"
  shows "view (t_put_slice t s bytes w) =
    (view w)(s := (view w s)\<lparr>unsent := unsent (view w s) @ bytes\<rparr>)"
  using assms unfolding isolated_def by (elim conjE) blast

lemma isolated_flush:
  assumes "isolated t view"
  obtains w' where "t_flush t s w = Some (Inr (), w')"
    "view w' = (view w)(s := (view w s)\<lparr>unsent := [], sent := sent (view w s) @ unsent (view w s)\<rparr>)"
  using assms [unfolded isolated_def, THEN conjunct2, THEN conjunct2, rule_format, of s w] by blast

text \<open>Each of its streams is then a healthy one.\<close>

lemma isolated_healthy:
  assumes iso: "isolated t view"
  shows "healthy t s (\<lambda>w. to_read (view w s)) (\<lambda>w. sent (view w s) @ unsent (view w s))"
  unfolding healthy_def
proof (intro conjI allI)
  fix w n
  show "if n \<le> length (to_read (view w s))
      then \<exists>w'. t_read_buffered t s n w = Some (Inr (take n (to_read (view w s))), w') \<and>
        to_read (view w' s) = drop n (to_read (view w s)) \<and>
        sent (view w' s) @ unsent (view w' s) = sent (view w s) @ unsent (view w s)
      else \<exists>e w'. t_read_buffered t s n w = Some (Inl e, w')"
  proof (cases "n \<le> length (to_read (view w s))")
    case True
    then obtain w' where "t_read_buffered t s n w = Some (Inr (take n (to_read (view w s))), w')"
      "view w' = (view w)(s := (view w s)\<lparr>to_read := drop n (to_read (view w s))\<rparr>)"
      by (rule isolated_read [OF iso])
    with True show ?thesis by simp
  next
    case False
    then have "length (to_read (view w s)) < n" by simp
    then obtain e w' rest where "t_read_buffered t s n w = Some (Inl e, w')"
      by (rule isolated_eof [OF iso])
    with False show ?thesis by simp
  qed
next
  fix w bytes
  obtain w' where "t_flush t s (t_put_slice t s bytes w) = Some (Inr (), w')"
    and "view w' = (view (t_put_slice t s bytes w))(s := (view (t_put_slice t s bytes w) s)
      \<lparr>unsent := [], sent := sent (view (t_put_slice t s bytes w) s) @
        unsent (view (t_put_slice t s bytes w) s)\<rparr>)"
    by (rule isolated_flush [OF iso])
  then show "\<exists>w'. t_flush t s (t_put_slice t s bytes w) = Some (Inr (), w') \<and>
      to_read (view w' s) = to_read (view w s) \<and>
      sent (view w' s) @ unsent (view w' s) = (sent (view w s) @ unsent (view w s)) @ bytes"
    by (simp add: isolated_put [OF iso])
qed

section \<open>One step and what it leaves to come\<close>

definition whole :: "u8 list \<Rightarrow> u8 list \<Rightarrow> ((sqlx_error fault + query_response) \<times> u8 list) option" where
  "whole m i = map_option (\<lambda>(msg, k). (query_result (m @ msg), drop k i)) (decode_message i)"

text \<open>The result a query is to have, from where it stands and the bytes to come; None if they end too early.\<close>

fun ahead :: "task \<Rightarrow> u8 list \<Rightarrow> ((sqlx_error fault + query_response) \<times> u8 list) option" where
  "ahead (Created sql) i = whole [] i"
| "ahead Flushing i = whole [] i"
| "ahead (Header m) i = whole m i"
| "ahead (Payload m len is_last) i =
     (if length i < len then None
      else if is_last then Some (query_result (m @ take len i), drop len i)
      else whole (m @ take len i) (drop len i))"
| "ahead (Finished r) i = Some (r, i)"

fun unsubmitted :: "task \<Rightarrow> u8 list" where
  "unsubmitted (Created sql) = encode_message (encode_query sql) []"
| "unsubmitted k = []"

fun flushed :: "task \<Rightarrow> link \<Rightarrow> bool" where
  "flushed Flushing l \<longleftrightarrow> True"
| "flushed k l \<longleftrightarrow> unsent l = []"

fun finished :: "task \<Rightarrow> bool" where
  "finished (Finished r) \<longleftrightarrow> True"
| "finished k \<longleftrightarrow> False"

text \<open>How many steps a query can still make.\<close>

fun weight :: "task \<Rightarrow> link \<Rightarrow> nat" where
  "weight (Created sql) l = length (to_read l) + 3"
| "weight Flushing l = length (to_read l) + 2"
| "weight (Header m) l = length (to_read l) + 1"
| "weight (Payload m len is_last) l = length (to_read l) + 2"
| "weight (Finished r) l = 0"

definition io_failed :: "task \<Rightarrow> bool" where
  "io_failed k \<longleftrightarrow> (\<exists>e. k = Finished (Inl (Failed (SqlxIo e))))"

lemma whole_short: "length i < 2 \<Longrightarrow> whole m i = None"
  by (simp add: whole_def decode_message_short)

lemma whole_block:
  assumes "decode_header (a, b) = (len, is_last)"
  shows "whole m (a # b # i) =
    (if 0 < len then ahead (Payload m len is_last) i else ahead (next_block m is_last) i)"
  using assms
  by (cases "decode_message (drop len i)")
    (auto simp: whole_def decode_message_block next_block_def add.commute)

text \<open>What a step makes of the view of its connection, of the result to come and of the bytes sent.\<close>

definition progress :: "link \<Rightarrow> task \<Rightarrow> link \<Rightarrow> task \<Rightarrow> bool" where
  "progress l k l' k' \<longleftrightarrow>
     (ahead k' (to_read l') = ahead k (to_read l) \<or> io_failed k' \<and> ahead k (to_read l) = None) \<and>
     sent l' @ unsent l' @ unsubmitted k' = sent l @ unsent l @ unsubmitted k \<and>
     (flushed k l \<longrightarrow> flushed k' l') \<and> weight k' l' < weight k l"

lemma step_header:
  assumes own: "own_reads t view" and st: "task_step t s (Header m) w = Some (k', w')"
  shows "\<exists>l'. view w' = (view w)(s := l') \<and> progress (view w s) (Header m) l' k'"
proof (cases "2 \<le> length (to_read (view w s))")
  case True
  then obtain a b i where i: "to_read (view w s) = a # b # i"
    by (cases "to_read (view w s)" rule: remdups_adj.cases) auto
  obtain len is_last where h: "decode_header (a, b) = (len, is_last)" by fastforce
  from True obtain w1 where w1: "t_read_buffered t s 2 w = Some (Inr (take 2 (to_read (view w s))), w1)"
    "view w1 = (view w)(s := (view w s)\<lparr>to_read := drop 2 (to_read (view w s))\<rparr>)"
    by (rule own_read [OF own])
  have "k' = (if 0 < len then Payload m len is_last else next_block m is_last)" "w' = w1"
    using st w1(1) i h by auto
  then show ?thesis
    using w1(2) i whole_block [OF h, of m i]
    by (intro exI [of _ "(view w s)\<lparr>to_read := i\<rparr>"]) (auto simp: progress_def next_block_def)
next
  case False
  then have short: "length (to_read (view w s)) < 2" by simp
  then obtain e w1 rest where w1: "t_read_buffered t s 2 w = Some (Inl e, w1)"
    "view w1 = (view w)(s := (view w s)\<lparr>to_read := rest\<rparr>)"
    by (rule own_eof [OF own])
  have "k' = Finished (Inl (Failed (SqlxIo e)))" "w' = w1" using st w1(1) by auto
  then show ?thesis
    using w1(2) whole_short [OF short, of m]
    by (intro exI [of _ "(view w s)\<lparr>to_read := rest\<rparr>"]) (auto simp: progress_def io_failed_def)
qed

lemma step_payload:
  assumes own: "own_reads t view" and st: "task_step t s (Payload m len is_last) w = Some (k', w')"
  shows "\<exists>l'. view w' = (view w)(s := l') \<and> progress (view w s) (Payload m len is_last) l' k'"
proof (cases "len \<le> length (to_read (view w s))")
  case True
  let ?i = "to_read (view w s)"
  from True obtain w1 where w1: "t_read_buffered t s len w = Some (Inr (take len ?i), w1)"
    "view w1 = (view w)(s := (view w s)\<lparr>to_read := drop len ?i\<rparr>)"
    by (rule own_read [OF own])
  have "k' = next_block (m @ take len ?i) is_last" "w' = w1" using st w1(1) by auto
  then show ?thesis
    using w1(2) True
    by (intro exI [of _ "(view w s)\<lparr>to_read := drop len ?i\<rparr>"]) (auto simp: progress_def next_block_def)
next
  case False
  then have short: "length (to_read (view w s)) < len" by simp
  then obtain e w1 rest where w1: "t_read_buffered t s len w = Some (Inl e, w1)"
    "view w1 = (view w)(s := (view w s)\<lparr>to_read := rest\<rparr>)"
    by (rule own_eof [OF own])
  have "k' = Finished (Inl (Failed (SqlxIo e)))" "w' = w1" using st w1(1) by auto
  then show ?thesis
    using w1(2) short
    by (intro exI [of _ "(view w s)\<lparr>to_read := rest\<rparr>"]) (auto simp: progress_def io_failed_def)
qed

lemma step_progress:
  assumes iso: "isolated t view" and st: "task_step t s k w = Some (k', w')"
  obtains l' where "view w' = (view w)(s := l')" "progress (view w s) k l' k'"
proof (cases k)
  case (Created sql)
  then have "k' = Flushing" "w' = t_put_slice t s (encode_message (encode_query sql) []) w"
    using st by auto
  with Created show ?thesis
    by (intro that [of "(view w s)\<lparr>unsent := unsent (view w s) @ encode_message (encode_query sql) []\<rparr>"])
      (auto simp: isolated_put [OF iso] progress_def)
next
  case Flushing
  obtain w1 where w1: "t_flush t s w = Some (Inr (), w1)"
    "view w1 = (view w)(s := (view w s)\<lparr>unsent := [], sent := sent (view w s) @ unsent (view w s)\<rparr>)"
    by (rule isolated_flush [OF iso])
  with Flushing st show ?thesis
    by (intro that [of "(view w s)\<lparr>unsent := [], sent := sent (view w s) @ unsent (view w s)\<rparr>"])
      (auto simp: progress_def)
next
  case (Header m)
  with st step_header [OF isolated_reads [OF iso]] that show ?thesis by blast
next
  case (Payload m len is_last)
  with st step_payload [OF isolated_reads [OF iso]] that show ?thesis by blast
qed (use st in simp)

lemma step_enabled:
  assumes "isolated t view" "\<not> finished k"
  obtains k' w' where "task_step t s k w = Some (k', w')"
proof -
  obtain w1 where "t_flush t s w = Some (Inr (), w1)" by (rule isolated_flush [OF assms(1)])
  moreover have "\<exists>r w'. t_read_buffered t s n w = Some (r, w')" for n
    using isolated_read [OF assms(1), of n w s] isolated_eof [OF assms(1), of w s n]
    by (metis linorder_not_le)
  ultimately have "\<exists>k' w'. task_step t s k w = Some (k', w')" using assms(2) by (cases k) fastforce+
  with that show ?thesis by blast
qed

section \<open>The pool\<close>

text \<open>
  One future on each connection (the \<open>&mut self\<close> of the executor allows no more); \<open>n\<close> counts the
  polls, each of any future that can go on.
\<close>

inductive pool_run ::
    "('w, 's) transport \<Rightarrow> ('s \<Rightarrow> task) \<Rightarrow> 'w \<Rightarrow> nat \<Rightarrow> ('s \<Rightarrow> task) \<Rightarrow> 'w \<Rightarrow> bool"
    for t ks w where
  idle: "pool_run t ks w 0 ks w"
| poll: "pool_run t ks w n ks1 w1 \<Longrightarrow> task_step t s (ks1 s) w1 = Some (k, w2) \<Longrightarrow>
     pool_run t ks w (Suc n) (ks1(s := k)) w2"

text \<open>A run of the pool, seen from one connection.\<close>

lemma run_connection:
  assumes "pool_run t ks w n ks' w'" and iso: "isolated t view"
  shows "(ahead (ks' s) (to_read (view w' s)) = ahead (ks s) (to_read (view w s)) \<or>
      io_failed (ks' s) \<and> ahead (ks s) (to_read (view w s)) = None) \<and>
    sent (view w' s) @ unsent (view w' s) @ unsubmitted (ks' s) =
      sent (view w s) @ unsent (view w s) @ unsubmitted (ks s) \<and>
    (flushed (ks s) (view w s) \<longrightarrow> flushed (ks' s) (view w' s))"
  using assms(1)
proof (induction rule: pool_run.induct)
  case (poll n ks1 w1 s' k w2)
  obtain l' where l': "view w2 = (view w1)(s' := l')" "progress (view w1 s') (ks1 s') l' k"
    by (rule step_progress [OF iso poll.hyps(2)])
  have "\<not> io_failed (ks1 s')" using poll.hyps(2) by (auto simp: io_failed_def)
  with poll.IH l' show ?case by (cases "s = s'") (auto simp: progress_def)
qed simp

lemma run_weight:
  assumes "pool_run t ks w n ks' w'" and iso: "isolated t view"
    and "finite A" and "{s. \<not> finished (ks s)} \<subseteq> A"
  shows "n + (\<Sum>s\<in>A. weight (ks' s) (view w' s)) \<le> (\<Sum>s\<in>A. weight (ks s) (view w s)) \<and>
    {s. \<not> finished (ks' s)} \<subseteq> A"
  using assms(1)
proof (induction rule: pool_run.induct)
  case (poll n ks1 w1 s k w2)
  obtain l' where l': "view w2 = (view w1)(s := l')" "progress (view w1 s) (ks1 s) l' k"
    by (rule step_progress [OF iso poll.hyps(2)])
  have "\<not> finished (ks1 s)" using poll.hyps(2) by (cases "ks1 s") auto
  with poll.IH have s: "s \<in> A" by auto
  have "(\<Sum>x\<in>A. weight ((ks1(s := k)) x) (view w2 x)) =
      weight k l' + (\<Sum>x\<in>A - {s}. weight (ks1 x) (view w1 x))"
    using assms(3) s l'(1) by (auto simp: sum.remove [of A s] intro!: sum.cong)
  moreover have "(\<Sum>x\<in>A. weight (ks1 x) (view w1 x)) =
      weight (ks1 s) (view w1 s) + (\<Sum>x\<in>A - {s}. weight (ks1 x) (view w1 x))"
    using assms(3) s by (rule sum.remove)
  moreover have "weight k l' < weight (ks1 s) (view w1 s)" using l'(2) by (simp add: progress_def)
  ultimately show ?case using poll.IH s by auto
qed (use assms(4) in simp)

text \<open>C10: Queries on different connections do not get in each other's way: however
  an executor interleaves the polls of any number of futures, at every \<open>await\<close>, a query that
  finishes has the result its own server's reply means, it has read that reply and nothing else,
  and its server has been sent its request and nothing else. The other queries may fail, wait or
  never be polled again.\<close>

theorem schedule_irrelevant:
  assumes "isolated t view" and "pool_run t ks w n ks' w'"
    and "ks s = Created sql" and "unsent (view w s) = []"
    and "to_read (view w s) = encode_message reply [] @ rest"
    and "ks' s = Finished r"
  shows "r = reply_result reply \<and>
    view w' s = \<lparr>to_read = rest, unsent = [],
      sent = sent (view w s) @ encode_message (encode_query sql) []\<rparr>"
proof -
  have "ahead (ks s) (to_read (view w s)) = Some (reply_result reply, rest)"
    using assms(3,5) by (simp add: whole_def decode_encode_message query_result_reply)
  with run_connection [OF assms(2,1), of s] assms(3,4,6) show ?thesis
    by (auto intro!: link.equality)
qed

text \<open>C19: Every schedule comes to an end: finitely many queries make at most as many
  steps as three for each of them and one for each byte their servers send, and as long as one
  is not finished some poll goes on. So no interleaving deadlocks, and none goes on for ever.\<close>

theorem schedules_end:
  assumes "isolated t view" and "finite {s. \<not> finished (ks s)}" and "pool_run t ks w n ks' w'"
  shows "n \<le> (\<Sum>s | \<not> finished (ks s). length (to_read (view w s)) + 3) \<and>
    ((\<forall>s. finished (ks' s)) \<or> (\<exists>ks'' w''. pool_run t ks w (Suc n) ks'' w''))"
proof
  have "n \<le> (\<Sum>s | \<not> finished (ks s). weight (ks s) (view w s))"
    using run_weight [OF assms(3,1,2) subset_refl] by simp
  also have "\<dots> \<le> (\<Sum>s | \<not> finished (ks s). length (to_read (view w s)) + 3)"
  proof (rule sum_mono)
    show "weight (ks s) (view w s) \<le> length (to_read (view w s)) + 3" for s
      by (cases "ks s") simp_all
  qed
  finally show "n \<le> (\<Sum>s | \<not> finished (ks s). length (to_read (view w s)) + 3)" .
  show "(\<forall>s. finished (ks' s)) \<or> (\<exists>ks'' w''. pool_run t ks w (Suc n) ks'' w'')"
    using assms(3) pool_run.poll step_enabled [OF assms(1)] by metis
qed

section \<open>A concrete pool\<close>

definition script_view :: "script_world \<Rightarrow> nat \<Rightarrow> link" where
  "script_view w s =
     \<lparr>to_read = to_client (conns w s), unsent = buffered (conns w s), sent = received (conns w s)\<rparr>"

lemma script_isolated: "isolated script_transport script_view"
  unfolding isolated_def own_reads_def
proof (intro conjI allI)
  fix s w n
  show "if n \<le> length (to_read (script_view w s))
        then \<exists>w'. t_read_buffered script_transport s n w = Some (Inr (take n (to_read (script_view w s))), w') \<and>
               script_view w' = (script_view w)(s := (script_view w s)\<lparr>to_read := drop n (to_read (script_view w s))\<rparr>)
        else \<exists>e w' rest. t_read_buffered script_transport s n w = Some (Inl e, w') \<and>
               script_view w' = (script_view w)(s := (script_view w s)\<lparr>to_read := rest\<rparr>)"
    by (auto simp: script_view_def script_transport_def script_read_def set_conn_def Let_def fun_eq_iff)
next
  show "script_view (t_put_slice script_transport s bytes w) =
      (script_view w)(s := (script_view w s)\<lparr>unsent := unsent (script_view w s) @ bytes\<rparr>)" for s w bytes
    by (auto simp: script_view_def script_transport_def script_put_def set_conn_def fun_eq_iff)
next
  show "\<exists>w'. t_flush script_transport s w = Some (Inr (), w') \<and>
      script_view w' = (script_view w)(s := (script_view w s)\<lparr>unsent := [],
        sent := sent (script_view w s) @ unsent (script_view w s)\<rparr>)" for s w
    by (auto simp: script_view_def script_transport_def script_flush_def set_conn_def Let_def fun_eq_iff)
qed

text \<open>The steps of one query are a run of every pool that holds it.\<close>

lemma pool_task:
  assumes "task_steps t s k w k' w'" and "pool_run t ks0 w0 m ks w" and "ks s = k"
  shows "\<exists>n. pool_run t ks0 w0 n (ks(s := k')) w'"
  using assms
proof (induction arbitrary: ks m rule: task_steps.induct)
  case (stay k w)
  then show ?case by (metis fun_upd_triv)
next
  case (step k w k1 w1 k2 w2)
  have "pool_run t ks0 w0 (Suc m) (ks(s := k1)) w1"
    using step.prems step.hyps(1) by (auto intro: pool_run.poll)
  from step.IH [OF this] show ?case by (simp only: fun_upd_same fun_upd_upd)
qed

lemma first_poll:
  "task_step t s (ks s) w = Some (k, w1) \<Longrightarrow> pool_run t ks w (Suc 0) (ks(s := k)) w1"
  by (rule pool_run.poll [OF pool_run.idle])

definition two_queries :: "nat \<Rightarrow> task" where
  "two_queries = (\<lambda>_. Finished (Inr QOk))(0 := Created (lit ''SELECT 1''), 1 := Created (lit ''SELECT 2''))"

definition two_connections :: script_world where
  "two_connections =
     (one_server [] 0 [])\<lparr>conns := (\<lambda>s. \<lparr>to_client = encode_message (as_bytes (lit ''&2 7 -1'')) [] @ [],
        buffered = [], received = []\<rparr>)\<rparr>"

theorem schedule_irrelevant_witness:
  "\<exists>n ks' w'. pool_run script_transport two_queries two_connections n ks' w' \<and>
     ks' 0 = Flushing \<and> ks' 1 = Finished (reply_result (as_bytes (lit ''&2 7 -1''))) \<and>
     script_view w' 1 = \<lparr>to_read = [], unsent = [],
       sent = [] @ encode_message (encode_query (lit ''SELECT 2'')) []\<rparr>"
proof -
  let ?t = script_transport and ?reply = "as_bytes (lit ''&2 7 -1'')"
  let ?w1 = "t_put_slice ?t 0 (encode_message (encode_query (lit ''SELECT 1'')) []) two_connections"
  have v: "script_view two_connections s =
      \<lparr>to_read = encode_message ?reply [] @ [], unsent = [], sent = []\<rparr>" for s
    by (simp add: script_view_def two_connections_def)
  have "task_step ?t 0 (two_queries 0) two_connections = Some (Flushing, ?w1)"
    by (simp add: two_queries_def)
  then have one: "pool_run ?t two_queries two_connections (Suc 0) (two_queries(0 := Flushing)) ?w1"
    by (rule first_poll)
  have "to_read (script_view ?w1 1) = encode_message ?reply [] @ []"
    by (simp add: isolated_put [OF script_isolated] v)
  then obtain w2 where "execute_query ?t 1 (lit ''SELECT 2'') ?w1 = Some (reply_result ?reply, w2)"
    by (rule execute_reply [OF isolated_healthy [OF script_isolated], where sql = "lit ''SELECT 2''"])
  from pool_task [OF query_steps [OF this] one] obtain n where run:
    "pool_run ?t two_queries two_connections n
      (two_queries(0 := Flushing, 1 := Finished (reply_result ?reply))) w2"
    by (auto simp: two_queries_def)
  have q: "two_queries 1 = Created (lit ''SELECT 2'')"
    "(two_queries(0 := Flushing, 1 := Finished (reply_result ?reply))) 1 = Finished (reply_result ?reply)"
    by (simp_all add: two_queries_def)
  have "unsent (script_view two_connections 1) = []"
    "to_read (script_view two_connections 1) = encode_message ?reply [] @ []"
    unfolding v by (simp_all only: link.simps)
  with schedule_irrelevant [where s = 1 and view = script_view and reply = ?reply and rest = "[]",
      OF script_isolated run q(1) _ _ q(2)]
  have "script_view w2 1 = \<lparr>to_read = [], unsent = [],
      sent = sent (script_view two_connections 1) @ encode_message (encode_query (lit ''SELECT 2'')) []\<rparr>"
    by (simp only: simp_thms)
  then have "script_view w2 1 = \<lparr>to_read = [], unsent = [],
      sent = [] @ encode_message (encode_query (lit ''SELECT 2'')) []\<rparr>"
    unfolding v by (simp only: link.simps)
  with run q(2) show ?thesis
    by (intro exI [of _ n] exI [of _ "two_queries(0 := Flushing, 1 := Finished (reply_result ?reply))"]
        exI [of _ w2]) simp
qed

theorem schedules_end_witness:
  "\<exists>ks' w'. pool_run script_transport two_queries two_connections 1 ks' w' \<and>
     ((\<forall>s. finished (ks' s)) \<or> (\<exists>ks'' w''. pool_run script_transport two_queries two_connections 2 ks'' w''))"
proof -
  have step: "task_step script_transport 0 (two_queries 0) two_connections = Some (Flushing,
      t_put_slice script_transport 0 (encode_message (encode_query (lit ''SELECT 1'')) []) two_connections)"
    by (simp add: two_queries_def)
  have "{s. \<not> finished (two_queries s)} \<subseteq> {0, 1}" by (auto simp: two_queries_def split: if_splits)
  then have fin: "finite {s. \<not> finished (two_queries s)}" by (rule finite_subset) simp
  note run = first_poll [of script_transport 0 two_queries, OF step]
  from run schedules_end [OF script_isolated fin run] show ?thesis unfolding numeral_2_eq_2 One_nat_def by blast
qed

end
