(* ===== verification/Pool.thy ===== *)
theory Pool
  imports Interleaving
begin

text \<open>
  More queries than connections: a pool of connections, as the test of \<open>src/connection.rs\<close> uses
  it. A query takes any idle connection, keeps it to itself until it is finished and gives it back
  (what sqlx documents of its \<open>Pool\<close>); the polls of the queries at work are interleaved in any
  order. The server behind them is that of \<open>Linearizable\<close>.
\<close>

section \<open>One query at work\<close>

text \<open>A connection in the middle of the query for \<open>sql\<close> that is to be answered by \<open>answer\<close>, and how
  many steps it has left when that takes at most \<open>cost\<close> bytes.\<close>

fun serving :: "u8 list \<Rightarrow> rstr \<Rightarrow> task \<Rightarrow> link \<Rightarrow> bool" where
  "serving answer sql (Created q) l \<longleftrightarrow> q = sql \<and> to_read l = [] \<and> unsent l = []"
| "serving answer sql Flushing l \<longleftrightarrow> to_read l = [] \<and> unsent l = encode_message (encode_query sql) []"
| "serving answer sql k l \<longleftrightarrow>
     unsent l = [] \<and> ahead k (to_read l) = Some (reply_result answer, [])"

fun steps_left :: "nat \<Rightarrow> task \<Rightarrow> link \<Rightarrow> nat" where
  "steps_left cost (Created q) l = cost + 4"
| "steps_left cost Flushing l = cost + 3"
| "steps_left cost k l = Suc (weight k l)"

fun reading :: "task \<Rightarrow> bool" where
  "reading (Created q) \<longleftrightarrow> False"
| "reading Flushing \<longleftrightarrow> False"
| "reading k \<longleftrightarrow> True"

lemma reading_next_block: "reading (next_block m is_last)"
  by (simp add: next_block_def)

lemma step_reading:
  assumes "task_step t s k w = Some (k', w')" "reading k"
  shows "reading k'"
proof (cases k)
  case (Header m)
  with assms obtain r w1 where r: "t_read_buffered t s 2 w = Some (r, w1)"
    by (cases "t_read_buffered t s 2 w") auto
  show ?thesis
  proof (cases r)
    case (Inr header)
    obtain len is_last where "decode_header (header ! 0, header ! 1) = (len, is_last)" by fastforce
    with assms(1) r Header Inr show ?thesis by (auto simp: reading_next_block split: if_splits)
  qed (use assms(1) r Header in auto)
next
  case (Payload m len is_last)
  with assms obtain r w1 where "t_read_buffered t s len w = Some (r, w1)"
    by (cases "t_read_buffered t s len w") auto
  with assms Payload show ?thesis by (cases r) (auto simp: reading_next_block)
qed (use assms in simp_all)

lemma serving_progress:
  assumes "serving answer sql k l" "progress l k l' k'" "reading k" "reading k'"
  shows "serving answer sql k' l' \<and> steps_left c k' l' < steps_left c k l"
  using assms by (cases k; cases k') (auto simp: progress_def io_failed_def)

lemma reading_enabled:
  assumes "own_reads t view" "reading k" "\<not> finished k"
  shows "\<exists>k' w'. task_step t s k w = Some (k', w')"
proof -
  have "\<exists>r w'. t_read_buffered t s n w = Some (r, w')" for n
    using own_read [OF assms(1), of n w s] own_eof [OF assms(1), of w s n] by (metis linorder_not_le)
  with assms(2,3) show ?thesis by (cases k) fastforce+
qed

section \<open>The pool\<close>

text \<open>
  Queries are numbered; \<open>waiting\<close> are those without a connection yet, \<open>busy\<close> says what each
  connection works on, \<open>outcome\<close> what has come back. \<open>n\<close> counts the steps.
\<close>

type_synonym query_outcome = "sqlx_error fault + query_response"

record 's pool =
  waiting :: "nat set"
  busy :: "'s \<Rightarrow> (nat \<times> task) option"
  outcome :: "nat \<Rightarrow> query_outcome option"

definition pool_start :: "nat set \<Rightarrow> 's pool" where
  "pool_start tasks = \<lparr>waiting = tasks, busy = (\<lambda>_. None), outcome = (\<lambda>_. None)\<rparr>"

inductive pool_steps ::
    "('w, 's) transport \<Rightarrow> 's set \<Rightarrow> (nat \<Rightarrow> rstr) \<Rightarrow> 's pool \<Rightarrow> 'w \<Rightarrow> nat \<Rightarrow> 's pool \<Rightarrow> 'w \<Rightarrow> bool"
    for t ss sqls p0 w0 where
  start: "pool_steps t ss sqls p0 w0 0 p0 w0"
| acquire: "pool_steps t ss sqls p0 w0 n p w \<Longrightarrow> i \<in> waiting p \<Longrightarrow> s \<in> ss \<Longrightarrow> busy p s = None \<Longrightarrow>
     pool_steps t ss sqls p0 w0 (Suc n)
       (p\<lparr>waiting := waiting p - {i}, busy := (busy p)(s := Some (i, Created (sqls i)))\<rparr>) w"
| poll: "pool_steps t ss sqls p0 w0 n p w \<Longrightarrow> busy p s = Some (i, k) \<Longrightarrow>
     task_step t s k w = Some (k', w') \<Longrightarrow>
     pool_steps t ss sqls p0 w0 (Suc n) (p\<lparr>busy := (busy p)(s := Some (i, k'))\<rparr>) w'"
| release: "pool_steps t ss sqls p0 w0 n p w \<Longrightarrow> busy p s = Some (i, Finished r) \<Longrightarrow>
     pool_steps t ss sqls p0 w0 (Suc n)
       (p\<lparr>busy := (busy p)(s := None), outcome := (outcome p)(i := Some r)\<rparr>) w"

text \<open>The queries that connections work on.\<close>

definition at_work :: "('s \<Rightarrow> (nat \<times> task) option) \<Rightarrow> nat set" where
  "at_work b = {i. \<exists>s k. b s = Some (i, k)}"

lemma at_work_take: "b s = None \<Longrightarrow> at_work (b(s := Some (i, k))) = insert i (at_work b)"
  unfolding at_work_def by (rule set_eqI) (auto, metis option.distinct(1))

lemma at_work_poll: "b s = Some (i, k) \<Longrightarrow> at_work (b(s := Some (i, k'))) = at_work b"
  unfolding at_work_def by (rule set_eqI) (auto, metis option.inject prod.inject)

lemma at_work_release: "b s = Some (i, k) \<Longrightarrow> insert i (at_work (b(s := None))) = at_work b"
  unfolding at_work_def by (rule set_eqI) (auto, metis option.inject prod.inject)

end
