(* ===== verification/Linearizable.thy ===== *)
theory Linearizable
  imports Pool
begin

text \<open>
  A pool of connections to a database, whose answers depend on what was executed before. The
  server executes a statement when it has been flushed to it; statements of different
  connections may be at any stage meanwhile. What the clients see is what they would see if the
  statements had been run one after the other, in an order that respects real time.
\<close>

section \<open>The database\<close>

text \<open>\<open>exec\<close> gives the answer to a statement and the state after it; \<open>db\<close> is the state in the world.\<close>

definition database_server ::
    "('w, 's) transport \<Rightarrow> ('w \<Rightarrow> 's \<Rightarrow> link) \<Rightarrow> ('w \<Rightarrow> 'db) \<Rightarrow> (rstr \<Rightarrow> 'db \<Rightarrow> u8 list \<times> 'db) \<Rightarrow> bool" where
  "database_server t view db exec \<longleftrightarrow>
     own_reads t view \<and>
     (\<forall>s n w r w'. t_read_buffered t s n w = Some (r, w') \<longrightarrow> db w' = db w) \<and>
     (\<forall>s w bytes. db (t_put_slice t s bytes w) = db w \<and> view (t_put_slice t s bytes w) =
        (view w)(s := (view w s)\<lparr>unsent := unsent (view w s) @ bytes\<rparr>)) \<and>
     (\<forall>s w sql. unsent (view w s) = encode_message (encode_query sql) [] \<longrightarrow>
        (\<exists>w'. t_flush t s w = Some (Inr (), w') \<and> db w' = snd (exec sql (db w)) \<and>
           view w' = (view w)(s := (view w s)\<lparr>
             to_read := to_read (view w s) @ encode_message (fst (exec sql (db w))) [],
             unsent := [], sent := sent (view w s) @ unsent (view w s)\<rparr>)))"

lemma database_reads: "database_server t view db exec \<Longrightarrow> own_reads t view"
  by (simp add: database_server_def)

lemma database_read:
  "database_server t view db exec \<Longrightarrow> t_read_buffered t s n w = Some (r, w') \<Longrightarrow> db w' = db w"
  unfolding database_server_def by blast

lemma database_put:
  assumes "database_server t view db exec"
  shows "view (t_put_slice t s bytes w) = (view w)(s := (view w s)\<lparr>unsent := unsent (view w s) @ bytes\<rparr>)"
    "db (t_put_slice t s bytes w) = db w"
  using assms unfolding database_server_def by (elim conjE; blast)+

lemma database_flush:
  assumes "database_server t view db exec" "unsent (view w s) = encode_message (encode_query sql) []"
  obtains w' where "t_flush t s w = Some (Inr (), w')" "db w' = snd (exec sql (db w))"
    "view w' = (view w)(s := (view w s)\<lparr>
       to_read := to_read (view w s) @ encode_message (fst (exec sql (db w))) [],
       unsent := [], sent := sent (view w s) @ unsent (view w s)\<rparr>)"
  using assms unfolding database_server_def by (elim conjE) blast

section \<open>The statements one after the other\<close>

text \<open>What each of the statements, by number, is answered, and the state after all of them.\<close>

primrec serial :: "(rstr \<Rightarrow> 'db \<Rightarrow> u8 list \<times> 'db) \<Rightarrow> (nat \<Rightarrow> rstr) \<Rightarrow> nat list \<Rightarrow> 'db \<Rightarrow> (nat \<times> u8 list) list \<times> 'db" where
  "serial exec sqls [] d = ([], d)"
| "serial exec sqls (i # order) d =
     (case exec (sqls i) d of (a, d1) \<Rightarrow>
        case serial exec sqls order d1 of (log, d2) \<Rightarrow> ((i, a) # log, d2))"

lemma serial_append:
  "serial exec sqls (order @ later) d =
     (case serial exec sqls order d of (log, d1) \<Rightarrow>
        case serial exec sqls later d1 of (log2, d2) \<Rightarrow> (log @ log2, d2))"
  by (induction order arbitrary: d) (auto split: prod.splits)

lemma serial_order: "map fst (fst (serial exec sqls order d)) = order"
proof (induction order arbitrary: d)
  case (Cons i order)
  from Cons.IH [of "snd (exec (sqls i) d)"] show ?case by (auto split: prod.splits)
qed simp

lemma serial_answer:
  "(i, a) \<in> set (fst (serial exec sqls order d)) \<Longrightarrow> \<exists>d'. a = fst (exec (sqls i) d')"
proof (induction order arbitrary: d)
  case (Cons j order)
  then have "i = j \<and> a = fst (exec (sqls j) d) \<or>
      (i, a) \<in> set (fst (serial exec sqls order (snd (exec (sqls j) d))))"
    by (auto split: prod.splits)
  with Cons.IH show ?case by blast
qed simp

lemma serial_snoc:
  "serial exec sqls (order @ [i]) d =
     (case serial exec sqls order d of (log, d1) \<Rightarrow>
        (log @ [(i, fst (exec (sqls i) d1))], snd (exec (sqls i) d1)))"
  by (simp add: serial_append split: prod.splits)

section \<open>One step of one query\<close>

lemma step_reading_db:
  assumes "database_server t view db exec" "task_step t s k w = Some (k', w')" "reading k"
  shows "db w' = db w"
proof (cases k)
  case (Header m)
  with assms obtain r where "t_read_buffered t s 2 w = Some (r, w')" by auto
  then show ?thesis by (rule database_read [OF assms(1)])
next
  case (Payload m len is_last)
  with assms obtain r where "t_read_buffered t s len w = Some (r, w')" by auto
  then show ?thesis by (rule database_read [OF assms(1)])
qed (use assms in simp_all)

lemma read_step:
  assumes srv: "database_server t view db exec" and st: "task_step t s k w = Some (k', w')"
    and serv: "serving answer sql k (view w s)" and "reading k"
  obtains l' where "view w' = (view w)(s := l')" "db w' = db w" "reading k'" "serving answer sql k' l'"
    "steps_left c k' l' < steps_left c k (view w s)"
proof -
  have r: "reading k'" by (rule step_reading [OF st assms(4)])
  have "\<exists>l'. view w' = (view w)(s := l') \<and> progress (view w s) k l' k'"
    using st assms(4) step_header [OF database_reads [OF srv]] step_payload [OF database_reads [OF srv]]
    by (cases k) auto
  with serving_progress [OF serv _ assms(4) r] r step_reading_db [OF srv st assms(4)] that
  show ?thesis by blast
qed

lemma submit_step:
  assumes srv: "database_server t view db exec" and st: "task_step t s (Created q) w = Some (k', w')"
    and serv: "serving answer sql (Created q) (view w s)"
  obtains l' where "view w' = (view w)(s := l')" "db w' = db w" "k' = Flushing" "serving answer sql k' l'"
proof -
  have "k' = Flushing" "w' = t_put_slice t s (encode_message (encode_query sql) []) w"
    using st serv by auto
  with serv show ?thesis
    by (intro that [of "(view w s)\<lparr>unsent := encode_message (encode_query sql) []\<rparr>"])
      (auto simp: database_put [OF srv])
qed

lemma flush_step:
  assumes srv: "database_server t view db exec" and st: "task_step t s Flushing w = Some (k', w')"
    and serv: "serving answer sql Flushing (view w s)"
  obtains l' where "view w' = (view w)(s := l')" "db w' = snd (exec sql (db w))" "reading k'"
    "serving (fst (exec sql (db w))) sql k' l'"
    "k' = Header []" "to_read l' = encode_message (fst (exec sql (db w))) []"
proof -
  let ?a = "fst (exec sql (db w))"
  have "unsent (view w s) = encode_message (encode_query sql) []" using serv by simp
  then obtain w1 where w1: "t_flush t s w = Some (Inr (), w1)" "db w1 = snd (exec sql (db w))"
    "view w1 = (view w)(s := (view w s)\<lparr>to_read := to_read (view w s) @ encode_message ?a [],
       unsent := [], sent := sent (view w s) @ unsent (view w s)\<rparr>)"
    by (rule database_flush [OF srv])
  have "k' = Header []" "w' = w1" using st w1(1) by auto
  moreover have "decode_message (encode_message ?a []) = Some (?a, length (encode_message ?a []))"
    using decode_encode_message [of ?a "[]"] by simp
  ultimately show ?thesis
    using w1(2,3) serv
    by (intro that [of "(view w s)\<lparr>to_read := encode_message ?a [], unsent := [],
        sent := sent (view w s) @ unsent (view w s)\<rparr>"]) (auto simp: whole_def query_result_reply)
qed

section \<open>A query on its own\<close>

lemma reading_ends:
  assumes srv: "database_server t view db exec"
  shows "serving a sql k (view w s) \<Longrightarrow> reading k \<Longrightarrow>
    \<exists>w' l'. task_steps t s k w (Finished (reply_result a)) w' \<and> db w' = db w \<and>
      view w' = (view w)(s := l') \<and> to_read l' = [] \<and> unsent l' = []"
proof (induction "steps_left 0 k (view w s)" arbitrary: k w rule: less_induct)
  case less
  show ?case
  proof (cases "finished k")
    case True
    then obtain r where "k = Finished r" by (cases k) auto
    with less.prems show ?thesis
      by (intro exI [of _ w] exI [of _ "view w s"]) (auto intro: task_steps.stay)
  next
    case False
    then obtain k' w1 where st: "task_step t s k w = Some (k', w1)"
      using reading_enabled [OF database_reads [OF srv] less.prems(2)] by blast
    obtain l1 where l1: "view w1 = (view w)(s := l1)" "db w1 = db w" "reading k'"
      "serving a sql k' l1" "steps_left 0 k' l1 < steps_left 0 k (view w s)"
      by (rule read_step [OF srv st less.prems])
    then obtain w' l' where "task_steps t s k' w1 (Finished (reply_result a)) w'" "db w' = db w1"
      "view w' = (view w1)(s := l')" "to_read l' = []" "unsent l' = []"
      using less.hyps [of k' w1] by auto
    with task_steps.step [OF st] l1(1,2) show ?thesis by (metis fun_upd_upd)
  qed
qed

text \<open>On a connection at rest a query runs to its end, and leaves the connection at rest.\<close>

lemma database_query:
  assumes srv: "database_server t view db exec" and "to_read (view w s) = []" "unsent (view w s) = []"
  obtains w' l' where "execute_query t s sql w = Some (reply_result (fst (exec sql (db w))), w')"
    "db w' = snd (exec sql (db w))" "view w' = (view w)(s := l')" "to_read l' = []" "unsent l' = []"
proof -
  let ?a = "fst (exec sql (db w))" and ?w1 = "t_put_slice t s (encode_message (encode_query sql) []) w"
  have st1: "task_step t s (Created sql) w = Some (Flushing, ?w1)" by simp
  have "serving [] sql (Created sql) (view w s)" using assms(2,3) by simp
  then obtain l1 where l1: "view ?w1 = (view w)(s := l1)" "db ?w1 = db w"
    "serving [] sql Flushing l1" by (rule submit_step [OF srv st1])
  then have serv: "serving [] sql Flushing (view ?w1 s)" by simp
  then have "unsent (view ?w1 s) = encode_message (encode_query sql) []" by simp
  then obtain w2 where "t_flush t s ?w1 = Some (Inr (), w2)" by (rule database_flush [OF srv])
  then have st2: "task_step t s Flushing ?w1 = Some (Header [], w2)" by simp
  obtain l2 where l2: "view w2 = (view ?w1)(s := l2)" "db w2 = snd (exec sql (db ?w1))"
    "serving (fst (exec sql (db ?w1))) sql (Header []) l2" by (rule flush_step [OF srv st2 serv])
  then have "serving (?a) sql (Header []) (view w2 s)" using l1(2) by simp
  then obtain w' l' where w': "task_steps t s (Header []) w2 (Finished (reply_result ?a)) w'" "db w' = db w2"
    "view w' = (view w2)(s := l')" "to_read l' = []" "unsent l' = []"
    using reading_ends [OF srv] reading.simps(3) by blast
  from task_steps.step [OF st1 task_steps.step [OF st2 w'(1)]]
  have "task_steps t s (Created sql) w (Finished (reply_result ?a)) w'" .
  from steps_remaining [OF this] have "execute_query t s sql w = Some (reply_result ?a, w')" by simp
  with w' l1 l2 show ?thesis by (intro that [of w' l']) simp_all
qed

section \<open>The pool and the serial order\<close>

text \<open>
  The statements that have been executed, in the order of their flushes, with their answers, are
  the log. A query that is \<open>reading\<close> is in it, one that is not yet flushed is not.
\<close>

definition slot_logged ::
    "(nat \<Rightarrow> rstr) \<Rightarrow> (nat \<times> u8 list) set \<Rightarrow> (nat \<times> task) option \<Rightarrow> link \<Rightarrow> bool" where
  "slot_logged sqls log slot l \<longleftrightarrow>
     (case slot of
        None \<Rightarrow> to_read l = [] \<and> unsent l = []
      | Some (i, k) \<Rightarrow>
          if reading k then \<exists>a. (i, a) \<in> log \<and> serving a (sqls i) k l
          else i \<notin> fst ` log \<and> serving [] (sqls i) k l)"

text \<open>No query is in two places.\<close>

definition exclusive :: "'s pool \<Rightarrow> bool" where
  "exclusive p \<longleftrightarrow>
     waiting p \<inter> at_work (busy p) = {} \<and>
     (\<forall>s s' i k k'. busy p s = Some (i, k) \<longrightarrow> busy p s' = Some (i, k') \<longrightarrow> s = s')"

definition logged ::
    "'s set \<Rightarrow> (nat \<Rightarrow> rstr) \<Rightarrow> nat set \<Rightarrow> 's pool \<Rightarrow> ('s \<Rightarrow> link) \<Rightarrow> (nat \<times> u8 list) set \<Rightarrow> bool" where
  "logged ss sqls tasks p v log \<longleftrightarrow>
     dom (busy p) \<subseteq> ss \<and> exclusive p \<and> waiting p \<union> at_work (busy p) \<union> fst ` log \<subseteq> tasks \<and>
     waiting p \<inter> fst ` log = {} \<and>
     (\<forall>s\<in>ss. slot_logged sqls log (busy p s) (v s)) \<and>
     (\<forall>i r. outcome p i = Some r \<longrightarrow> (\<exists>a. (i, a) \<in> log \<and> r = reply_result a))"

lemma logged_slot:
  assumes "logged ss sqls tasks p v log" "busy p s = Some (i, k)"
  shows "s \<in> ss" "i \<in> tasks" "slot_logged sqls log (Some (i, k)) (v s)"
proof -
  have "s \<in> dom (busy p)" using assms(2) by (rule domI)
  then show s: "s \<in> ss" using assms(1) unfolding logged_def by blast
  have "i \<in> at_work (busy p)" using assms(2) unfolding at_work_def by blast
  then show "i \<in> tasks" using assms(1) unfolding logged_def by blast
  show "slot_logged sqls log (Some (i, k)) (v s)"
    using assms s unfolding logged_def by (metis (no_types))
qed

lemma logged_outcome:
  "logged ss sqls tasks p v log \<Longrightarrow> outcome p i = Some r \<Longrightarrow> \<exists>a. (i, a) \<in> log \<and> r = reply_result a"
  unfolding logged_def by blast

lemma exclusive_update:
  assumes "exclusive p" "busy p s = Some (i, k)"
  shows "exclusive (p\<lparr>busy := (busy p)(s := Some (i, k'))\<rparr>)"
  using assms at_work_poll [where b = "busy p", OF assms(2)]
  unfolding exclusive_def by (auto split: if_splits)

lemma exclusive_release:
  assumes "exclusive p" "busy p s = Some (i, k)"
  shows "exclusive (p\<lparr>busy := (busy p)(s := None), outcome := out\<rparr>)"
  using assms at_work_release [where b = "busy p", OF assms(2)]
  unfolding exclusive_def by (auto split: if_splits)

lemma exclusive_acquire:
  assumes "exclusive p" "busy p s = None" "i \<in> waiting p"
  shows "exclusive (p\<lparr>waiting := waiting p - {i}, busy := (busy p)(s := Some (i, k))\<rparr>)"
proof -
  have "i \<notin> at_work (busy p)" using assms(1,3) unfolding exclusive_def by blast
  then have "busy p s' \<noteq> Some (i, k')" for s' k' unfolding at_work_def by blast
  then show ?thesis
    using assms at_work_take [where b = "busy p", OF assms(2)]
    unfolding exclusive_def by (auto split: if_splits)
qed

lemma logged_acquire:
  assumes "logged ss sqls tasks p v log" "i \<in> waiting p" "s \<in> ss" "busy p s = None"
  shows "logged ss sqls tasks
    (p\<lparr>waiting := waiting p - {i}, busy := (busy p)(s := Some (i, Created (sqls i)))\<rparr>) v log"
proof -
  have "i \<notin> fst ` log" using assms(1,2) unfolding logged_def by blast
  moreover have "slot_logged sqls log None (v s)" using assms(1,3,4) unfolding logged_def by (metis (no_types))
  ultimately have "slot_logged sqls log (Some (i, Created (sqls i))) (v s)" by (simp add: slot_logged_def)
  moreover have "exclusive (p\<lparr>waiting := waiting p - {i}, busy := (busy p)(s := Some (i, Created (sqls i)))\<rparr>)"
    using assms by (intro exclusive_acquire) (simp_all add: logged_def)
  ultimately show ?thesis
    using assms at_work_take [where b = "busy p", OF assms(4)] unfolding logged_def
    by (intro conjI) auto
qed

lemma logged_release:
  assumes "logged ss sqls tasks p v log" "busy p s = Some (i, Finished r)"
  shows "logged ss sqls tasks
    (p\<lparr>busy := (busy p)(s := None), outcome := (outcome p)(i := Some r)\<rparr>) v log"
proof -
  obtain a where a: "(i, a) \<in> log" "unsent (v s) = []" "to_read (v s) = []" "r = reply_result a"
    using logged_slot(3) [OF assms] by (auto simp: slot_logged_def)
  then have "slot_logged sqls log None (v s)" by (simp add: slot_logged_def)
  moreover have "exclusive (p\<lparr>busy := (busy p)(s := None), outcome := (outcome p)(i := Some r)\<rparr>)"
    using assms by (intro exclusive_release) (simp_all add: logged_def)
  ultimately show ?thesis
    using assms(1) a at_work_release [where b = "busy p", OF assms(2)] unfolding logged_def
    by (intro conjI) auto
qed

text \<open>A poll that executes nothing, and the one that flushes.\<close>

lemma logged_poll:
  assumes "logged ss sqls tasks p v log" "busy p s = Some (i, k)"
    and "slot_logged sqls log (Some (i, k')) l'"
  shows "logged ss sqls tasks (p\<lparr>busy := (busy p)(s := Some (i, k'))\<rparr>) (v(s := l')) log"
proof -
  have "exclusive (p\<lparr>busy := (busy p)(s := Some (i, k'))\<rparr>)"
    using assms by (intro exclusive_update) (simp_all add: logged_def)
  then show ?thesis
    using assms(1,3) logged_slot(1) [OF assms(1,2)] at_work_poll [where b = "busy p", OF assms(2)]
    unfolding logged_def by (intro conjI) auto
qed

lemma slot_logged_insert:
  "slot_logged sqls log slot l \<Longrightarrow> (\<And>k. slot \<noteq> Some (i, k)) \<Longrightarrow> slot_logged sqls (insert (i, a) log) slot l"
  by (cases slot) (auto simp: slot_logged_def split: if_splits intro: rev_image_eqI)

lemma logged_flush:
  assumes log: "logged ss sqls tasks p v log" and b: "busy p s = Some (i, k)"
    and "\<not> reading k" "reading k'" "serving a (sqls i) k' l'"
  shows "logged ss sqls tasks (p\<lparr>busy := (busy p)(s := Some (i, k'))\<rparr>) (v(s := l')) (insert (i, a) log)"
    "i \<notin> fst ` log"
proof -
  have ex: "exclusive p" using log unfolding logged_def by blast
  then have "exclusive (p\<lparr>busy := (busy p)(s := Some (i, k'))\<rparr>)" using b by (rule exclusive_update)
  moreover have "busy p x \<noteq> Some (i, k0)" if "x \<noteq> s" for x k0
    using ex b that unfolding exclusive_def by blast
  then have "slot_logged sqls (insert (i, a) log) (busy p x) (v x)" if "x \<in> ss" "x \<noteq> s" for x
    using log that unfolding logged_def by (intro slot_logged_insert) auto
  moreover have "slot_logged sqls (insert (i, a) log) (Some (i, k')) l'"
    using assms(4,5) by (auto simp: slot_logged_def)
  moreover have "i \<in> at_work (busy p)" using b unfolding at_work_def by blast
  then have "i \<notin> waiting p" using ex unfolding exclusive_def by blast
  moreover have "\<exists>a'. (j, a') \<in> insert (i, a) log \<and> r = reply_result a'" if "outcome p j = Some r" for j r
    using logged_outcome [OF log that] by blast
  ultimately show "logged ss sqls tasks (p\<lparr>busy := (busy p)(s := Some (i, k'))\<rparr>) (v(s := l')) (insert (i, a) log)"
    using log logged_slot(1,2) [OF log b] at_work_poll [where b = "busy p", OF b]
    unfolding logged_def by (intro conjI) simp_all
  show "i \<notin> fst ` log" using logged_slot(3) [OF log b] assms(3) by (simp add: slot_logged_def)
qed

section \<open>Every run has a serial order\<close>

definition serialized ::
    "('w \<Rightarrow> 's \<Rightarrow> link) \<Rightarrow> ('w \<Rightarrow> 'db) \<Rightarrow> (rstr \<Rightarrow> 'db \<Rightarrow> u8 list \<times> 'db) \<Rightarrow> 's set \<Rightarrow> (nat \<Rightarrow> rstr) \<Rightarrow>
     nat set \<Rightarrow> 'db \<Rightarrow> 's pool \<Rightarrow> 'w \<Rightarrow> nat list \<Rightarrow> bool" where
  "serialized view db exec ss sqls tasks d0 p w order \<longleftrightarrow>
     logged ss sqls tasks p (view w) (set (fst (serial exec sqls order d0))) \<and>
     db w = snd (serial exec sqls order d0) \<and> distinct order"

lemma serialized_slot:
  assumes "serialized view db exec ss sqls tasks d0 p w order" "busy p s = Some (i, k)"
    and "view w' = (view w)(s := l')" "db w' = db w"
    and "slot_logged sqls (set (fst (serial exec sqls order d0))) (Some (i, k')) l'"
  shows "serialized view db exec ss sqls tasks d0 (p\<lparr>busy := (busy p)(s := Some (i, k'))\<rparr>) w' order"
  using assms(1,4) logged_poll [OF _ assms(2,5)] unfolding serialized_def assms(3) by simp

lemma serialized_flush:
  assumes ser: "serialized view db exec ss sqls tasks d0 p w order" and b: "busy p s = Some (i, k)"
    and "\<not> reading k" "reading k'" "serving (fst (exec (sqls i) (db w))) (sqls i) k' l'"
    and "view w' = (view w)(s := l')" "db w' = snd (exec (sqls i) (db w))"
  shows "serialized view db exec ss sqls tasks d0 (p\<lparr>busy := (busy p)(s := Some (i, k'))\<rparr>) w' (order @ [i])"
proof -
  let ?log = "set (fst (serial exec sqls order d0))"
  have log: "logged ss sqls tasks p (view w) ?log" and d: "db w = snd (serial exec sqls order d0)"
    and dist: "distinct order" using ser unfolding serialized_def by blast+
  have "set (fst (serial exec sqls (order @ [i]) d0)) = insert (i, fst (exec (sqls i) (db w))) ?log"
    "snd (serial exec sqls (order @ [i]) d0) = snd (exec (sqls i) (db w))"
    unfolding d by (simp_all add: serial_snoc split: prod.splits)
  moreover have "set order = fst ` ?log" by (metis list.set_map serial_order)
  ultimately show ?thesis
    using logged_flush [OF log b assms(3-5)] dist unfolding serialized_def assms(6,7) by simp
qed

lemma serialized_poll:
  assumes srv: "database_server t view db exec"
    and ser: "serialized view db exec ss sqls tasks d0 p w order" and b: "busy p s = Some (i, k)"
    and st: "task_step t s k w = Some (k', w')"
  shows "\<exists>later. serialized view db exec ss sqls tasks d0
    (p\<lparr>busy := (busy p)(s := Some (i, k'))\<rparr>) w' (order @ later)"
proof -
  let ?log = "set (fst (serial exec sqls order d0))"
  have "logged ss sqls tasks p (view w) ?log" using ser unfolding serialized_def by blast
  from logged_slot(3) [OF this b] have slot: "slot_logged sqls ?log (Some (i, k)) (view w s)" .
  consider "reading k" | q where "k = Created q" | "k = Flushing" by (cases k) auto
  then show ?thesis
  proof cases
    case 1
    then obtain a where a: "(i, a) \<in> ?log" "serving a (sqls i) k (view w s)"
      using slot by (auto simp: slot_logged_def)
    obtain l' where l': "view w' = (view w)(s := l')" "db w' = db w" "reading k'"
      "serving a (sqls i) k' l'" by (rule read_step [OF srv st a(2) 1])
    with a(1) have "slot_logged sqls ?log (Some (i, k')) l'" by (auto simp: slot_logged_def)
    from serialized_slot [OF ser b l'(1,2) this] show ?thesis by (intro exI [of _ "[]"]) simp
  next
    case 2
    with slot have i: "i \<notin> fst ` ?log" "serving [] (sqls i) (Created q) (view w s)"
      by (simp_all add: slot_logged_def)
    obtain l' where l': "view w' = (view w)(s := l')" "db w' = db w" "k' = Flushing"
      "serving [] (sqls i) k' l'" by (rule submit_step [OF srv st [unfolded 2] i(2)])
    with i(1) have "slot_logged sqls ?log (Some (i, k')) l'" by (simp add: slot_logged_def)
    from serialized_slot [OF ser b l'(1,2) this] show ?thesis by (intro exI [of _ "[]"]) simp
  next
    case 3
    with slot have "serving [] (sqls i) Flushing (view w s)" by (simp add: slot_logged_def)
    then obtain l' where l': "view w' = (view w)(s := l')" "db w' = snd (exec (sqls i) (db w))"
      "reading k'" "serving (fst (exec (sqls i) (db w))) (sqls i) k' l'"
      by (rule flush_step [OF srv st [unfolded 3]])
    from serialized_flush [OF ser b _ l'(3,4,1,2)] 3 show ?thesis by auto
  qed
qed

lemma run_serialized:
  assumes "pool_steps t ss sqls p0 w0 n p w" and srv: "database_server t view db exec"
    and "serialized view db exec ss sqls tasks d0 p0 w0 order"
  shows "\<exists>later. serialized view db exec ss sqls tasks d0 p w (order @ later)"
  using assms(1)
proof (induction rule: pool_steps.induct)
  case start
  show ?case using assms(3) by (intro exI [of _ "[]"]) simp
next
  case (acquire n p w i s)
  then show ?case using logged_acquire [OF _ acquire.hyps(2-4)] unfolding serialized_def by metis
next
  case (poll n p w s i k k' w')
  then obtain later where "serialized view db exec ss sqls tasks d0 p w (order @ later)" by blast
  from serialized_poll [OF srv this poll.hyps(2,3)] show ?case by (metis append.assoc)
next
  case (release n p w s i r)
  then show ?case using logged_release [OF _ release.hyps(2)] unfolding serialized_def by metis
qed

lemma start_serialized:
  "\<forall>s\<in>ss. to_read (view w s) = [] \<and> unsent (view w s) = [] \<Longrightarrow>
    serialized view db exec ss sqls tasks (db w) (pool_start tasks) w []"
  by (simp add: serialized_def logged_def pool_start_def exclusive_def at_work_def slot_logged_def)

lemma serialized_order:
  assumes "serialized view db exec ss sqls tasks d0 p w order"
  shows "distinct order" "set order \<subseteq> tasks" "waiting p \<inter> set order = {}" "dom (outcome p) \<subseteq> set order"
    "db w = snd (serial exec sqls order d0)"
    "outcome p i = Some r \<Longrightarrow> \<exists>a. (i, a) \<in> set (fst (serial exec sqls order d0)) \<and> r = reply_result a"
proof -
  let ?log = "set (fst (serial exec sqls order d0))"
  have log: "logged ss sqls tasks p (view w) ?log" using assms unfolding serialized_def by blast
  show "distinct order" "db w = snd (serial exec sqls order d0)" using assms unfolding serialized_def by blast+
  have o: "set order = fst ` ?log" by (metis list.set_map serial_order)
  show "set order \<subseteq> tasks" "waiting p \<inter> set order = {}" using log unfolding o logged_def by blast+
  show "dom (outcome p) \<subseteq> set order"
  proof
    fix j
    assume "j \<in> dom (outcome p)"
    then obtain r where "outcome p j = Some r" by (auto simp: dom_def)
    from logged_outcome [OF log this] show "j \<in> set order" unfolding o by force
  qed
  show "outcome p i = Some r \<Longrightarrow> \<exists>a. (i, a) \<in> ?log \<and> r = reply_result a" by (rule logged_outcome [OF log])
qed

text \<open>C9: A pool of connections to one database is linearizable. However the
  queries share the connections and their polls are interleaved, there is one order of the
  statements such that each query that has come back has the answer it would have if the
  statements were executed one after the other in that order, and the database is in the state
  that execution leaves. Going on from there only appends to the order: every query that had
  come back stands in it before every query that was still waiting for a connection.\<close>

theorem pool_linearizable:
  assumes "database_server t view db exec"
    and "\<forall>s\<in>ss. to_read (view w s) = [] \<and> unsent (view w s) = []"
    and "pool_steps t ss sqls (pool_start tasks) w n p w1" and "pool_steps t ss sqls p w1 m q w2"
  shows "\<exists>order later. distinct (order @ later) \<and> set (order @ later) \<subseteq> tasks \<and>
    dom (outcome p) \<subseteq> set order \<and> waiting p \<inter> set order = {} \<and>
    db w1 = snd (serial exec sqls order (db w)) \<and>
    db w2 = snd (serial exec sqls (order @ later) (db w)) \<and>
    (\<forall>i r. outcome q i = Some r \<longrightarrow>
       (\<exists>a. (i, a) \<in> set (fst (serial exec sqls (order @ later) (db w))) \<and> r = reply_result a))"
proof -
  have "\<exists>order. serialized view db exec ss sqls tasks (db w) p w1 ([] @ order)"
    by (rule run_serialized [OF assms(3,1) start_serialized [where view = view and w = w, OF assms(2)]])
  then obtain order where one: "serialized view db exec ss sqls tasks (db w) p w1 order" by auto
  obtain later where two: "serialized view db exec ss sqls tasks (db w) q w2 (order @ later)"
    using run_serialized [OF assms(4,1) one] by blast
  show ?thesis
    using serialized_order(3-5) [OF one] serialized_order(1,2,5,6) [OF two]
    by (intro exI [of _ order] exI [of _ later]) blast
qed

section \<open>A concrete database\<close>

text \<open>The links of the connections and the stored state; \<open>f\<close> executes a request message.\<close>

record 'db store =
  links :: "nat \<Rightarrow> link"
  contents :: 'db

definition store_read :: "nat \<Rightarrow> nat \<Rightarrow> 'db store \<Rightarrow> ((io_error + u8 list) \<times> 'db store) option" where
  "store_read s n w =
     (let l = links w s
      in Some (if n \<le> length (to_read l)
               then (Inr (take n (to_read l)), w\<lparr>links := (links w)(s := l\<lparr>to_read := drop n (to_read l)\<rparr>)\<rparr>)
               else (Inl (IoError (lit ''unexpected end of file'')), w)))"

definition store_flush ::
    "(u8 list \<Rightarrow> 'db \<Rightarrow> u8 list \<times> 'db) \<Rightarrow> nat \<Rightarrow> 'db store \<Rightarrow> ((io_error + unit) \<times> 'db store) option" where
  "store_flush f s w =
     (let l = links w s;
          (reply, d) = (case decode_message (unsent l) of
            Some (request, k) \<Rightarrow> (case f request (contents w) of (a, d) \<Rightarrow> (encode_message a [], d))
          | None \<Rightarrow> ([], contents w))
      in Some (Inr (), \<lparr>links = (links w)(s := l\<lparr>to_read := to_read l @ reply, unsent := [],
            sent := sent l @ unsent l\<rparr>), contents = d\<rparr>))"

definition store_server :: "(u8 list \<Rightarrow> 'db \<Rightarrow> u8 list \<times> 'db) \<Rightarrow> ('db store, nat) transport" where
  "store_server f =
     \<lparr>t_connect = (\<lambda>host port w. Some (Inr 0, w)), t_read_buffered = store_read,
      t_put_slice = (\<lambda>s bytes w. w\<lparr>links := (links w)(s := (links w s)\<lparr>unsent := unsent (links w s) @ bytes\<rparr>)\<rparr>),
      t_flush = store_flush f, t_shutdown = store_flush f, t_shrink_buffers = (\<lambda>s w. w)\<rparr>"

lemma store_database: "database_server (store_server f) links contents (\<lambda>sql. f (encode_query sql))"
  unfolding database_server_def
proof (intro conjI allI impI)
  have same: "(links w)(s := (links w s)\<lparr>to_read := to_read (links w s)\<rparr>) = links w" for w :: "'a store" and s
    by (rule ext) simp
  show "own_reads (store_server f) links"
    unfolding own_reads_def store_server_def store_read_def
    by (auto simp: Let_def) (metis same)
next
  fix s n w r w'
  assume "t_read_buffered (store_server f) s n w = Some (r, w')"
  then show "contents w' = contents w" by (auto simp: store_server_def store_read_def Let_def split: if_splits)
next
  fix s :: nat and w :: "'a store" and sql
  assume "unsent (links w s) = encode_message (encode_query sql) []"
  moreover have "decode_message (encode_message (encode_query sql) []) =
      Some (encode_query sql, length (encode_message (encode_query sql) []))"
    using decode_encode_message [of "encode_query sql" "[]"] by simp
  ultimately show "\<exists>w'. t_flush (store_server f) s w = Some (Inr (), w') \<and>
      contents w' = snd (f (encode_query sql) (contents w)) \<and>
      links w' = (links w)(s := (links w s)\<lparr>
        to_read := to_read (links w s) @ encode_message (fst (f (encode_query sql) (contents w))) [],
        unsent := [], sent := sent (links w s) @ unsent (links w s)\<rparr>)"
    by (simp add: store_server_def store_flush_def Let_def split: prod.splits)
qed (simp_all add: store_server_def)

text \<open>A pool can run one query to its end.\<close>

lemma pool_polls:
  "task_steps t s k w k' w' \<Longrightarrow> pool_steps t ss sqls p0 w0 m p w \<Longrightarrow> busy p s = Some (i, k) \<Longrightarrow>
    \<exists>n. pool_steps t ss sqls p0 w0 n (p\<lparr>busy := (busy p)(s := Some (i, k'))\<rparr>) w'"
proof (induction arbitrary: m p rule: task_steps.induct)
  case (stay k w)
  then have "p\<lparr>busy := (busy p)(s := Some (i, k))\<rparr> = p" by (cases p) (auto simp: fun_upd_idem)
  with stay.prems(1) show ?case by (metis (no_types))
next
  case (step k w k1 w1 k2 w2)
  have run: "pool_steps t ss sqls p0 w0 (Suc m) (p\<lparr>busy := (busy p)(s := Some (i, k1))\<rparr>) w1"
    by (rule pool_steps.poll [OF step.prems step.hyps(1)])
  have "busy (p\<lparr>busy := (busy p)(s := Some (i, k1))\<rparr>) s = Some (i, k1)" by simp
  from step.IH [OF run this] show ?case by (simp del: fun_upd_apply)
qed

definition sample_statements :: "nat \<Rightarrow> rstr" where
  "sample_statements i = (if i = 1 then lit ''DELETE FROM t'' else lit ''CREATE TABLE t (n INT)'')"

definition fresh_links :: "nat \<Rightarrow> link" where
  "fresh_links s = \<lparr>to_read = [], unsent = [], sent = []\<rparr>"

lemma fresh: "\<forall>s\<in>ss. to_read (fresh_links s) = [] \<and> unsent (fresh_links s) = []"
  by (simp add: fresh_links_def)

definition count_statements :: "u8 list \<Rightarrow> nat \<Rightarrow> u8 list \<times> nat" where
  "count_statements request n = (as_bytes (lit ''&2 '' @ show_nat n @ lit '' -1''), Suc n)"

definition empty_store :: "nat store" where
  "empty_store = \<lparr>links = fresh_links, contents = 0\<rparr>"

theorem pool_linearizable_witness:
  "\<exists>n p w1 order. pool_steps (store_server count_statements) {0} sample_statements
       (pool_start {0, 1}) empty_store n p w1 \<and>
     0 \<in> dom (outcome p) \<and> 1 \<in> waiting p \<and> 0 \<in> set order \<and> 1 \<notin> set order \<and>
     contents w1 = snd (serial (\<lambda>sql. count_statements (encode_query sql)) sample_statements order 0)"
proof -
  let ?t = "store_server count_statements" and ?exec = "\<lambda>sql. count_statements (encode_query sql)"
  let ?sql = "sample_statements 0" and ?steps = "pool_steps (store_server count_statements) {0} sample_statements"
  let ?p = "(pool_start {0, 1})\<lparr>waiting := {1}, busy := (\<lambda>_ :: nat. None)(0 := Some (0, Created ?sql))\<rparr>"
  have rest: "to_read (links empty_store 0) = []" "unsent (links empty_store 0) = []"
    by (simp_all add: empty_store_def fresh_links_def)
  obtain w' l' where q: "execute_query ?t 0 ?sql empty_store =
      Some (reply_result (fst (?exec ?sql (contents empty_store))), w')"
    by (rule database_query [OF store_database rest])
  have "?steps (pool_start {0, 1}) empty_store (Suc 0)
      ((pool_start {0, 1})\<lparr>waiting := waiting (pool_start {0, 1} :: nat pool) - {0},
        busy := (busy (pool_start {0, 1}))(0 := Some (0, Created ?sql))\<rparr>) empty_store"
    by (rule pool_steps.acquire [OF pool_steps.start]) (simp_all add: pool_start_def)
  moreover have "(pool_start {0, 1})\<lparr>waiting := waiting (pool_start {0, 1} :: nat pool) - {0},
        busy := (busy (pool_start {0, 1}))(0 := Some (0, Created ?sql))\<rparr> = ?p"
    by (auto simp: pool_start_def)
  ultimately have "?steps (pool_start {0, 1}) empty_store (Suc 0) ?p empty_store" by simp
  from pool_polls [OF query_steps [OF q] this] obtain n r where
    "?steps (pool_start {0, 1}) empty_store n (?p\<lparr>busy := (busy ?p)(0 := Some (0, Finished r))\<rparr>) w'"
    by auto
  from pool_steps.release [OF this, of 0 0 r] obtain p where
    run: "?steps (pool_start {0, 1}) empty_store (Suc n) p w'" "0 \<in> dom (outcome p)" "1 \<in> waiting p"
    by (auto simp: pool_start_def)
  have "\<forall>s\<in>{0}. to_read (links empty_store s) = [] \<and> unsent (links empty_store s) = []" using rest by simp
  from pool_linearizable [where view = links and w = empty_store, OF store_database this run(1) pool_steps.start]
  obtain order where "dom (outcome p) \<subseteq> set order" "waiting p \<inter> set order = {}"
    "contents w' = snd (serial ?exec sample_statements order (contents empty_store))" by blast
  moreover have "contents empty_store = 0" by (simp add: empty_store_def)
  ultimately show ?thesis using run by (intro exI [of _ "Suc n"] exI [of _ p] exI [of _ w'] exI [of _ order]) auto
qed

end
