(* ===== verification/Cancellation.thy ===== *)
theory Cancellation
  imports Linearizable
begin

text \<open>
  A future that is dropped at one of its \<open>await\<close>s leaves the connection as it stands there. The
  driver keeps nothing about a query in flight outside its future, so the next query on the
  connection starts from the bytes the dropped one had not read, or not sent.
\<close>

section \<open>A query from any state of its connection\<close>

lemma query_outcome:
  assumes iso: "isolated t view"
  shows "case decode_message (to_read (view w s)) of
      Some (m, k) \<Rightarrow> \<exists>w'. execute_query t s sql w = Some (reply_result m, w') \<and>
        to_read (view w' s) = drop k (to_read (view w s)) \<and>
        sent (view w' s) @ unsent (view w' s) =
          sent (view w s) @ unsent (view w s) @ encode_message (encode_query sql) []
    | None \<Rightarrow> \<exists>e w'. execute_query t s sql w = Some (Inl (Failed (SqlxIo e)), w')"
proof -
  note h = isolated_healthy [OF iso, of s]
  obtain w1 where w1: "write_message t s (encode_query sql) w = Some (Inr (), w1)"
    "to_read (view w1 s) = to_read (view w s)"
    "sent (view w1 s) @ unsent (view w1 s) =
      (sent (view w s) @ unsent (view w s)) @ encode_message (encode_query sql) []"
    by (rule write_message_healthy [OF h])
  show ?thesis
  proof (cases "decode_message (to_read (view w s))")
    case None
    then obtain e w2 where "read_loop t s [] w1 = Some (Inl (Failed (SqlxIo e)), w2)"
      using read_loop_decode [OF h, where w = w1 and message = "[]"] w1(2) by auto
    then show ?thesis using None w1(1)
      by (simp add: execute_query_def read_text_message_def read_message_def io_bind_def)
  next
    case (Some mk)
    obtain m k where mk: "mk = (m, k)" by fastforce
    then obtain w2 where w2: "read_loop t s [] w1 = Some (Inr m, w2)"
      "to_read (view w2 s) = drop k (to_read (view w1 s))"
      "sent (view w2 s) @ unsent (view w2 s) = sent (view w1 s) @ unsent (view w1 s)"
      using read_loop_decode [OF h, where w = w1 and message = "[]"] w1(2) Some by auto
    from w1(1) w2(1) have "execute_query t s sql w = Some (reply_result m, w2)"
      by (cases "from_utf8 m")
        (simp_all add: execute_query_def read_text_message_def read_message_def reply_result_def
          io_bind_def io_lift_def)
    with Some mk w1(2,3) w2(2,3) show ?thesis by simp
  qed
qed

lemma one_block_message:
  "p \<noteq> [] \<Longrightarrow> length p \<le> MAX_BLOCK_PAYLOAD \<Longrightarrow> encode_message p [] = block p True"
  using chunks_not_Nil [OF MAX_pos, of p] by (simp add: encode_message_def encode_chunks_blocks block_def)

lemma one_block_length:
  "0 < length p \<Longrightarrow> length p \<le> MAX_BLOCK_PAYLOAD \<Longrightarrow> length (encode_message p []) = 2 + length p"
  using one_block_message [of p] by (auto simp: block_def split: prod.splits)

text \<open>The point at which \<open>Sessions\<close> drops a query is the first wait for a header.\<close>

lemma dropped_at_header:
  "execute_query_dropped t s sql w = Some (Inr (), w1) \<longleftrightarrow>
     task_step t s (Created sql) w = Some (Flushing, t_put_slice t s (encode_message (encode_query sql) []) w) \<and>
     task_step t s Flushing (t_put_slice t s (encode_message (encode_query sql) []) w) = Some (Header [], w1)"
  by (cases "t_flush t s (t_put_slice t s (encode_message (encode_query sql) []) w)")
    (auto simp: execute_query_dropped_def write_message_def put_slice_def io_bind_def io_os_def
      split: sum.splits)

section \<open>Dropped before the request is sent\<close>

text \<open>
  A server that executes every request it is sent: what is flushed to it may hold several, which it
  executes in their order, and it answers each. \<open>exec\<close> and \<open>db\<close> are those of \<open>database_server\<close>,
  which says nothing of a buffer with more than one request.
\<close>

definition requests :: "rstr list \<Rightarrow> u8 list" where
  "requests sqls = concat (map (\<lambda>sql. encode_message (encode_query sql) []) sqls)"

primrec answers :: "(rstr \<Rightarrow> 'db \<Rightarrow> u8 list \<times> 'db) \<Rightarrow> rstr list \<Rightarrow> 'db \<Rightarrow> u8 list list \<times> 'db" where
  "answers exec [] d = ([], d)"
| "answers exec (sql # sqls) d =
     (case exec sql d of (a, d1) \<Rightarrow> case answers exec sqls d1 of (as, d2) \<Rightarrow> (a # as, d2))"

definition messages :: "u8 list list \<Rightarrow> u8 list" where
  "messages as = concat (map (\<lambda>a. encode_message a []) as)"

definition request_server ::
    "('w, 's) transport \<Rightarrow> ('w \<Rightarrow> 's \<Rightarrow> link) \<Rightarrow> ('w \<Rightarrow> 'db) \<Rightarrow> (rstr \<Rightarrow> 'db \<Rightarrow> u8 list \<times> 'db) \<Rightarrow> bool" where
  "request_server t view db exec \<longleftrightarrow>
     own_reads t view \<and>
     (\<forall>s n w r w'. t_read_buffered t s n w = Some (r, w') \<longrightarrow> db w' = db w) \<and>
     (\<forall>s w bytes. db (t_put_slice t s bytes w) = db w \<and> view (t_put_slice t s bytes w) =
        (view w)(s := (view w s)\<lparr>unsent := unsent (view w s) @ bytes\<rparr>)) \<and>
     (\<forall>s w sqls. unsent (view w s) = requests sqls \<longrightarrow>
        (\<exists>w'. t_flush t s w = Some (Inr (), w') \<and> db w' = snd (answers exec sqls (db w)) \<and>
           view w' = (view w)(s := (view w s)\<lparr>
             to_read := to_read (view w s) @ messages (fst (answers exec sqls (db w))),
             unsent := [], sent := sent (view w s) @ unsent (view w s)\<rparr>)))"

lemma request_put:
  assumes "request_server t view db exec"
  shows "view (t_put_slice t s bytes w) = (view w)(s := (view w s)\<lparr>unsent := unsent (view w s) @ bytes\<rparr>)"
    "db (t_put_slice t s bytes w) = db w"
  using assms unfolding request_server_def by (elim conjE; blast)+

lemma request_flush:
  assumes "request_server t view db exec" "unsent (view w s) = requests sqls"
  obtains w' where "t_flush t s w = Some (Inr (), w')" "db w' = snd (answers exec sqls (db w))"
    "view w' = (view w)(s := (view w s)\<lparr>
       to_read := to_read (view w s) @ messages (fst (answers exec sqls (db w))),
       unsent := [], sent := sent (view w s) @ unsent (view w s)\<rparr>)"
  using assms unfolding request_server_def by (elim conjE) blast

text \<open>A query that only has to read ends with the first response, whatever follows that.\<close>

lemma reading_finishes:
  assumes own: "own_reads t view"
    and kept: "\<forall>s n w r w'. t_read_buffered t s n w = Some (r, w') \<longrightarrow> db w' = db w"
  shows "ahead k (to_read (view w s)) = Some (r, rest) \<Longrightarrow> unsent (view w s) = [] \<Longrightarrow> reading k \<Longrightarrow>
    \<exists>w'. task_steps t s k w (Finished r) w' \<and> db w' = db w \<and> to_read (view w' s) = rest \<and>
      unsent (view w' s) = [] \<and> sent (view w' s) = sent (view w s)"
proof (induction "weight k (view w s)" arbitrary: k w rule: less_induct)
  case less
  show ?case
  proof (cases "finished k")
    case True
    then obtain r' where "k = Finished r'" by (cases k) auto
    with less.prems show ?thesis by (intro exI [of _ w]) (auto intro: task_steps.stay)
  next
    case False
    then obtain k' w1 where st: "task_step t s k w = Some (k', w1)"
      using reading_enabled [OF own less.prems(3)] by blast
    have r: "reading k'" by (rule step_reading [OF st less.prems(3)])
    have "\<exists>l1. view w1 = (view w)(s := l1) \<and> progress (view w s) k l1 k'"
      using st less.prems(3) False step_header [OF own] step_payload [OF own] by (cases k) simp_all
    then obtain l1 where l1: "view w1 = (view w)(s := l1)" "progress (view w s) k l1 k'" by blast
    have d: "db w1 = db w" using st less.prems(3) False by (cases k) (auto dest: kept [rule_format])
    have p: "ahead k' (to_read l1) = Some (r, rest)" "unsent l1 = []" "sent l1 = sent (view w s)"
      "weight k' l1 < weight k (view w s)"
      using l1(2) less.prems r False by (cases k; cases k'; auto simp: progress_def io_failed_def)+
    with less.hyps [of k' w1] r obtain w' where "task_steps t s k' w1 (Finished r) w'" "db w' = db w1"
      "to_read (view w' s) = rest" "unsent (view w' s) = []" "sent (view w' s) = sent (view w1 s)"
      by (auto simp: l1(1))
    with task_steps.step [OF st] d p(3) show ?thesis by (intro exI [of _ w']) (simp add: l1(1))
  qed
qed

text \<open>A query on a connection whose buffer holds other requests still: all are executed, and it is
  given the answer to the first.\<close>

lemma query_behind:
  assumes srv: "request_server t view db exec" and "to_read (view w s) = []"
    and "unsent (view w s) = requests sqls"
    and as: "answers exec (sqls @ [sql]) (db w) = (a # later, d)"
  obtains w' where "execute_query t s sql w = Some (reply_result a, w')" "db w' = d"
    "to_read (view w' s) = messages later" "unsent (view w' s) = []"
    "sent (view w' s) = sent (view w s) @ requests (sqls @ [sql])"
proof -
  let ?w1 = "t_put_slice t s (encode_message (encode_query sql) []) w"
  have st1: "task_step t s (Created sql) w = Some (Flushing, ?w1)" by simp
  have l1: "view ?w1 s = (view w s)\<lparr>unsent := requests (sqls @ [sql])\<rparr>"
    by (simp add: request_put [OF srv] assms(3) requests_def)
  have ans: "answers exec (sqls @ [sql]) (db ?w1) = (a # later, d)" by (simp add: request_put [OF srv] as)
  have "unsent (view ?w1 s) = requests (sqls @ [sql])" by (simp add: l1)
  then obtain w2 where flush: "t_flush t s ?w1 = Some (Inr (), w2)" and d2: "db w2 = d"
    and v2: "view w2 s = (view ?w1 s)\<lparr>to_read := to_read (view ?w1 s) @ messages (a # later),
       unsent := [], sent := sent (view ?w1 s) @ unsent (view ?w1 s)\<rparr>"
    by (rule request_flush [OF srv]) (simp add: ans)
  note w2 = flush d2 v2 [unfolded l1, simplified, unfolded assms(2), simplified]
  then have st2: "task_step t s Flushing ?w1 = Some (Header [], w2)" by simp
  have ah: "ahead (Header []) (to_read (view w2 s)) = Some (reply_result a, messages later)"
    by (simp add: w2(3) messages_def whole_def decode_encode_message query_result_reply)
  have own: "own_reads t view"
    and kept: "\<forall>s n w r w'. t_read_buffered t s n w = Some (r, w') \<longrightarrow> db w' = db w"
    using srv unfolding request_server_def by blast+
  have "unsent (view w2 s) = []" "reading (Header [])" by (simp_all add: w2)
  from reading_finishes [where db = db, OF own kept ah this] obtain w' where
    w': "task_steps t s (Header []) w2 (Finished (reply_result a)) w'" "db w' = d"
    "to_read (view w' s) = messages later" "unsent (view w' s) = []"
    "sent (view w' s) = sent (view w s) @ requests (sqls @ [sql])"
    by (auto simp: w2)
  from steps_remaining [OF task_steps.step [OF st1 task_steps.step [OF st2 w'(1)]]]
  have "execute_query t s sql w = Some (reply_result a, w')" by simp
  then show ?thesis using w'(2-5) by (rule that)
qed

text \<open>C25: A statement that is dropped while its request still waits to be
  flushed is not withdrawn, and nothing of it is seen until the next query. That one flushes its
  own request behind it and behind those of the statements dropped \<open>earlier\<close> at the same point:
  a server that executes what it is sent executes them all, in this order, although they were
  cancelled. The next query returns the answer to the first of them; the answers to the others,
  its own the last, stay on the connection unread. The write buffer is empty then and all the
  requests have been sent.\<close>

theorem cancelled_before_flush:
  assumes "request_server t view db exec"
    and "to_read (view w s) = []" and "unsent (view w s) = requests earlier"
    and "answers exec (earlier @ [sql, next_sql]) (db w) = (a # later, d)"
  shows "\<exists>w1 w2. task_steps t s (Created sql) w Flushing w1 \<and>
    sent (view w1 s) = sent (view w s) \<and> db w1 = db w \<and>
    execute_query t s next_sql w1 = Some (reply_result a, w2) \<and> db w2 = d \<and>
    to_read (view w2 s) = messages later \<and> unsent (view w2 s) = [] \<and>
    sent (view w2 s) = sent (view w s) @ requests (earlier @ [sql, next_sql])"
proof -
  let ?w1 = "t_put_slice t s (encode_message (encode_query sql) []) w"
  have l1: "view ?w1 s = (view w s)\<lparr>unsent := requests (earlier @ [sql])\<rparr>" and d1: "db ?w1 = db w"
    by (simp_all add: request_put [OF assms(1)] assms(3) requests_def)
  have "answers exec ((earlier @ [sql]) @ [next_sql]) (db ?w1) = (a # later, d)"
    using assms(4) d1 by simp
  moreover have "to_read (view ?w1 s) = []" "unsent (view ?w1 s) = requests (earlier @ [sql])"
    by (simp_all add: l1 assms(2))
  ultimately obtain w2 where "execute_query t s next_sql ?w1 = Some (reply_result a, w2)" "db w2 = d"
    "to_read (view w2 s) = messages later" "unsent (view w2 s) = []"
    "sent (view w2 s) = sent (view ?w1 s) @ requests ((earlier @ [sql]) @ [next_sql])"
    using query_behind [OF assms(1)] by metis
  moreover have "task_steps t s (Created sql) w Flushing ?w1" by (rule last_step) simp
  ultimately show ?thesis by (intro exI [of _ ?w1] exI [of _ w2]) (simp add: l1 d1)
qed

text \<open>The server of \<open>Linearizable\<close>, which executes all of the buffer.\<close>

function serve_all :: "(u8 list \<Rightarrow> 'db \<Rightarrow> u8 list \<times> 'db) \<Rightarrow> u8 list \<Rightarrow> 'db \<Rightarrow> u8 list \<times> 'db" where
  "serve_all f buf d =
     (case decode_message buf of
        None \<Rightarrow> ([], d)
      | Some (request, k) \<Rightarrow>
          if k = 0 \<or> buf = [] then ([], d)
          else (case f request d of (a, d1) \<Rightarrow>
                  case serve_all f (drop k buf) d1 of (out, d2) \<Rightarrow> (encode_message a [] @ out, d2)))"
  by pat_completeness auto
termination by (relation "measure (\<lambda>(f, buf, d). length buf)") (auto simp: diff_less)

declare serve_all.simps [simp del]

lemma serve_all_requests:
  "serve_all f (requests sqls) d =
     (case answers (\<lambda>sql. f (encode_query sql)) sqls d of (as, d') \<Rightarrow> (messages as, d'))"
proof (induction sqls arbitrary: d)
  case Nil
  show ?case by (simp add: serve_all.simps [of f "[]"] requests_def messages_def decode_message_short)
next
  case (Cons sql sqls)
  let ?m = "encode_message (encode_query sql) []"
  have "requests (sql # sqls) = ?m @ requests sqls" by (simp add: requests_def)
  moreover have "?m \<noteq> []" using decode_encode_message [of "encode_query sql" "[]"]
    by (metis append_Nil2 decode_message_short list.size(3) option.distinct(1) zero_less_numeral)
  ultimately show ?case using Cons.IH
    by (subst serve_all.simps)
      (auto simp: decode_encode_message messages_def split: prod.splits)
qed

definition all_server :: "(u8 list \<Rightarrow> 'db \<Rightarrow> u8 list \<times> 'db) \<Rightarrow> ('db store, nat) transport" where
  "all_server f = (store_server f)\<lparr>t_flush := \<lambda>s w.
     let l = links w s; (reply, d) = serve_all f (unsent l) (contents w)
     in Some (Inr (), \<lparr>links = (links w)(s := l\<lparr>to_read := to_read l @ reply, unsent := [],
          sent := sent l @ unsent l\<rparr>), contents = d\<rparr>)\<rparr>"

lemma all_server_requests: "request_server (all_server f) links contents (\<lambda>sql. f (encode_query sql))"
  unfolding request_server_def
proof (intro conjI allI impI)
  have "own_reads (store_server f) links"
    by (rule database_reads [OF store_database])
  moreover have "t_read_buffered (all_server f) = t_read_buffered (store_server f)"
    by (simp add: all_server_def)
  ultimately show "own_reads (all_server f) links" unfolding own_reads_def by (simp only:)
next
  fix s n w r w'
  assume "t_read_buffered (all_server f) s n w = Some (r, w')"
  then have "t_read_buffered (store_server f) s n w = Some (r, w')" by (simp add: all_server_def)
  then show "contents w' = contents w" by (rule database_read [OF store_database])
next
  fix s :: nat and w :: "'a store" and sqls
  assume "unsent (links w s) = requests sqls"
  then show "\<exists>w'. t_flush (all_server f) s w = Some (Inr (), w') \<and>
      contents w' = snd (answers (\<lambda>sql. f (encode_query sql)) sqls (contents w)) \<and>
      links w' = (links w)(s := (links w s)\<lparr>
        to_read := to_read (links w s) @ messages (fst (answers (\<lambda>sql. f (encode_query sql)) sqls (contents w))),
        unsent := [], sent := sent (links w s) @ unsent (links w s)\<rparr>)"
    by (simp add: all_server_def Let_def serve_all_requests split: prod.splits)
qed (simp_all add: all_server_def store_server_def)

theorem cancelled_before_flush_witness:
  "\<exists>w1 w2. task_steps (all_server count_statements) 0 (Created (lit ''DELETE FROM t''))
       \<lparr>links = fresh_links, contents = 7\<rparr> Flushing w1 \<and> contents w1 = 7 \<and>
     execute_query (all_server count_statements) 0 (lit ''SELECT 1'') w1 =
       Some (reply_result (as_bytes (lit ''&2 7 -1'')), w2) \<and> contents w2 = 9 \<and>
     to_read (links w2 0) = messages [as_bytes (lit ''&2 8 -1'')]"
proof -
  let ?w = "\<lparr>links = fresh_links, contents = 7 :: nat\<rparr>"
  have "\<And>q. count_statements q 7 = (as_bytes (lit ''&2 7 -1''), 8)"
    "\<And>q. count_statements q 8 = (as_bytes (lit ''&2 8 -1''), 9)"
    unfolding count_statements_def by code_simp+
  then have "answers (\<lambda>sql. count_statements (encode_query sql))
      ([] @ [lit ''DELETE FROM t'', lit ''SELECT 1'']) (contents ?w) =
      ([as_bytes (lit ''&2 7 -1''), as_bytes (lit ''&2 8 -1'')], 9)"
    by (simp only: append_Nil answers.simps store.simps prod.case)
  note cancelled_before_flush [OF all_server_requests _ _ this, where s = 0]
  then show ?thesis by (simp add: fresh_links_def requests_def del: lit.simps) blast
qed

section \<open>A connection with a stream to read\<close>

definition one_connection :: "u8 list \<Rightarrow> script_world" where
  "one_connection stream = (one_server [] 0 [])\<lparr>conns := (\<lambda>_. \<lparr>to_client = stream,
     buffered = [], received = []\<rparr>)\<rparr>"

lemma one_connection_view:
  "script_view (one_connection stream) s = \<lparr>to_read = stream, unsent = [], sent = []\<rparr>"
  by (simp add: script_view_def one_connection_def)

section \<open>Dropped in the middle of a message\<close>

lemma block_bytes:
  assumes "length p < 32768"
  obtains a b where "block p fin = a # b # p" "decode_header (a, b) = (length p, fin)"
proof -
  obtain a b where h: "encode_header (length p) fin = (a, b)" by fastforce
  then have "block p fin = a # b # p" by (simp add: block_def)
  with decode_encode_header [OF assms, of fin] h show ?thesis by (intro that) simp_all
qed

text \<open>The header of a block read, and its payload.\<close>

lemma header_read:
  assumes "isolated t view" and "to_read (view w s) = block p fin @ rest" and "length p < 32768"
  obtains w1 where "to_read (view w1 s) = p @ rest"
    "task_step t s (Header m) w = Some (if p = [] then next_block m fin else Payload m (length p) fin, w1)"
proof -
  obtain a b where ab: "block p fin = a # b # p" "decode_header (a, b) = (length p, fin)"
    by (rule block_bytes [OF assms(3)])
  have i: "to_read (view w s) = a # b # p @ rest" by (simp add: assms(2) ab(1))
  then have "2 \<le> length (to_read (view w s))" by simp
  then obtain w1 where w1: "t_read_buffered t s 2 w = Some (Inr (take 2 (to_read (view w s))), w1)"
    "view w1 = (view w)(s := (view w s)\<lparr>to_read := drop 2 (to_read (view w s))\<rparr>)"
    by (rule isolated_read [OF assms(1)])
  then show thesis using i ab(2) by (intro that [of w1]) simp_all
qed

lemma payload_read:
  assumes "isolated t view" and "to_read (view w s) = p @ rest"
  obtains w1 where "to_read (view w1 s) = rest"
    "task_step t s (Payload m (length p) fin) w = Some (next_block (m @ p) fin, w1)"
proof -
  have "length p \<le> length (to_read (view w s))" by (simp add: assms(2))
  then obtain w1 where "t_read_buffered t s (length p) w =
      Some (Inr (take (length p) (to_read (view w s))), w1)"
    "view w1 = (view w)(s := (view w s)\<lparr>to_read := drop (length p) (to_read (view w s))\<rparr>)"
    by (rule isolated_read [OF assms(1)])
  then show thesis using assms(2) by (intro that [of w1]) simp_all
qed

definition blocks :: "u8 list list \<Rightarrow> u8 list" where
  "blocks ps = concat (map (\<lambda>p. block p False) ps)"

lemma steps_over_blocks:
  assumes iso: "isolated t view"
  shows "\<forall>p\<in>set ps. length p < 32768 \<Longrightarrow> to_read (view w s) = blocks ps @ rest \<Longrightarrow>
    \<exists>w1. task_steps t s (Header m) w (Header (m @ concat ps)) w1 \<and> to_read (view w1 s) = rest"
proof (induction ps arbitrary: m w)
  case Nil
  then show ?case by (auto simp: blocks_def intro: task_steps.stay)
next
  case (Cons p ps)
  then have i: "to_read (view w s) = block p False @ blocks ps @ rest" and p: "length p < 32768"
    by (simp_all add: blocks_def)
  obtain w1 where w1: "to_read (view w1 s) = p @ blocks ps @ rest"
    "task_step t s (Header m) w = Some (if p = [] then next_block m False else Payload m (length p) False, w1)"
    by (rule header_read [OF iso i p])
  have "\<exists>w2. task_steps t s (Header m) w (Header (m @ p)) w2 \<and> to_read (view w2 s) = blocks ps @ rest"
  proof (cases "p = []")
    case True
    with w1(2) have "task_step t s (Header m) w = Some (Header (m @ p), w1)" by (simp only: next_block_def) simp
    from last_step [OF this] True w1(1) show ?thesis by auto
  next
    case False
    obtain w2 where w2: "to_read (view w2 s) = blocks ps @ rest"
      "task_step t s (Payload m (length p) False) w1 = Some (next_block (m @ p) False, w2)"
      by (rule payload_read [OF iso w1(1)])
    have "task_step t s (Header m) w = Some (Payload m (length p) False, w1)"
      "task_step t s (Payload m (length p) False) w1 = Some (Header (m @ p), w2)"
      using False w1(2) w2(2) by (simp_all only: next_block_def if_False)
    from task_steps.step [OF this(1) last_step [OF this(2)]] w2(1) show ?thesis by blast
  qed
  then obtain w2 where w2: "task_steps t s (Header m) w (Header (m @ p)) w2"
    "to_read (view w2 s) = blocks ps @ rest" by blast
  from Cons.IH [OF _ w2(2), of "m @ p"] Cons.prems(1) obtain w3 where
    "task_steps t s (Header (m @ p)) w2 (Header ((m @ p) @ concat ps)) w3" "to_read (view w3 s) = rest"
    by auto
  with steps_trans [OF w2(1)] show ?case by auto
qed

text \<open>The steps up to the payload of any block of a response.\<close>

lemma steps_to_payload:
  assumes iso: "isolated t view" and "to_read (view w s) = blocks ps @ block p is_last @ rest"
    and "p \<noteq> []" and len: "\<forall>q\<in>set (p # ps). length q < 32768"
  obtains w1 where "task_steps t s (Created sql) w (Payload (concat ps) (length p) is_last) w1"
    "to_read (view w1 s) = p @ rest"
proof -
  let ?wp = "t_put_slice t s (encode_message (encode_query sql) []) w"
  obtain wf where wf: "t_flush t s ?wp = Some (Inr (), wf)"
    "to_read (view wf s) = blocks ps @ block p is_last @ rest"
  proof -
    have "to_read (view ?wp s) = blocks ps @ block p is_last @ rest"
      by (simp add: isolated_put [OF iso] assms(2))
    moreover obtain w' where "t_flush t s ?wp = Some (Inr (), w')"
      "view w' = (view ?wp)(s := (view ?wp s)\<lparr>unsent := [], sent := sent (view ?wp s) @ unsent (view ?wp s)\<rparr>)"
      by (rule isolated_flush [OF iso])
    ultimately show thesis by (intro that [of w']) simp_all
  qed
  have "\<forall>q\<in>set ps. length q < 32768" "length p < 32768" using len by simp_all
  with steps_over_blocks [OF iso _ wf(2), of "[]"] obtain w2 where
    w2: "task_steps t s (Header []) wf (Header (concat ps)) w2" "to_read (view w2 s) = block p is_last @ rest"
    by auto
  obtain w1 where w1: "to_read (view w1 s) = p @ rest"
    "task_step t s (Header (concat ps)) w2 = Some (Payload (concat ps) (length p) is_last, w1)"
    by (rule header_read [OF iso w2(2) \<open>length p < 32768\<close>]) (use assms(3) in auto)
  have "task_step t s Flushing ?wp = Some (Header [], wf)" using wf(1) by simp
  then have "task_steps t s Flushing ?wp (Payload (concat ps) (length p) is_last) w1"
    using steps_trans [OF w2(1) last_step [OF w1(2)]] by (rule task_steps.step)
  then have "task_steps t s (Created sql) w (Payload (concat ps) (length p) is_last) w1"
    by (rule task_steps.step [rotated]) simp
  then show thesis using w1(1) by (rule that)
qed

text \<open>C24: A query that is dropped between the header of a block, the first or a
  later one of its response, and the payload of that block leaves the payload where the next
  query looks for a header: what the next query reads is the payload and what follows, decoded
  as a message of its own, so it takes the data of the dropped one's response for the framing of
  its own. When that data starts with \<open>&1\<close>, as a table does, and what the server sends is shorter
  than the 6291 bytes these two characters announce as a header, the next query reads to the end
  of the stream and fails, although the server may have answered it.\<close>

theorem cancelled_mid_message:
  assumes "isolated t view" and "to_read (view w s) = blocks ps @ block p is_last @ rest"
    and "p \<noteq> []" and "\<forall>q\<in>set (p # ps). length q < 32768"
  shows "\<exists>w1. task_steps t s (Created sql) w (Payload (concat ps) (length p) is_last) w1 \<and>
    (case decode_message (p @ rest) of
       Some (m, k) \<Rightarrow> \<exists>w2. execute_query t s next_sql w1 = Some (reply_result m, w2) \<and>
         to_read (view w2 s) = drop k (p @ rest)
     | None \<Rightarrow> \<exists>e w2. execute_query t s next_sql w1 = Some (Inl (Failed (SqlxIo e)), w2)) \<and>
    (take 2 p = [38, 49] \<and> length (p @ rest) < 2 + 6291 \<longrightarrow>
       (\<exists>e w2. execute_query t s next_sql w1 = Some (Inl (Failed (SqlxIo e)), w2)))"
proof -
  obtain w1 where run: "task_steps t s (Created sql) w (Payload (concat ps) (length p) is_last) w1"
    and left: "to_read (view w1 s) = p @ rest"
    by (rule steps_to_payload [OF assms])
  have out: "case decode_message (p @ rest) of
       Some (m, k) \<Rightarrow> \<exists>w2. execute_query t s next_sql w1 = Some (reply_result m, w2) \<and>
         to_read (view w2 s) = drop k (p @ rest)
     | None \<Rightarrow> \<exists>e w2. execute_query t s next_sql w1 = Some (Inl (Failed (SqlxIo e)), w2)"
    using query_outcome [OF assms(1), where w = w1 and s = s and sql = next_sql] left
    by (auto split: option.splits)
  have "decode_message (p @ rest) = None"
    if "take 2 p = [38, 49]" "length (p @ rest) < 2 + 6291"
  proof -
    from that(1) obtain r where r: "p = 38 # 49 # r"
      by (cases p rule: remdups_adj.cases) auto
    have "decode_header (38, 49) = (6291, False)" by (simp add: decode_header_def from_le_bytes_def)
    then show ?thesis using that(2) unfolding r by (simp add: decode_message_block)
  qed
  with out have "take 2 p = [38, 49] \<and> length (p @ rest) < 2 + 6291 \<longrightarrow>
       (\<exists>e w2. execute_query t s next_sql w1 = Some (Inl (Failed (SqlxIo e)), w2))"
    by (auto simp del: length_append split: option.splits)
  with run out show ?thesis by blast
qed

theorem cancelled_mid_message_witness:
  "\<exists>w1 e w2. task_steps script_transport 0 (Created (lit ''SELECT 1'')) (one_connection
       (blocks [] @ block (as_bytes (lit ''&1 0 0 0 0'')) False @ block [37] True @
          encode_message (as_bytes (lit ''&2 7 -1'')) []))
       (Payload [] 10 False) w1 \<and>
     execute_query script_transport 0 (lit ''SELECT 2'') w1 = Some (Inl (Failed (SqlxIo e)), w2)"
proof -
  let ?p = "as_bytes (lit ''&1 0 0 0 0'')"
  let ?next = "block [37] True @ encode_message (as_bytes (lit ''&2 7 -1'')) []"
  let ?w = "one_connection (blocks [] @ block ?p False @ ?next)"
  have stream: "to_read (script_view ?w 0) = blocks [] @ block ?p False @ ?next"
    by (simp only: one_connection_view link.simps)
  have len: "length ?p = 10" "length (as_bytes (lit ''&2 7 -1'')) = 7" by code_simp+
  have "take 2 ?p = [38, 49]" by code_simp
  moreover have "length ?next = 12"
    by (simp only: length_append length_block, subst one_block_length)
      (simp_all add: len MAX_BLOCK_PAYLOAD_def del: lit.simps)
  ultimately have front: "take 2 ?p = [38, 49] \<and> length (?p @ ?next) < 2 + 6291"
    by (simp only: length_append [of ?p] len) simp
  have short: "\<forall>q\<in>set (?p # []). length q < 32768" by (simp add: len del: lit.simps)
  have some: "?p \<noteq> []" by code_simp
  note cancelled_mid_message [where sql = "lit ''SELECT 1''" and next_sql = "lit ''SELECT 2''"
      and view = script_view and t = script_transport and w = ?w and s = 0 and p = ?p and ps = "[]"
      and rest = ?next, OF script_isolated stream some short]
  then show ?thesis unfolding len concat.simps
    by (elim exE conjE) (drule mp [OF _ front], elim exE, intro exI conjI)
qed

end
