(* ===== verification/Server_Login.thy ===== *)
theory Server_Login
  imports Login
begin

text \<open>
  The other end of the login: a server that cuts the login line at its colons, takes the
  algorithm from the braces, and recomputes the second digest from the first one it stores for
  the user and the salt it sent in its challenge (section 4.1 of the protocol description the
  sources cite). What \<open>build_login_response\<close> and \<open>compute_password_hash\<close> write is judged by it.
\<close>

section \<open>A server that checks the login line\<close>

definition tagged_hash :: "rstr \<Rightarrow> (rstr \<times> rstr) option" where
  "tagged_hash f =
     (case f of
        [] \<Rightarrow> None
      | b # f \<Rightarrow>
          (let algo = takeWhile (\<lambda>c. c \<noteq> 125) f
           in if b = 123 \<and> length algo < length f
              then Some (algo, drop (Suc (length algo)) f) else None))"

definition server_accepts :: "digests \<Rightarrow> challenge \<Rightarrow> (rstr \<Rightarrow> rstr option) \<Rightarrow> rstr \<Rightarrow> bool" where
  "server_accepts d chal users line =
     (case split_on 58 line of
        order # user # tagged # language # database # rest \<Rightarrow>
          language = lit ''sql'' \<and>
          (case (users user, tagged_hash tagged) of
             (Some stored, Some (algo, h)) \<Rightarrow>
               algo \<in> set (hashes chal) \<and> hash_hex d algo (as_bytes stored @ as_bytes (salt chal)) = Some h
           | _ \<Rightarrow> False)
      | _ \<Rightarrow> False)"

lemma tagged_hash_braces:
  "125 \<notin> set algo \<Longrightarrow> tagged_hash (lit ''{'' @ algo @ lit ''}'' @ h) = Some (algo, h)"
  using takeWhile_stop [of algo "\<lambda>c. c \<noteq> 125" 125 h] by (fastforce simp: tagged_hash_def)

text \<open>What a computed hash is made of.\<close>

lemma compute_hash_Inr:
  "compute_password_hash d c password = Inr (algo, h) \<longleftrightarrow>
     select_hash_algorithm (hashes c) = Some algo \<and>
     (\<exists>pre. hash_hex d (server_hash c) (as_bytes password) = Some pre \<and>
       hash_hex d algo (as_bytes pre @ as_bytes (salt c)) = Some h)"
  by (auto simp: compute_password_hash_def Let_def res_simps)

lemma hash_priority_name: "algo \<in> set HASH_PRIORITY \<Longrightarrow> 58 \<notin> set algo \<and> 125 \<notin> set algo"
  by (auto simp: HASH_PRIORITY_def)

section \<open>The login it accepts\<close>

text \<open>C16: The driver's login line is the one the protocol's server verifies: for a user
  and a database without a colon, and digests printed without one, the line for the hash of a
  password is accepted exactly when the password registered for that user has the same hash
  for the same challenge, whatever options the server's level adds. The right password is
  accepted; a wrong one only where the digests collide.\<close>

theorem login_verified:
  assumes "compute_password_hash d chal password = Inr (algo, h)"
    and "users user = hash_hex d (server_hash chal) (as_bytes registered)"
    and "58 \<notin> set user" and "58 \<notin> set database" and "\<And>x. 58 \<notin> set (hex_encode d x)"
  shows "server_accepts d chal users (build_login_response chal user algo h database options) \<longleftrightarrow>
    compute_password_hash d chal registered = Inr (algo, h)"
proof -
  from assms(1) obtain pre where sel: "select_hash_algorithm (hashes chal) = Some algo"
    and pre: "hash_hex d (server_hash chal) (as_bytes password) = Some pre"
    and h: "hash_hex d algo (as_bytes pre @ as_bytes (salt chal)) = Some h"
    by (auto simp: compute_hash_Inr)
  have algo: "algo \<in> set HASH_PRIORITY" "algo \<in> set (hashes chal)"
    using sel by (auto simp: select_hash_algorithm_def find_Some_iff list_ex_iff)
  have "58 \<notin> set h" using h assms(5) by (auto simp: hash_hex_def split: if_splits)
  with hash_priority_name [OF algo(1)] assms(3,4) have fields:
    "split_on 58 (build_login_response chal user algo h database options) =
      [lit ''BIG'', user, lit ''{'' @ algo @ lit ''}'' @ h, lit ''sql'', database, lit ''FILETRANS''] @
      take (case handshake_option_level chal of None \<Rightarrow> 0 | Some l \<Rightarrow> unat l) (option_fields options) @ [[]]"
    by (intro login_line_fields) auto
  have "server_hash chal \<in> set HASH_PRIORITY"
    using pre hash_hex_supported by (metis option.distinct(1))
  then obtain stored where stored: "hash_hex d (server_hash chal) (as_bytes registered) = Some stored"
    using hash_hex_supported [of d "server_hash chal" "as_bytes registered"] by auto
  have "tagged_hash (lit ''{'' @ algo @ lit ''}'' @ h) = Some (algo, h)"
    by (rule tagged_hash_braces) (use hash_priority_name [OF algo(1)] in simp)
  then have "server_accepts d chal users (build_login_response chal user algo h database options) \<longleftrightarrow>
      hash_hex d algo (as_bytes stored @ as_bytes (salt chal)) = Some h"
    unfolding server_accepts_def fields using assms(2) stored algo(2)
    by (simp del: lit.simps)
  also have "\<dots> \<longleftrightarrow> compute_password_hash d chal registered = Inr (algo, h)"
    using stored sel by (simp add: compute_hash_Inr)
  finally show ?thesis .
qed

text \<open>A table of one user, whose password the driver is given.\<close>

definition sample_users :: "rstr \<Rightarrow> rstr option" where
  "sample_users user =
     (if user = lit ''monetdb''
      then hash_hex sample_digests (server_hash sample_challenge) (as_bytes (lit ''monetdb'')) else None)"

theorem login_verified_witness:
  "\<exists>algo h. compute_password_hash sample_digests sample_challenge (lit ''monetdb'') = Inr (algo, h) \<and>
     server_accepts sample_digests sample_challenge sample_users
       (build_login_response sample_challenge (lit ''monetdb'') algo h (lit ''demo'') handshake_options_default)"
proof -
  obtain algo h where hash: "compute_password_hash sample_digests sample_challenge (lit ''monetdb'') = Inr (algo, h)"
    using sample_hash [of "lit ''monetdb''"] by auto
  have "sample_users (lit ''monetdb'') =
      hash_hex sample_digests (server_hash sample_challenge) (as_bytes (lit ''monetdb''))"
    by (simp only: sample_users_def simp_thms if_True)
  moreover have "58 \<notin> set (lit ''monetdb'')" "58 \<notin> set (lit ''demo'')" by simp_all
  moreover have "58 \<notin> set (hex_encode sample_digests x)" for x
    by (auto simp: sample_digests_def is_digit_def dest!: show_nat_digit)
  ultimately have "server_accepts sample_digests sample_challenge sample_users
      (build_login_response sample_challenge (lit ''monetdb'') algo h (lit ''demo'') handshake_options_default) \<longleftrightarrow>
    compute_password_hash sample_digests sample_challenge (lit ''monetdb'') = Inr (algo, h)"
    by (rule login_verified [OF hash])
  with hash show ?thesis by blast
qed

end
