(* ===== verification/Pool_Progress.thy ===== *)
theory Pool_Progress
  imports Linearizable
begin

text \<open>
  The queries of a pool all come back: the accounting of the queries, a bound on the steps of a
  run, and a step that can be made as long as a query has no outcome.
\<close>

section \<open>Every query is somewhere\<close>

definition accounted :: "nat set \<Rightarrow> 's pool \<Rightarrow> bool" where
  "accounted tasks p \<longleftrightarrow> tasks = waiting p \<union> at_work (busy p) \<union> dom (outcome p)"

lemma run_accounted:
  assumes "pool_steps t ss sqls (pool_start tasks) w0 n p w"
  shows "accounted tasks p"
  using assms
proof (induction rule: pool_steps.induct)
  case start
  show ?case by (simp add: accounted_def pool_start_def at_work_def)
next
  case (acquire n p w i s)
  then show ?case using at_work_take [where b = "busy p", OF acquire.hyps(4)] by (auto simp: accounted_def)
next
  case (poll n p w s i k k' w')
  then show ?case using at_work_poll [where b = "busy p", OF poll.hyps(2)] by (simp add: accounted_def)
next
  case (release n p w s i r)
  then show ?case using at_work_release [where b = "busy p", OF release.hyps(2)] by (auto simp: accounted_def)
qed

section \<open>Every poll counts\<close>

text \<open>Answers of at most \<open>B\<close> bytes on the wire.\<close>

definition bounded :: "(rstr \<Rightarrow> 'db \<Rightarrow> u8 list \<times> 'db) \<Rightarrow> nat \<Rightarrow> bool" where
  "bounded exec B \<longleftrightarrow> (\<forall>sql d. length (encode_message (fst (exec sql d)) []) \<le> B)"

lemma poll_counts:
  assumes srv: "database_server t view db exec" and "bounded exec B"
    and slot: "slot_logged sqls log (Some (i, k)) (view w s)" and st: "task_step t s k w = Some (k', w')"
  obtains l' where "view w' = (view w)(s := l')" "steps_left B k' l' < steps_left B k (view w s)"
proof -
  consider "reading k" | q where "k = Created q" | "k = Flushing" by (cases k) auto
  then have "\<exists>l'. view w' = (view w)(s := l') \<and> steps_left B k' l' < steps_left B k (view w s)"
  proof cases
    case 1
    then obtain a where "serving a (sqls i) k (view w s)" using slot by (auto simp: slot_logged_def)
    then show ?thesis by (rule read_step [OF srv st _ 1]) blast
  next
    case 2
    with slot have serv: "serving [] (sqls i) (Created q) (view w s)" by (simp add: slot_logged_def)
    show ?thesis by (rule submit_step [OF srv st [unfolded 2] serv]) (auto simp: 2)
  next
    case 3
    with slot have serv: "serving [] (sqls i) Flushing (view w s)" by (simp add: slot_logged_def)
    obtain l' where l': "view w' = (view w)(s := l')" "k' = Header []"
      "to_read l' = encode_message (fst (exec (sqls i) (db w))) []"
      by (rule flush_step [OF srv st [unfolded 3] serv])
    have "length (encode_message (fst (exec (sqls i) (db w))) []) \<le> B"
      using assms(2) unfolding bounded_def by blast
    with l' 3 show ?thesis by (intro exI [of _ l']) simp
  qed
  with that show ?thesis by blast
qed

lemma poll_enabled:
  assumes srv: "database_server t view db exec"
    and slot: "slot_logged sqls log (Some (i, k)) (view w s)" and "\<not> finished k"
  shows "\<exists>k' w'. task_step t s k w = Some (k', w')"
proof (cases "reading k")
  case True
  then show ?thesis using reading_enabled [OF database_reads [OF srv]] assms(3) by blast
next
  case False
  then consider q where "k = Created q" | "k = Flushing" by (cases k) simp_all
  then show ?thesis
  proof cases
    case 2
    with slot have "unsent (view w s) = encode_message (encode_query (sqls i)) []"
      by (simp add: slot_logged_def)
    then obtain w1 where "t_flush t s w = Some (Inr (), w1)" by (rule database_flush [OF srv])
    with 2 show ?thesis by simp
  qed simp
qed

section \<open>The steps still to come\<close>

definition slot_left :: "nat \<Rightarrow> (nat \<times> task) option \<Rightarrow> link \<Rightarrow> nat" where
  "slot_left B slot l = (case slot of None \<Rightarrow> 0 | Some (i, k) \<Rightarrow> steps_left B k l)"

definition pool_left :: "nat \<Rightarrow> 's set \<Rightarrow> 's pool \<Rightarrow> ('s \<Rightarrow> link) \<Rightarrow> nat" where
  "pool_left B ss p v = card (waiting p) * (B + 5) + (\<Sum>s\<in>ss. slot_left B (busy p s) (v s))"

lemma slots_left:
  assumes "finite ss" "s \<in> ss"
  shows "(\<Sum>x\<in>ss. slot_left B ((b(s := slot)) x) ((v(s := l)) x)) + slot_left B (b s) (v s) =
    (\<Sum>x\<in>ss. slot_left B (b x) (v x)) + slot_left B slot l"
proof -
  have "(\<Sum>x\<in>ss. slot_left B ((b(s := slot)) x) ((v(s := l)) x)) =
      slot_left B slot l + (\<Sum>x\<in>ss - {s}. slot_left B (b x) (v x))"
    using assms by (simp add: sum.remove [of ss s])
  moreover have "(\<Sum>x\<in>ss. slot_left B (b x) (v x)) =
      slot_left B (b s) (v s) + (\<Sum>x\<in>ss - {s}. slot_left B (b x) (v x))"
    using assms by (rule sum.remove)
  ultimately show ?thesis by simp
qed

text \<open>What is logged of a run from the start.\<close>

lemma run_logged:
  assumes "database_server t view db exec" "\<forall>s\<in>ss. to_read (view w s) = [] \<and> unsent (view w s) = []"
    and "pool_steps t ss sqls (pool_start tasks) w n p w'"
  obtains log where "logged ss sqls tasks p (view w') log"
  using run_serialized [OF assms(3,1) start_serialized [where view = view and w = w, OF assms(2)]]
  unfolding serialized_def by blast

lemma run_bounded:
  assumes srv: "database_server t view db exec" and rest: "\<forall>s\<in>ss. to_read (view w0 s) = [] \<and> unsent (view w0 s) = []"
    and B: "bounded exec B" and fin: "finite ss" "finite tasks"
    and "pool_steps t ss sqls (pool_start tasks) w0 n p w"
  shows "n + pool_left B ss p (view w) \<le> card tasks * (B + 5) \<and> finite (waiting p)"
  using assms(6)
proof (induction rule: pool_steps.induct)
  case start
  show ?case using fin(2) by (simp add: pool_left_def pool_start_def slot_left_def)
next
  case (acquire n p w i s)
  have "card (waiting p) = Suc (card (waiting p - {i}))"
    using acquire by (intro card.remove) auto
  then obtain m where "card (waiting p) = Suc m" "card (waiting p - {i}) = m" by simp
  then show ?case
    using acquire slots_left [OF fin(1) acquire.hyps(3), of B "busy p" "Some (i, Created (sqls i))" "view w" "view w s"]
    by (simp add: pool_left_def slot_left_def)
next
  case (poll n p w s i k k' w')
  obtain log where log: "logged ss sqls tasks p (view w) log" by (rule run_logged [OF srv rest poll.hyps(1)])
  obtain l' where "view w' = (view w)(s := l')" "steps_left B k' l' < steps_left B k (view w s)"
    by (rule poll_counts [OF srv B logged_slot(3) [OF log poll.hyps(2)] poll.hyps(3)])
  then show ?case
    using poll slots_left [OF fin(1) logged_slot(1) [OF log poll.hyps(2)], of B "busy p" "Some (i, k')" "view w" l']
    by (simp add: pool_left_def slot_left_def)
next
  case (release n p w s i r)
  obtain log where log: "logged ss sqls tasks p (view w) log" by (rule run_logged [OF srv rest release.hyps(1)])
  show ?case
    using release slots_left [OF fin(1) logged_slot(1) [OF log release.hyps(2)], of B "busy p" None "view w" "view w s"]
    by (simp add: pool_left_def slot_left_def)
qed

lemma run_goes_on:
  assumes srv: "database_server t view db exec" and rest: "\<forall>s\<in>ss. to_read (view w0 s) = [] \<and> unsent (view w0 s) = []"
    and run: "pool_steps t ss sqls (pool_start tasks) w0 n p w" and "ss \<noteq> {}" and "dom (outcome p) \<noteq> tasks"
  shows "\<exists>p' w'. pool_steps t ss sqls (pool_start tasks) w0 (Suc n) p' w'"
proof (cases "\<exists>s i k. busy p s = Some (i, k)")
  case True
  then obtain s i k where b: "busy p s = Some (i, k)" by blast
  obtain log where log: "logged ss sqls tasks p (view w) log" by (rule run_logged [OF srv rest run])
  show ?thesis
  proof (cases "finished k")
    case True
    then obtain r where "k = Finished r" by (cases k) auto
    with b show ?thesis using pool_steps.release [OF run] by blast
  next
    case False
    then obtain k' w' where "task_step t s k w = Some (k', w')"
      using poll_enabled [OF srv logged_slot(3) [OF log b]] by blast
    with b show ?thesis using pool_steps.poll [OF run] by blast
  qed
next
  case False
  then have "at_work (busy p) = {}" by (auto simp: at_work_def)
  with assms(5) run_accounted [OF run] obtain i where "i \<in> waiting p" by (auto simp: accounted_def)
  moreover obtain s where "s \<in> ss" using assms(4) by blast
  moreover have "busy p s = None" using False by (cases "busy p s") auto
  ultimately show ?thesis using pool_steps.acquire [OF run] by blast
qed

text \<open>So some run brings all of them back: the longest one.\<close>

lemma pool_finishes:
  assumes "database_server t view db exec" and "\<forall>s\<in>ss. to_read (view w s) = [] \<and> unsent (view w s) = []"
    and "bounded exec B" and "finite ss" and "ss \<noteq> {}" and "finite tasks"
  obtains n p w' where "pool_steps t ss sqls (pool_start tasks) w n p w'" "dom (outcome p) = tasks"
proof -
  let ?run = "\<lambda>n. \<exists>p w'. pool_steps t ss sqls (pool_start tasks) w n p w'"
  have "?run 0" by (intro exI) (rule pool_steps.start)
  moreover have "\<forall>n. ?run n \<longrightarrow> n \<le> card tasks * (B + 5)"
    using run_bounded [OF assms(1-4,6)] by (metis add_leD1)
  ultimately obtain n where n: "?run n" "\<forall>m. ?run m \<longrightarrow> m \<le> n"
    using Nat.ex_has_greatest_nat [of ?run 0] by blast
  then obtain p w' where run: "pool_steps t ss sqls (pool_start tasks) w n p w'" by blast
  have "\<not> ?run (Suc n)" using n(2) by force
  with run_goes_on [OF assms(1,2) run assms(5)] run that show ?thesis by blast
qed

section \<open>What the pool promises\<close>

text \<open>C18: All the queries of a pool come back: over a database with answers of at most
  \<open>B\<close> bytes on the wire, as long as one query has no outcome some query can take a
  connection, go on or finish, and no run makes more than \<open>B + 5\<close> steps for each query. One
  connection is enough for any number of queries.\<close>

theorem pool_completes:
  assumes "database_server t view db exec" and "\<forall>s\<in>ss. to_read (view w s) = [] \<and> unsent (view w s) = []"
    and "bounded exec B" and "finite ss" and "ss \<noteq> {}" and "finite tasks"
    and "pool_steps t ss sqls (pool_start tasks) w n p w'"
  shows "n \<le> card tasks * (B + 5) \<and>
    (dom (outcome p) = tasks \<or> (\<exists>p' w''. pool_steps t ss sqls (pool_start tasks) w (Suc n) p' w''))"
  using run_bounded [OF assms(1-4,6,7)] run_goes_on [OF assms(1,2,7,5)] by (auto dest: add_leD1)

definition echo_ok :: "u8 list \<Rightarrow> nat \<Rightarrow> u8 list \<times> nat" where
  "echo_ok request n = ([], Suc n)"

theorem pool_completes_witness:
  "\<exists>p w'. pool_steps (store_server echo_ok) {0} sample_statements (pool_start {0, 1, 2}) empty_store 1 p w'"
proof -
  have start: "pool_steps (store_server echo_ok) {0} sample_statements (pool_start {0, 1, 2}) empty_store 0
      (pool_start {0, 1, 2}) empty_store" by (rule pool_steps.start)
  have rest: "\<forall>s\<in>{0}. to_read (links empty_store s) = [] \<and> unsent (links empty_store s) = []"
    by (simp add: empty_store_def fresh_links_def)
  have "bounded (\<lambda>sql. echo_ok (encode_query sql)) (length (encode_message [] []))"
    by (simp add: bounded_def echo_ok_def)
  from pool_completes [OF store_database rest this _ _ _ start] show ?thesis
    by (auto simp: pool_start_def)
qed

section \<open>A server without a state\<close>

text \<open>The answer is there once the request has been flushed. \<open>answer\<close> is a function of the statement.\<close>

definition answering ::
    "('w, 's) transport \<Rightarrow> ('w \<Rightarrow> 's \<Rightarrow> link) \<Rightarrow> (rstr \<Rightarrow> u8 list) \<Rightarrow> bool" where
  "answering t view answer \<longleftrightarrow>
     own_reads t view \<and>
     (\<forall>s w bytes. view (t_put_slice t s bytes w) =
        (view w)(s := (view w s)\<lparr>unsent := unsent (view w s) @ bytes\<rparr>)) \<and>
     (\<forall>s w sql. unsent (view w s) = encode_message (encode_query sql) [] \<longrightarrow>
        (\<exists>w'. t_flush t s w = Some (Inr (), w') \<and>
           view w' = (view w)(s := (view w s)\<lparr>to_read := to_read (view w s) @ encode_message (answer sql) [],
             unsent := [], sent := sent (view w s) @ unsent (view w s)\<rparr>)))"

lemma answering_database:
  "answering t view answer \<Longrightarrow> database_server t view (\<lambda>_. ()) (\<lambda>sql _. (answer sql, ()))"
  unfolding answering_def database_server_def by simp

lemma store_answers:
  "answering (store_server (\<lambda>request d. (f request, d))) links (\<lambda>sql. f (encode_query sql))"
proof -
  note srv = store_database [of "\<lambda>request d. (f request, d)"]
  have "\<exists>w'. t_flush (store_server (\<lambda>request d. (f request, d))) s w = Some (Inr (), w') \<and>
      links w' = (links w)(s := (links w s)\<lparr>to_read := to_read (links w s) @ encode_message (f (encode_query sql)) [],
        unsent := [], sent := sent (links w s) @ unsent (links w s)\<rparr>)"
    if "unsent (links w s) = encode_message (encode_query sql) []" for s sql and w :: "'a store"
    by (rule database_flush [OF srv that]) (intro exI conjI, assumption, simp only: fst_conv)
  then show ?thesis unfolding answering_def
    using database_reads [OF srv] database_put(1) [OF srv] by blast
qed

lemma serial_stateless:
  "(i, a) \<in> set (fst (serial (\<lambda>sql _. (answer sql, ())) sqls order d)) \<Longrightarrow> a = answer (sqls i)"
  by (induction order arbitrary: d) (auto split: prod.splits)

text \<open>Queries that share a pool of connections are not mixed up: each query that comes back has the
  answer to its own statement.\<close>

theorem pool_answers:
  assumes "answering t view answer" and "\<forall>s\<in>ss. to_read (view w s) = [] \<and> unsent (view w s) = []"
    and "pool_steps t ss sqls (pool_start tasks) w n p w'" and "outcome p i = Some r"
  shows "i \<in> tasks \<and> r = reply_result (answer (sqls i))"
proof -
  obtain order where ser: "serialized view (\<lambda>_. ()) (\<lambda>sql _. (answer sql, ())) ss sqls tasks () p w' order"
    using run_serialized [OF assms(3) answering_database [OF assms(1)]
      start_serialized [where view = view and w = w, OF assms(2)]] by auto
  have "i \<in> dom (outcome p)" using assms(4) by (rule domI)
  then have "i \<in> tasks" using serialized_order(2,4) [OF ser] by blast
  moreover have "r = reply_result (answer (sqls i))"
    using serialized_order(6) [OF ser assms(4)] serial_stateless by metis
  ultimately show ?thesis by blast
qed

end
