(* ===== verification/Acceptance_Pool.thy ===== *)
theory Acceptance_Pool
  imports Pool_Progress Acceptance_Rows
begin

text \<open>
  The test of the connection pool (\<open>src/connection.rs\<close>): ten tasks that each fetch \<open>SELECT 1\<close> over
  a pool of five connections. The pool is \<open>Pool\<close>'s, for any number of connections.
\<close>

text \<open>The tasks, and the assertion of each: no error, and one row.\<close>

definition pool_statements :: "nat \<Rightarrow> rstr" where
  "pool_statements i = lit ''SELECT 1''"

definition pool_supports_concurrent_queries :: "(nat \<Rightarrow> query_outcome option) \<Rightarrow> bool" where
  "pool_supports_concurrent_queries joined =
     list_all (\<lambda>i. case joined i of
         Some (Inr response) \<Rightarrow> length (response_rows response) = 1
       | _ \<Rightarrow> False) [0..<10]"

text \<open>The server's part: whatever state it is in, \<open>SELECT 1\<close> gives one row.\<close>

definition selects_one :: "(rstr \<Rightarrow> 'db \<Rightarrow> u8 list \<times> 'db) \<Rightarrow> bool" where
  "selects_one exec \<longleftrightarrow>
     (\<forall>d. \<exists>answer table. fst (exec (lit ''SELECT 1'') d) = as_bytes answer \<and> scalars answer \<and>
        parse_response answer = Inr (QTable table) \<and> length (rows table) = 1)"

lemma pool_row:
  assumes "database_server t view db exec" and "\<forall>s\<in>ss. to_read (view w s) = [] \<and> unsent (view w s) = []"
    and "selects_one exec"
    and "pool_steps t ss pool_statements (pool_start tasks) w n p w'" and "outcome p i = Some r"
  shows "\<exists>response. r = Inr response \<and> length (response_rows response) = 1"
proof -
  obtain order where "serialized view db exec ss pool_statements tasks (db w) p w' order"
    using run_serialized [OF assms(4,1) start_serialized [where view = view and w = w, OF assms(2)]] by auto
  from serialized_order(6) [OF this assms(5)] serial_answer obtain d where
    "r = reply_result (fst (exec (lit ''SELECT 1'') d))" unfolding pool_statements_def by metis
  moreover obtain answer table where "fst (exec (lit ''SELECT 1'') d) = as_bytes answer" "scalars answer"
    "parse_response answer = Inr (QTable table)" "length (rows table) = 1"
    using assms(3) unfolding selects_one_def by metis
  ultimately have "r = Inr (QTable table)" "length (rows table) = 1"
    by (simp_all add: reply_result_def from_utf8_as_bytes del: lit.simps)
  then show ?thesis by (simp add: length_from_table_result)
qed

text \<open>The test passes whenever its tasks have come back, and they can: with at least one connection
  and a server that answers \<open>SELECT 1\<close> with one row, whatever else it does.\<close>

theorem pool_test_passes:
  assumes "database_server t view db exec" and "\<forall>s\<in>ss. to_read (view w s) = [] \<and> unsent (view w s) = []"
    and "selects_one exec" and "bounded exec B" and "finite ss" and "ss \<noteq> {}"
  shows "(\<forall>n p w'. pool_steps t ss pool_statements (pool_start {..<10}) w n p w' \<longrightarrow>
      dom (outcome p) = {..<10} \<longrightarrow> pool_supports_concurrent_queries (outcome p)) \<and>
    (\<exists>n p w'. pool_steps t ss pool_statements (pool_start {..<10}) w n p w' \<and> dom (outcome p) = {..<10})"
proof (intro conjI allI impI)
  fix n p w'
  assume run: "pool_steps t ss pool_statements (pool_start {..<10}) w n p w'" "dom (outcome p) = {..<10}"
  have "case outcome p i of Some (Inr response) \<Rightarrow> length (response_rows response) = 1 | _ \<Rightarrow> False"
    if "i < 10" for i
  proof -
    have "i \<in> dom (outcome p)" using that run(2) by simp
    then obtain r where r: "outcome p i = Some r" by (auto simp: dom_def)
    obtain response where "r = Inr response" "length (response_rows response) = 1"
      using pool_row [OF assms(1-3) run(1) r] by (elim exE conjE)
    with r show ?thesis by simp
  qed
  then show "pool_supports_concurrent_queries (outcome p)"
    unfolding pool_supports_concurrent_queries_def list_all_iff by simp
next
  show "\<exists>n p w'. pool_steps t ss pool_statements (pool_start {..<10}) w n p w' \<and> dom (outcome p) = {..<10}"
    by (rule pool_finishes [OF assms(1,2,4-6) finite_lessThan]) (intro exI conjI)
qed

end
