(* ===== verification/Database_Handle.thy ===== *)
theory Database_Handle
  imports Linearizable Acceptance_Rows
begin

text \<open>
  A connection as a handle of a database. The abstract handle executes one statement at a time
  on the state of the database and knows nothing of sockets, blocks and buffers; the operations
  of the driver's connection (\<open>src/connection.rs\<close>) implement it, in any sequence.
\<close>

section \<open>The operations\<close>

datatype operation =
    Ping
  | Fetch_Many rstr "box_error + monet_arguments option"
  | Fetch_Optional rstr "box_error + monet_arguments option"
  | Flush
  | Shrink_Buffers

datatype op_result = Done | Items "query_item list" | First_Row "monet_row option"

fun operate :: "('w, 's) transport \<Rightarrow> 's monet_connection \<Rightarrow> operation \<Rightarrow> ('w, op_result) io" where
  "operate t conn Ping = io_bind (connection_ping t conn) (\<lambda>_. io_return Done)"
| "operate t conn (Fetch_Many sql args) = io_bind (fetch_many t conn sql args) (\<lambda>items. io_return (Items items))"
| "operate t conn (Fetch_Optional sql args) =
     io_bind (fetch_optional t conn sql args) (\<lambda>row. io_return (First_Row row))"
| "operate t conn Flush = io_bind (connection_flush t conn) (\<lambda>_. io_return Done)"
| "operate t conn Shrink_Buffers = io_bind (connection_shrink_buffers t conn) (\<lambda>_. io_return Done)"

text \<open>A sequence of them, with what each returned: an error does not end it.\<close>

primrec operations ::
    "('w, 's) transport \<Rightarrow> 's monet_connection \<Rightarrow> operation list \<Rightarrow> 'w \<Rightarrow>
     ((sqlx_error fault + op_result) list \<times> 'w) option" where
  "operations t conn [] w = Some ([], w)"
| "operations t conn (op # ops) w =
     Option.bind (operate t conn op w) (\<lambda>(r, w).
       map_option (\<lambda>(rs, w). (r # rs, w)) (operations t conn ops w))"

section \<open>The abstract handle\<close>

text \<open>The statement an operation is about: what it was given, with its arguments put in.\<close>

definition statement_text :: "rstr \<Rightarrow> box_error + monet_arguments option \<Rightarrow> sqlx_error + rstr" where
  "statement_text sql args =
     (case args of
        Inl err \<Rightarrow> Inl (SqlxEncode err)
      | Inr None \<Rightarrow> Inr sql
      | Inr (Some arguments) \<Rightarrow> substitute_into arguments sql)"

text \<open>What the answer of the database means to the caller: its rows and its count, or its error.\<close>

definition answer_items :: "u8 list \<Rightarrow> sqlx_error fault + op_result" where
  "answer_items a =
     (case reply_result a of
        Inl (Failed e) \<Rightarrow> Inr (Items [Inl e])
      | Inl (Panicked p) \<Rightarrow> Inl (Panicked p)
      | Inr r \<Rightarrow> Inr (Items (map (\<lambda>row. Inr (Inr row)) (response_rows r) @
          [Inr (Inl \<lparr>rows_affected = affected r\<rparr>)])))"

definition answer_row :: "u8 list \<Rightarrow> sqlx_error fault + op_result" where
  "answer_row a =
     res_bind (reply_result a) (\<lambda>r.
       Inr (First_Row (case response_rows r of [] \<Rightarrow> None | row # _ \<Rightarrow> Some row)))"

fun handle ::
    "(rstr \<Rightarrow> 'db \<Rightarrow> u8 list \<times> 'db) \<Rightarrow> operation \<Rightarrow> 'db \<Rightarrow> (sqlx_error fault + op_result) \<times> 'db" where
  "handle exec Ping d =
     (case exec (lit ''SELECT 1'') d of (a, d) \<Rightarrow> (res_bind (reply_result a) (\<lambda>_. Inr Done), d))"
| "handle exec (Fetch_Many sql args) d =
     (case statement_text sql args of
        Inl e \<Rightarrow> (Inr (Items [Inl e]), d)
      | Inr text \<Rightarrow> (case exec text d of (a, d) \<Rightarrow> (answer_items a, d)))"
| "handle exec (Fetch_Optional sql args) d =
     (case statement_text sql args of
        Inl e \<Rightarrow> (Inl (Failed e), d)
      | Inr text \<Rightarrow> (case exec text d of (a, d) \<Rightarrow> (answer_row a, d)))"
| "handle exec Flush d = (Inr Done, d)"
| "handle exec Shrink_Buffers d = (Inr Done, d)"

primrec handles ::
    "(rstr \<Rightarrow> 'db \<Rightarrow> u8 list \<times> 'db) \<Rightarrow> operation list \<Rightarrow> 'db \<Rightarrow>
     (sqlx_error fault + op_result) list \<times> 'db" where
  "handles exec [] d = ([], d)"
| "handles exec (op # ops) d =
     (case handle exec op d of (r, d) \<Rightarrow> case handles exec ops d of (rs, d) \<Rightarrow> (r # rs, d))"

section \<open>One operation\<close>

text \<open>The calls of the socket that send nothing: flushing an empty buffer, shrinking the buffers.\<close>

definition quiet :: "('w, 's) transport \<Rightarrow> ('w \<Rightarrow> 's \<Rightarrow> link) \<Rightarrow> ('w \<Rightarrow> 'db) \<Rightarrow> bool" where
  "quiet t view db \<longleftrightarrow>
     (\<forall>s w. unsent (view w s) = [] \<longrightarrow>
        (\<exists>w'. t_flush t s w = Some (Inr (), w') \<and> view w' = view w \<and> db w' = db w)) \<and>
     (\<forall>s w. view (t_shrink_buffers t s w) = view w \<and> db (t_shrink_buffers t s w) = db w)"

lemma reply_no_panic: "reply_result a \<noteq> Inl (Panicked p)"
  by (auto simp: reply_result_def res_simps split: option.splits)

lemma fetch_sent:
  assumes "statement_text sql args = Inr text" and "execute_query t s text w = Some (reply_result a, w')"
  shows "operate t (connection_new s) (Fetch_Many sql args) w = Some (answer_items a, w')"
    "operate t (connection_new s) (Fetch_Optional sql args) w = Some (answer_row a, w')"
proof -
  obtain arguments where args: "args = Inr arguments"
    "(case arguments of Some x \<Rightarrow> substitute_into x sql | None \<Rightarrow> Inr sql) = Inr text"
    using assms(1) by (cases args) (auto simp: statement_text_def split: option.splits)
  have "operate t (connection_new s) (Fetch_Many sql args) w = Some (answer_items a, w') \<and>
    operate t (connection_new s) (Fetch_Optional sql args) w = Some (answer_row a, w')"
  proof (cases "reply_result a")
    case (Inl f)
    then obtain e where e: "reply_result a = Inl (Failed e)" using reply_no_panic by (cases f) auto
    have "fetch_many t (connection_new s) sql args w = Some (Inr [Inl e], w')"
      using assms(2) args(2) unfolding args(1) e
      by (simp add: fetch_many_def run_query_def connection_new_def io_bind_def io_match_def io_return_def)
    then show ?thesis
      by (simp add: fetch_optional_def answer_items_def answer_row_def e io_bind_def io_return_def io_lift_def)
  next
    case (Inr r)
    from run_answered [OF assms(2) [unfolded Inr] args(2)] show ?thesis unfolding args(1)
      by (simp add: fetch_optional_def answer_items_def answer_row_def Inr io_bind_def io_return_def
          io_lift_def first_row_rows)
  qed
  then show "operate t (connection_new s) (Fetch_Many sql args) w = Some (answer_items a, w')"
    "operate t (connection_new s) (Fetch_Optional sql args) w = Some (answer_row a, w')" by blast+
qed

lemma fetch_refused:
  assumes "statement_text sql args = Inl e"
  shows "operate t (connection_new s) (Fetch_Many sql args) w = Some (Inr (Items [Inl e]), w)"
    "operate t (connection_new s) (Fetch_Optional sql args) w = Some (Inl (Failed e), w)"
  using assms
  by (auto simp: statement_text_def fetch_optional_def fetch_many_def run_query_def io_bind_def
      io_return_def io_lift_def split: sum.splits option.splits)

definition at_rest :: "link \<Rightarrow> bool" where
  "at_rest l \<longleftrightarrow> to_read l = [] \<and> unsent l = []"

text \<open>Each operation implements the handle's, touches no other connection, and leaves its own at rest.\<close>

lemma operate_handle:
  assumes srv: "database_server t view db exec" and "quiet t view db" and "at_rest (view w s)"
  shows "\<exists>w' l'. operate t (connection_new s) op w = Some (fst (handle exec op (db w)), w') \<and>
    db w' = snd (handle exec op (db w)) \<and> view w' = (view w)(s := l') \<and> at_rest l'"
proof -
  have query: "\<exists>w' l'. execute_query t s sql w = Some (reply_result (fst (exec sql (db w))), w') \<and>
      db w' = snd (exec sql (db w)) \<and> view w' = (view w)(s := l') \<and> at_rest l'" for sql
    by (rule database_query [OF srv]) (use assms(3) in \<open>auto simp: at_rest_def\<close>)
  have same: "\<exists>l'. view w = (view w)(s := l') \<and> at_rest l'" using assms(3) by (metis fun_upd_triv)
  show ?thesis
  proof (cases op)
    case Ping
    obtain w' l' where w': "execute_query t s (lit ''SELECT 1'') w =
        Some (reply_result (fst (exec (lit ''SELECT 1'') (db w))), w')"
      "db w' = snd (exec (lit ''SELECT 1'') (db w))" "view w' = (view w)(s := l')" "at_rest l'"
      using query by blast
    then show ?thesis unfolding Ping
      by (intro exI [of _ w'] exI [of _ l'])
        (auto simp: connection_ping_def connection_new_def io_bind_def io_return_def simp del: lit.simps
          split: sum.splits prod.splits)
  next
    case (Fetch_Many sql args)
    show ?thesis
    proof (cases "statement_text sql args")
      case (Inl e)
      with same show ?thesis unfolding Fetch_Many by (auto simp: fetch_refused(1) simp del: operate.simps)
    next
      case (Inr stmt)
      obtain w' l' where w': "execute_query t s stmt w = Some (reply_result (fst (exec stmt (db w))), w')"
        "db w' = snd (exec stmt (db w))" "view w' = (view w)(s := l')" "at_rest l'"
        using query by blast
      from fetch_sent(1) [OF Inr w'(1)] w'(2-4) Inr show ?thesis unfolding Fetch_Many
        by (intro exI [of _ w'] exI [of _ l']) (simp del: operate.simps split: prod.splits)
    qed
  next
    case (Fetch_Optional sql args)
    show ?thesis
    proof (cases "statement_text sql args")
      case (Inl e)
      with same show ?thesis unfolding Fetch_Optional by (auto simp: fetch_refused(2) simp del: operate.simps)
    next
      case (Inr stmt)
      obtain w' l' where w': "execute_query t s stmt w = Some (reply_result (fst (exec stmt (db w))), w')"
        "db w' = snd (exec stmt (db w))" "view w' = (view w)(s := l')" "at_rest l'"
        using query by blast
      from fetch_sent(2) [OF Inr w'(1)] w'(2-4) Inr show ?thesis unfolding Fetch_Optional
        by (intro exI [of _ w'] exI [of _ l']) (simp del: operate.simps split: prod.splits)
    qed
  next
    case Flush
    obtain w' where "t_flush t s w = Some (Inr (), w')" "view w' = view w" "db w' = db w"
      using assms(2,3) unfolding quiet_def at_rest_def by blast
    with same show ?thesis unfolding Flush
      by (auto simp: connection_flush_def connection_new_def io_bind_def io_return_def io_os_def)
  next
    case Shrink_Buffers
    with same assms(2) show ?thesis
      by (auto simp: quiet_def connection_shrink_buffers_def connection_new_def io_bind_def io_return_def)
  qed
qed

section \<open>Any sequence of operations\<close>

lemma operations_handle:
  assumes srv: "database_server t view db exec" and quiet: "quiet t view db"
  shows "at_rest (view w s) \<Longrightarrow>
    \<exists>w' l'. operations t (connection_new s) ops w = Some (fst (handles exec ops (db w)), w') \<and>
      db w' = snd (handles exec ops (db w)) \<and> view w' = (view w)(s := l') \<and> at_rest l'"
proof (induction ops arbitrary: w)
  case Nil
  then show ?case by (metis fun_upd_triv fst_conv handles.simps(1) operations.simps(1) snd_conv)
next
  case (Cons op ops)
  obtain w1 l1 where w1: "operate t (connection_new s) op w = Some (fst (handle exec op (db w)), w1)"
    "db w1 = snd (handle exec op (db w))" "view w1 = (view w)(s := l1)" "at_rest l1"
    using operate_handle [OF srv quiet Cons.prems] by blast
  then have "at_rest (view w1 s)" by simp
  from Cons.IH [OF this] obtain w2 l2 where w2:
    "operations t (connection_new s) ops w1 = Some (fst (handles exec ops (db w1)), w2)"
    "db w2 = snd (handles exec ops (db w1))" "view w2 = (view w1)(s := l2)" "at_rest l2" by blast
  then show ?case using w1
    by (intro exI [of _ w2] exI [of _ l2]) (simp split: prod.splits)
qed

text \<open>C8: A connection is a handle of the database behind it. Over a server
  that executes each statement it is sent, any sequence of pings, queries, single-row queries,
  flushes and buffer shrinkings returns what the abstract handle returns for it, one statement
  executed after the other on the state of the database, and leaves the state the handle
  leaves; a query that is refused by the driver does not reach the database. The connection is
  at rest again after each of them, with nothing left to read or to send, also after an error,
  and no other connection has been touched.\<close>

theorem connection_refines_handle:
  assumes "database_server t view db exec" and "quiet t view db"
    and "to_read (view w s) = []" and "unsent (view w s) = []"
  shows "\<exists>w'. operations t (connection_new s) ops w = Some (fst (handles exec ops (db w)), w') \<and>
    db w' = snd (handles exec ops (db w)) \<and>
    to_read (view w' s) = [] \<and> unsent (view w' s) = [] \<and> (\<forall>s'. s' \<noteq> s \<longrightarrow> view w' s' = view w s')"
proof -
  have "at_rest (view w s)" using assms(3,4) by (simp add: at_rest_def)
  from operations_handle [OF assms(1,2) this] obtain w' l' where
    "operations t (connection_new s) ops w = Some (fst (handles exec ops (db w)), w')"
    "db w' = snd (handles exec ops (db w))" "view w' = (view w)(s := l')" "at_rest l'" by blast
  then show ?thesis by (intro exI [of _ w']) (simp add: at_rest_def)
qed

lemma store_quiet: "quiet (store_server f) links contents"
  unfolding quiet_def
proof (intro conjI allI impI)
  fix s :: nat and w :: "'a store"
  assume "unsent (links w s) = []"
  moreover have "decode_message [] = None" by (simp add: decode_message_short)
  moreover have "(links w)(s := (links w s)\<lparr>to_read := to_read (links w s) @ [], unsent := unsent (links w s),
      sent := sent (links w s) @ []\<rparr>) = links w" by (rule ext) simp
  ultimately show "\<exists>w'. t_flush (store_server f) s w = Some (Inr (), w') \<and> links w' = links w \<and> contents w' = contents w"
    by (simp add: store_server_def store_flush_def)
qed (simp_all add: store_server_def)

text \<open>A ping, a query and a query that is refused: the counter of the store counts two statements.\<close>

theorem connection_refines_handle_witness:
  "\<exists>w'. operations (store_server count_statements) (connection_new 0)
       [Ping, Fetch_Many (lit ''DELETE FROM t'') (Inr None), Fetch_Many (lit ''?'') (Inl (BoxMessage []))]
       empty_store =
     Some (fst (handles (\<lambda>sql. count_statements (encode_query sql))
       [Ping, Fetch_Many (lit ''DELETE FROM t'') (Inr None), Fetch_Many (lit ''?'') (Inl (BoxMessage []))] 0), w') \<and>
     contents w' = 2"
proof -
  let ?ops = "[Ping, Fetch_Many (lit ''DELETE FROM t'') (Inr None), Fetch_Many (lit ''?'') (Inl (BoxMessage []))]"
  have "to_read (links empty_store 0) = []" "unsent (links empty_store 0) = []" "contents empty_store = 0"
    by (simp_all add: empty_store_def fresh_links_def)
  moreover have "snd (handles (\<lambda>sql. count_statements (encode_query sql)) ?ops 0) = 2"
    by (simp add: statement_text_def count_statements_def del: lit.simps)
  ultimately show ?thesis
    using connection_refines_handle [where view = links and w = empty_store and s = 0 and ops = ?ops,
        OF store_database [of count_statements] store_quiet]
    by (simp only: refl) blast
qed

end
