(* ===== verification/Spec2Isabelle.thy ===== *)
theory Spec2Isabelle
  imports Response_Laws Arguments Rows Login Connection_Laws Connect_Options
    Statements Comments Totality Redirects Sessions Well_Typed Unit_Tests Acceptance_Rows
    Cancellation Server_Login Acceptance_Pool Database_Handle
begin

text \<open>
  A model of sqlx-monetdb, the Rust driver of MonetDB for sqlx, and the theorems that make it
  correct. Paths below are relative to the crate's \<open>src/\<close>.

  \<^bold>\<open>The program.\<close> \<open>options.rs\<close> holds the connection options and starts a login.
  \<open>protocol/mod.rs\<close> drives the MAPI protocol over a buffered socket: messages in blocks
  (\<open>protocol/framing.rs\<close>), the challenge/response login with its redirects
  (\<open>protocol/handshake.rs\<close>), and one query with its response (\<open>protocol/response.rs\<close>).
  \<open>connection.rs\<close> runs a query for sqlx: \<open>arguments.rs\<close> puts the literals of the bound values
  into the statement, \<open>types/\<close> converts the values, \<open>row.rs\<close>, \<open>column.rs\<close>, \<open>value.rs\<close> and
  \<open>type_info.rs\<close> present the rows. \<open>error.rs\<close> holds the errors.

  \<^bold>\<open>The theories.\<close>
  \<^item> \<open>Prelude\<close>: bytes, characters and strings, fallible steps (\<open>Result\<close> as a sum, \<open>?\<close> as
    \<open>res_bind\<close>), generic lemmas, and the collections \<open>res_simps\<close>, \<open>text_simps\<close>, \<open>wire_simps\<close> and
    \<open>run_simps\<close>.
  \<^item> \<open>Rust_Text\<close>, \<open>Rust_Int\<close>, \<open>Utf8\<close>: what the driver uses of Rust's \<open>str\<close>, of \<open>parse\<close> and
    \<open>to_string\<close> of integers (digit by digit, with checked arithmetic), and of UTF-8, with the
    laws that splitting and joining, printing and parsing, encoding and decoding undo each other.
  \<^item> \<open>Rust_Float\<close>, \<open>Float_Laws\<close>: \<open>parse\<close> and \<open>to_string\<close> of \<open>f32\<close> and \<open>f64\<close> over natural numbers,
    stated once for both formats; parsing rounds to the nearest float, ties to even, and is
    monotone; printing gives the shortest decimal that reads back, of at most 17 digits.
  \<^item> \<open>Driver_Error\<close> (\<open>error.rs\<close>): the driver's errors, the errors of sqlx they become, and
    \<open>fault\<close>, an error or a panic.
  \<^item> \<open>Framing\<close> (\<open>protocol/framing.rs\<close>): the 16-bit header, the encoder, the decoder. The relation
    \<open>framed\<close> is the wire format: the decoder accepts exactly it, the encoder writes it with
    blocks of at most 8190 bytes; the locale \<open>message_codec\<close> is the contract of a framing.
  \<^item> \<open>Response\<close> (\<open>protocol/response.rs\<close>) and \<open>Server_Text\<close>, \<open>Response_Laws\<close>: the parser, one
    definition for each function and one step for each line; a reference renderer of what a
    server sends; reading back every rendered table, the rows in order, when and with what
    a response is an error.
  \<^item> \<open>Handshake\<close> (\<open>protocol/handshake.rs\<close>): the challenge, the choice of the hash, the two-level
    password hash, the login line, the server's answer, redirects, with exact characterisations.
  \<^item> \<open>Values\<close> (\<open>type_info.rs\<close>, \<open>value.rs\<close>, \<open>types/\<close>) and \<open>Literals\<close>: type names, values, \<open>Decode\<close>
    and \<open>Encode\<close> of every type; a reader of SQL tokens; the contracts \<open>value_codec\<close> and
    \<open>literal_codec\<close> of a type that is bound and read back, interpreted on booleans, integers of
    every width and strings.
  \<^item> \<open>Arguments\<close> (\<open>arguments.rs\<close>): adding values and substituting the placeholders; a server that
    reads the finished statement finds each bound value in its place. \<open>Statements\<close>: the whole
    statement is read as the one that was written, with the values for the question marks.
    \<open>Comments\<close>: where it is not, a minus in front of a question mark.
  \<^item> \<open>Float_Literals\<close> (\<open>types/float.rs\<close>): floats bound and read back, as instances of the same
    contracts; what their literals are.
  \<^item> \<open>Rows\<close> (\<open>column.rs\<close>, \<open>row.rs\<close>): rows of a table and reading one value by position or name;
    the contract \<open>column_index\<close> with both instances.
  \<^item> \<open>Protocol\<close> (\<open>protocol/mod.rs\<close>), \<open>Protocol_Laws\<close>, \<open>Script_Transport\<close>, \<open>Login\<close>: messages over
    the socket, the handshake and a query. \<open>healthy\<close> is the documented behaviour of the buffered
    socket; \<open>Script_Transport\<close> is a concrete transport that has it. \<open>read_message\<close> refines the
    decoder of \<open>Framing\<close>; \<open>redirected\<close> is the step relation of the handshake's attempts.
    \<open>Redirects\<close>: a chain of redirects ends in a login at its last server.
  \<^item> \<open>Connection\<close> (\<open>connection.rs\<close>, \<open>database.rs\<close>, \<open>statement.rs\<close>, \<open>transaction.rs\<close>) and
    \<open>Connection_Laws\<close>: the operations sqlx calls, the stream of items of a query.
    \<open>Sessions\<close>: several queries on one connection, and one that is dropped while it waits.
    \<open>Totality\<close>: every call comes back, over every transport whose own operations do and whose
    peers send finitely much. \<open>Well_Typed\<close>: what holds of every row, whatever the server sends.
  \<^item> \<open>Tasks\<close>: \<open>execute_query\<close> as the state machine its future is, one step from \<open>await\<close> to
    \<open>await\<close>; taken to the end, the steps are \<open>execute_query\<close>. \<open>Interleaving\<close>: a pool of
    connections whose queries are polled in any order; each query does what it does alone, and
    no order runs for ever. \<open>isolated\<close> is the documented behaviour of the sockets it needs.
    \<open>Pool\<close>: more queries than connections, which they take in turn. \<open>Linearizable\<close>: the pool
    over a database whose answers depend on what was executed before (\<open>database_server\<close>, with the
    state of the database in the world): what the queries get is what a serial execution gives,
    in an order that respects real time. \<open>Pool_Progress\<close>: all queries come back, in a bounded
    number of steps; a server without a state is a special case.
    \<open>Cancellation\<close>: a query dropped at each of its \<open>await\<close>s, and what the next one sends and
    reads; \<open>request_server\<close> is a server that executes every request it is sent.
  \<^item> \<open>Database_Handle\<close>: an abstract handle of a database, without sockets and buffers; the
    operations of a connection, in any sequence, refine it.
  \<^item> \<open>Server_Login\<close>: a server that checks the login line, and which passwords it accepts.
  \<^item> \<open>Connect_Options\<close> (\<open>options.rs\<close>): options, their text form, URLs, connecting; \<open>url_reader\<close>
    is the documented behaviour of the URL parser on the URLs it needs.
  \<^item> \<open>Unit_Tests\<close>, \<open>Acceptance\<close>, \<open>Acceptance_Rows\<close>, \<open>Acceptance_Pool\<close>: the crate's own tests. The unit tests are
    assertions; those that need no other crate hold of the definitions. The tests against a live server are programs over
    the socket; the theorems say which servers they pass against.
  \<^item> This theory: a query from end to end.

  \<^bold>\<open>Conventions.\<close> \<open>u8\<close>, \<open>u16\<close>, \<open>u64\<close>, \<open>i64\<close> and \<open>usize\<close> are words of their width; lengths and
  indices of vectors in memory are natural numbers. A \<open>char\<close> is its Unicode scalar value, a
  \<open>str\<close> the list of its characters; \<open>scalars\<close> says that a list is such a string. \<open>Result\<close> is a
  sum with the error on the left. A panic (an index out of range, an \<open>expect\<close>, \<open>unimplemented!\<close>)
  is a value \<open>Panicked\<close>. Messages of errors are the pieces of their \<open>format!\<close>. An \<open>async fn\<close> is
  a function from a world to an optional pair of result and world, where None is a call that
  never returns; \<open>&mut\<close> is the returned state.

  \<^bold>\<open>Loops.\<close> The decoder and the parsers recurse on what is left of their input. \<open>read_message\<close>
  may wait for ever and is a partial function in the option type: over a socket on which the
  peer sends finitely many bytes it is proved to return. The loop over login attempts counts
  down from 10, the constant of the code, and no more fuel is needed. Printing a float tries at
  most 17 digits, which \<open>candidate_seventeen\<close> shows to be enough.

  \<^bold>\<open>Arguments of the model.\<close> The socket of \<open>sqlx_core::net\<close> (\<open>transport\<close>), the digest functions
  and \<open>hex::encode\<close> (\<open>digests\<close>), \<open>Url::parse\<close> and the accessors of a URL, the parsers and
  formatters of \<open>Decimal\<close> and \<open>chrono\<close>, the log settings, and in the acceptance tests the provided
  methods of \<open>Row\<close> and \<open>Executor\<close>. The token reader of \<open>Literals\<close> is
  the standard form of string literals; \<open>escaped_end\<close> is the other convention, of a server that
  reads backslash escapes, under which the driver's literals are not safe. The renderer of
  \<open>Server_Text\<close> escapes what the parser unescapes; other escapes (octal ones) pass through the
  parser unchanged.

  \<^bold>\<open>Not modelled.\<close> The pool of sqlx and the threads of tokio, but for what \<open>Pool\<close> takes of them (a
  connection works on one query at a time; tasks are polled in any order); closing a connection
  by dropping it; timing and logging; capacities of buffers; how \<open>{:?}\<close>
  quotes a value and how the errors of other crates read; the macros of sqlx that derive the
  impls for \<open>Option\<close> and \<open>IntoArguments\<close>; the bits of NaN; the bound Rust's float parser puts on
  the exponent it reads, which matters for texts of tens of thousands of digits only; assertions of debug builds
  (\<open>encode_message_layout\<close> shows that the one of \<open>encode_header\<close> holds) and their overflow check
  in \<open>extend\<close>. The lines of the crate that no definition models are comments, imports,
  the headers of modules and \<open>impl\<close>s, associated types, and the setup of the pool in its test.
\<close>

section \<open>A query from end to end\<close>

lemma run_query_healthy:
  assumes h: "healthy t s incoming outgoing" and sc: "scalars reply"
    and inc: "incoming w = text_message reply @ rest"
    and sub: "substitute_into args sql = Inr out"
    and resp: "parse_response reply = Inr (QTable table)"
  shows "\<exists>w'. run_query t (connection_new s) sql (Inr (Some args)) w =
      Some (Inr (map (\<lambda>row. Inr (Inr row)) (from_table_result table) @
        [Inr (Inl \<lparr>rows_affected = row_count table\<rparr>)]), w') \<and>
    incoming w' = rest \<and> outgoing w' = outgoing w @ encode_message (encode_query out) []"
proof -
  obtain w' where w': "execute_query t s out w = Some (Inr (QTable table), w')"
    "incoming w' = rest" "outgoing w' = outgoing w @ encode_message (encode_query out) []"
    by (rule execute_text [OF h sc inc, of out]) (simp add: resp)
  then have "run_query t (connection_new s) sql (Inr (Some args)) w =
      Some (Inr (map (\<lambda>row. Inr (Inr row)) (from_table_result table) @
        [Inr (Inl \<lparr>rows_affected = row_count table\<rparr>)]), w')"
    by (simp add: run_query_def sub connection_new_def io_bind_def io_match_def io_return_def Let_def)
  with w'(2,3) show ?thesis by blast
qed

text \<open>C1: A query with bound arguments from end to end, over a healthy connection:
  the server is sent one message, the statement with its literals; and when it answers with a
  rendered table, the caller gets one row for each tuple, in order, in which every field that
  the tuple has reads, by its position, as the value the server wrote, with the type of its
  column and with NULL kept apart from every text; then one result. The result's count is the
  one the server declared, which nothing compares with the number of rows.\<close>

theorem query_table_values:
  assumes "healthy t s incoming outgoing"
    and "incoming w = text_message (render_table table extra) @ rest"
    and "scalars (render_table table extra)" and "renderable table" and "list_all word_text extra"
    and "substitute_into args sql = Inr out"
  shows "\<exists>w' rs. run_query t (connection_new s) sql (Inr (Some args)) w =
      Some (Inr (map (\<lambda>row. Inr (Inr row)) rs @
        [Inr (Inl \<lparr>rows_affected = row_count table\<rparr>)]), w') \<and>
    incoming w' = rest \<and> outgoing w' = outgoing w @ encode_message (encode_query out) [] \<and>
    length rs = length (rows table) \<and>
    (\<forall>r i. r < length rs \<and> i < length (columns table) \<and> i < length (rows table ! r) \<longrightarrow>
      try_get_raw index_usize i (rs ! r) =
        Inr \<lparr>vr_data = rows table ! r ! i,
             vr_type_info = monet_type_info_new (cm_type_name (columns table ! i))\<rparr>)"
proof -
  obtain w' where w': "run_query t (connection_new s) sql (Inr (Some args)) w =
      Some (Inr (map (\<lambda>row. Inr (Inr row)) (from_table_result table) @
        [Inr (Inl \<lparr>rows_affected = row_count table\<rparr>)]), w')"
    "incoming w' = rest" "outgoing w' = outgoing w @ encode_message (encode_query out) []"
    using run_query_healthy [OF assms(1,3,2,6) parse_rendered [OF assms(4,5)]] by blast
  show ?thesis
  proof (intro exI conjI)
    show "\<forall>r i. r < length (from_table_result table) \<and> i < length (columns table) \<and>
        i < length (rows table ! r) \<longrightarrow>
      try_get_raw index_usize i (from_table_result table ! r) =
        Inr \<lparr>vr_data = rows table ! r ! i,
             vr_type_info = monet_type_info_new (cm_type_name (columns table ! i))\<rparr>"
      by (auto simp: read_position)
  qed (use w' in simp_all)
qed

lemma scalars_two_columns: "scalars (render_table two_columns [])"
  by (simp add: render_table_def render_lines_def render_summary_def render_header_def
      render_row_def quote_field_def escape_char_def two_columns_def column_meta_default_def
      run_simps scalar_def)

lemma renderable_two_columns: "renderable two_columns"
  by (simp add: renderable_def two_columns_def header_text_def trimmed_def is_whitespace_def)

theorem query_table_values_witness:
  "\<exists>w w' rs. script_in 0 w = text_message (render_table two_columns []) @ [1, 0] \<and>
    run_query script_transport (connection_new 0) (lit ''SELECT * FROM t WHERE a > ?'')
      (Inr (Some \<lparr>literals = [lit ''6'']\<rparr>)) w =
      Some (Inr (map (\<lambda>row. Inr (Inr row)) rs @
        [Inr (Inl \<lparr>rows_affected = row_count two_columns\<rparr>)]), w') \<and>
    script_in 0 w' = [1, 0] \<and>
    script_out 0 w' = script_out 0 w @
      encode_message (encode_query (lit ''SELECT * FROM t WHERE a > 6'')) [] \<and>
    length rs = 2"
proof -
  have sub: "substitute_into \<lparr>literals = [lit ''6'']\<rparr> (lit ''SELECT * FROM t WHERE a > ?'') =
      Inr (lit ''SELECT * FROM t WHERE a > 6'')"
    by (simp add: substitute_into_def placeholders_def)
  have w: "list_all word_text []" by simp
  have len: "length (rows two_columns) = 2" by (simp add: two_columns_def)
  obtain world where world: "script_in 0 world = text_message (render_table two_columns []) @ [1, 0]"
    using script_connect_one by blast
  from query_table_values [OF script_healthy world scalars_two_columns renderable_two_columns w sub] world len show ?thesis by metis
qed

text \<open>C2: From the options to the rows: connecting with the options and running a
  query with bound arguments, over a healthy connection to a server that sends a readable
  challenge, accepts the login, replies once and answers the query with a rendered table. The
  caller gets the rows of that table and its result; the server has been sent the eight zero
  bytes, the login line for its challenge and the options' credentials, \<open>Xreply_size -1\<close> and
  the statement with its literals, in this order and nothing else.\<close>

theorem connect_then_query:
  assumes "t_connect t (opt_host opts) (opt_port opts) w = Some (Inr s, w1)"
    and "healthy t s incoming outgoing"
    and "incoming w1 = text_message line @ text_message answer @ text_message reply @
      text_message (render_table table extra) @ rest"
    and "scalars line" and "scalars answer" and "scalars reply"
    and "parse_challenge line = Inr chal"
    and "compute_password_hash d chal (opt_password opts) = Inr hash"
    and "parse_login_response answer = LoginOk"
    and "scalars (render_table table extra)" and "renderable table" and "list_all word_text extra"
    and "substitute_into args sql = Inr out"
  shows "\<exists>w'. io_bind (options_connect t d opts) (\<lambda>conn. run_query t conn sql (Inr (Some args))) w =
      Some (Inr (map (\<lambda>row. Inr (Inr row)) (from_table_result table) @
        [Inr (Inl \<lparr>rows_affected = row_count table\<rparr>)]), w') \<and>
    incoming w' = rest \<and>
    outgoing w' = outgoing w1 @ replicate 8 0 @
      text_message (build_login_response chal (opt_username opts) (fst hash) (snd hash)
        (opt_database opts) handshake_options_default) @
      text_message (lit ''Xreply_size -1'') @ encode_message (encode_query out) []"
proof -
  let ?c = "\<lparr>cr_username = opt_username opts, cr_password = opt_password opts,
    cr_database = opt_database opts\<rparr>"
  have hash: "compute_password_hash d chal (cr_password ?c) = Inr hash" using assms(8) by simp
  obtain w2 where w2: "perform_handshake t d (opt_host opts) (opt_port opts) (cr_username ?c)
      (cr_password ?c) (cr_database ?c) w = Some (Inr s, w2)"
    "incoming w2 = text_message (render_table table extra) @ rest"
    "outgoing w2 = outgoing w1 @ replicate 8 0 @ text_message (login_line d ?c chal hash) @
      text_message (lit ''Xreply_size -1'')"
    using login_succeeds [OF assms(1-7) hash assms(9)] by blast
  have "options_connect t d opts w = Some (Inr (connection_new s), w2)"
    using w2(1) by (simp add: options_connect_def io_bind_def io_return_def)
  moreover obtain w3 where "run_query t (connection_new s) sql (Inr (Some args)) w2 =
      Some (Inr (map (\<lambda>row. Inr (Inr row)) (from_table_result table) @
        [Inr (Inl \<lparr>rows_affected = row_count table\<rparr>)]), w3)"
    "incoming w3 = rest" "outgoing w3 = outgoing w2 @ encode_message (encode_query out) []"
    using run_query_healthy [OF assms(2,10) w2(2) assms(13) parse_rendered [OF assms(11,12)]] by blast
  ultimately show ?thesis
    using w2(3) by (intro exI [of _ w3]) (simp add: io_bind_def login_line_def)
qed

theorem connect_then_query_witness:
  "\<exists>hash w1 w'. io_bind (options_connect script_transport sample_digests (options_default ()))
      (\<lambda>conn. run_query script_transport conn (lit ''SELECT 1'') (Inr (Some \<lparr>literals = []\<rparr>)))
      (one_server (lit ''localhost'') 50000
        (text_message sample_line @ text_message [] @ text_message [] @
         text_message (render_table two_columns []) @ [])) =
      Some (Inr (map (\<lambda>row. Inr (Inr row)) (from_table_result two_columns) @
        [Inr (Inl \<lparr>rows_affected = row_count two_columns\<rparr>)]), w') \<and>
    script_in 0 w' = [] \<and>
    script_out 0 w' = script_out 0 w1 @ replicate 8 0 @
      text_message (build_login_response sample_challenge (lit ''monetdb'') (fst hash) (snd hash)
        (lit ''monetdb'') handshake_options_default) @
      text_message (lit ''Xreply_size -1'') @ encode_message (encode_query (lit ''SELECT 1'')) []"
proof -
  let ?opts = "options_default ()"
  have o: "opt_host ?opts = lit ''localhost''" "opt_port ?opts = 50000"
    "opt_username ?opts = lit ''monetdb''" "opt_database ?opts = lit ''monetdb''"
    by (simp_all add: options_default_def DEFAULT_PORT_def)
  let ?in = "text_message sample_line @ text_message [] @ text_message [] @
         text_message (render_table two_columns []) @ []"
  let ?w = "one_server (lit ''localhost'') 50000 ?in"
  obtain w1 where w1: "t_connect script_transport (opt_host ?opts) (opt_port ?opts) ?w = Some (Inr 0, w1)"
    "script_in 0 w1 = ?in"
    unfolding o using script_connect_one by blast
  obtain hash where hash: "compute_password_hash sample_digests sample_challenge
      (opt_password ?opts) = Inr hash"
    using sample_hash by blast
  have line: "scalars sample_line" unfolding sample_line_def by (rule scalars_lit)
  have empty: "scalars []" "parse_login_response [] = LoginOk" "list_all word_text []"
    by (simp_all add: parse_login_response_def)
  have sub: "substitute_into \<lparr>literals = []\<rparr> (lit ''SELECT 1'') = Inr (lit ''SELECT 1'')"
    by (simp add: substitute_into_def placeholders_def)
  from connect_then_query [OF w1(1) script_healthy w1(2) line empty(1,1) sample_parse hash empty(2)
      scalars_two_columns renderable_two_columns empty(3) sub]
  show ?thesis unfolding o by blast
qed

text \<open>C39: When reading a value panics. The parser accepts every rendered table
  whatever the lengths of its tuples, and the read of a value from a row of it, by position or by
  name, panics exactly when the column is one of the table's and its position lies behind the
  fields of the tuple: for a name, the position of the first column of that name. So a read from
  a tuple with a field for each column never panics, and a shorter one makes the read of each
  missing field panic instead of returning an error.\<close>

theorem short_tuple_panics:
  assumes "renderable t" and "list_all word_text extra" and "r < length (rows t)"
  shows "parse_response (render_table t extra) = Inr (QTable t) \<and>
    ((\<exists>p. try_get_raw index_usize i (from_table_result t ! r) = Inl (Panicked p)) \<longleftrightarrow>
       length (rows t ! r) \<le> i \<and> i < length (columns t)) \<and>
    ((\<exists>p. try_get_raw index_str n (from_table_result t ! r) = Inl (Panicked p)) \<longleftrightarrow>
       (\<exists>k. length (rows t ! r) \<le> k \<and> k < length (columns t) \<and>
          cm_name (columns t ! k) = n \<and> (\<forall>j < k. cm_name (columns t ! j) \<noteq> n)))"
proof (intro conjI)
  show "parse_response (render_table t extra) = Inr (QTable t)"
    by (rule parse_rendered [OF assms(1,2)])
  show "(\<exists>p. try_get_raw index_usize i (from_table_result t ! r) = Inl (Panicked p)) \<longleftrightarrow>
       length (rows t ! r) \<le> i \<and> i < length (columns t)"
    by (simp add: read_position [OF assms(3)])
  show "(\<exists>p. try_get_raw index_str n (from_table_result t ! r) = Inl (Panicked p)) \<longleftrightarrow>
       (\<exists>k. length (rows t ! r) \<le> k \<and> k < length (columns t) \<and>
          cm_name (columns t ! k) = n \<and> (\<forall>j < k. cm_name (columns t ! j) \<noteq> n))"
    unfolding read_name [OF assms(3)] by blast
qed

theorem short_tuple_panics_witness:
  "parse_response (render_table two_columns []) = Inr (QTable two_columns) \<and>
    (\<exists>p. try_get_raw index_usize 1 (from_table_result two_columns ! 1) = Inl (Panicked p)) \<and>
    (\<exists>p. try_get_raw index_str (lit ''b'') (from_table_result two_columns ! 1) = Inl (Panicked p)) \<and>
    \<not> (\<exists>p. try_get_raw index_str (lit ''a'') (from_table_result two_columns ! 1) = Inl (Panicked p))"
proof -
  have r: "1 < length (rows two_columns)" and w: "list_all word_text []" by (simp_all add: two_columns_def)
  note general = short_tuple_panics [OF renderable_two_columns w r]
  define b where "b = lit ''b''"
  define a where "a = lit ''a''"
  have names: "cm_name (columns two_columns ! 0) = a" "cm_name (columns two_columns ! 1) = b" "a \<noteq> b"
    by (simp_all add: two_columns_def a_def b_def)
  have len: "length (rows two_columns ! 1) = 1" "length (columns two_columns) = 2"
    by (simp_all add: two_columns_def)
  have "\<exists>k\<ge>1. k < 2 \<and> cm_name (columns two_columns ! k) = b \<and> (\<forall>j < k. cm_name (columns two_columns ! j) \<noteq> b)"
    using names by (intro exI [of _ 1]) simp
  moreover have "\<not> (1 \<le> k \<and> k < 2 \<and> cm_name (columns two_columns ! k) = a)" for k
    using names by (cases "k = 1") auto
  ultimately show ?thesis
    using general [of 1 b] general [of 1 a] unfolding len a_def [symmetric] b_def [symmetric] by auto
qed

end
